(* ===== verification/Prelude.thy ===== *)
theory Prelude
  imports
    Main
    "HOL-Library.State_Monad"
    "HOL-Library.Multiset"
    "HOL-Library.Product_Lexorder"
    "HOL-Library.Word"
begin

text \<open>
  Shared vocabulary of the development: the types of the values that the Go code and the
  SQL statements exchange, the errors they return, the row operations that the SQL
  statements of the repository use, and the generic lemmas about them.

  \<^item> A Go \<open>uuid.UUID\<close> is a 16-byte array, here \<open>128 word\<close>.
  \<^item> A Go \<open>time.Duration\<close> is an \<open>int64\<close> number of nanoseconds, here \<open>int\<close> with the
    wrap-around written out by \<open>int64\<close> where the code computes with it.
  \<^item> A point in time is a number of microseconds since the zero time of Go's package
    \<open>time\<close> (the resolution of a \<open>timestamptz\<close> column), so the zero time is \<open>0\<close>.
  \<^item> A table is the list of its rows in the order in which a scan meets them; a query
    without \<open>ORDER BY\<close> returns rows in that order, and ties of an \<open>ORDER BY\<close> are
    broken by it. Every theorem quantifies over that order.
\<close>

named_theorems run_simps \<open>how the building blocks of a database program run\<close>
named_theorems sim_intros \<open>composition rules of the simulation between programs and transactions\<close>
named_theorems table_simps \<open>row operations against the fields and keys of a table\<close>

section \<open>Values\<close>

type_synonym uuid = "128 word"
type_synonym duration = int
type_synonym time = int

abbreviation (input) uuid_Nil :: uuid where
  "uuid_Nil \<equiv> 0"

definition DefaultTenantID :: uuid where
  "DefaultTenantID = 1"

definition int64 :: "int \<Rightarrow> int" where
  "int64 = signed_take_bit 63"

definition int16 :: "int \<Rightarrow> int" where
  "int16 = signed_take_bit 15"

definition Nanosecond :: duration where "Nanosecond = 1"
definition Millisecond :: duration where "Millisecond = 1000000"
definition Second :: duration where "Second = 1000000000"
definition Minute :: duration where "Minute = 60000000000"

definition zero_time :: time where
  "zero_time = 0"

definition max_int32 :: int where
  "max_int32 = 2147483647"

text \<open>
  Errors are values. \<open>ErrDriver\<close> is a failure of the connection or of the server that
  the statement itself did not cause; \<open>ErrConstraint\<close> names the violated constraint or
  the rejected input value.
\<close>

datatype error =
    ErrInvalidTransition
  | ErrScheduleNotFound
  | ErrNoRows
  | ErrNullScan
  | ErrConstraint string
  | ErrDriver string
  | ErrMessage string

fun driver_error :: "error \<Rightarrow> bool" where
  "driver_error (ErrDriver _) = True"
| "driver_error _ = False"

text \<open>
  What the program calls outside the repository: the text form of a UUID
  (\<open>github.com/google/uuid\<close>), PostgreSQL's \<open>jsonb\<close> input function (\<open>None\<close> for text that
  is not JSON) and the cron parser (\<open>github.com/robfig/cron\<close>), whose result maps a time to
  the next activation after it.
\<close>

record ext =
  uuid_String :: "uuid \<Rightarrow> string"
  uuid_Parse :: "string \<Rightarrow> uuid option"
  jsonb_in :: "string \<Rightarrow> string option"
  cron_Parse :: "string \<Rightarrow> error + (time \<Rightarrow> time)"

section \<open>Row operations\<close>

definition sql_update :: "('r \<Rightarrow> bool) \<Rightarrow> ('r \<Rightarrow> 'r) \<Rightarrow> 'r list \<Rightarrow> 'r list" where
  "sql_update p f rows = map (\<lambda>r. if p r then f r else r) rows"

definition sql_delete :: "('r \<Rightarrow> bool) \<Rightarrow> 'r list \<Rightarrow> 'r list" where
  "sql_delete p rows = filter (\<lambda>r. \<not> p r) rows"

definition sql_order_by :: "('r \<Rightarrow> 'k::linorder) \<Rightarrow> 'r list \<Rightarrow> 'r list" where
  "sql_order_by key rows = sort_key key rows"

definition sql_limit :: "int \<Rightarrow> 'r list \<Rightarrow> 'r list" where
  "sql_limit n rows = take (nat n) rows"

definition sql_count :: "('r \<Rightarrow> bool) \<Rightarrow> 'r list \<Rightarrow> int" where
  "sql_count p rows = int (length (filter p rows))"

text \<open>A comparison with \<open>NULL\<close> is not true.\<close>

definition sql_less :: "'a::linorder option \<Rightarrow> 'a \<Rightarrow> bool" where
  "sql_less x y = (case x of None \<Rightarrow> False | Some v \<Rightarrow> v < y)"

definition nullif :: "'a \<Rightarrow> 'a \<Rightarrow> 'a option" where
  "nullif x y = (if x = y then None else Some x)"

section \<open>Lemmas about values\<close>

lemma int64_id: "- (2 ^ 63) \<le> x \<Longrightarrow> x < 2 ^ 63 \<Longrightarrow> int64 x = x"
  by (simp add: int64_def signed_take_bit_int_eq_self)

lemma int64_range: "- (2 ^ 63) \<le> int64 x \<and> int64 x < 2 ^ 63"
  using signed_take_bit_int_less_exp [of 63 x] signed_take_bit_int_greater_eq_minus_exp [of 63 x]
  by (simp add: int64_def)

lemma int64_add: "int64 (int64 x + y) = int64 (x + y)"
  by (metis (no_types) int64_def min.idem signed_take_bit_add signed_take_bit_signed_take_bit)

lemma int16_id: "- (2 ^ 15) \<le> x \<Longrightarrow> x < 2 ^ 15 \<Longrightarrow> int16 x = x"
  by (simp add: int16_def signed_take_bit_int_eq_self)

lemma int16_range: "- (2 ^ 15) \<le> int16 x \<and> int16 x < 2 ^ 15"
  using signed_take_bit_int_less_exp [of 15 x] signed_take_bit_int_greater_eq_minus_exp [of 15 x]
  by (simp add: int16_def)

lemma sql_less_simps [simp]:
  "sql_less None y = False"
  "sql_less (Some v) y = (v < y)"
  by (simp_all add: sql_less_def)

lemma nullif_simps [simp]:
  "nullif x x = None"
  "x \<noteq> y \<Longrightarrow> nullif x y = Some x"
  by (simp_all add: nullif_def)

section \<open>Lemmas about row operations\<close>

lemma sql_update_simps [simp]:
  "sql_update p f [] = []"
  "sql_update p f (r # rs) = (if p r then f r else r) # sql_update p f rs"
  by (simp_all add: sql_update_def)

lemma sql_update_append [simp]:
  "sql_update p f (xs @ ys) = sql_update p f xs @ sql_update p f ys"
  by (simp add: sql_update_def)

lemma length_sql_update [simp]: "length (sql_update p f rows) = length rows"
  by (simp add: sql_update_def)

lemma set_sql_update:
  "set (sql_update p f rows) = f ` {r \<in> set rows. p r} \<union> {r \<in> set rows. \<not> p r}"
  by (auto simp: sql_update_def)

lemma in_sql_updateE:
  assumes "r \<in> set (sql_update p f rows)"
  obtains (hit) r' where "r' \<in> set rows" "p r'" "r = f r'"
    | (miss) "r \<in> set rows" "\<not> p r"
  using assms by (auto simp: set_sql_update)

text \<open>An update that keeps a column keeps the list of that column's values.\<close>

lemma map_sql_update:
  "(\<And>r. r \<in> set rows \<Longrightarrow> p r \<Longrightarrow> g (f r) = g r) \<Longrightarrow> map g (sql_update p f rows) = map g rows"
  by (auto simp: sql_update_def)

lemma sql_update_cong:
  "(\<And>r. r \<in> set rows \<Longrightarrow> p r \<longleftrightarrow> q r) \<Longrightarrow> sql_update p f rows = sql_update q f rows"
  by (auto simp: sql_update_def)

lemma sql_update_none: "(\<And>r. r \<in> set rows \<Longrightarrow> \<not> p r) \<Longrightarrow> sql_update p f rows = rows"
  by (induction rows) auto

lemma filter_sql_update_keep:
  "(\<And>r. r \<in> set rows \<Longrightarrow> p r \<Longrightarrow> q (f r) = q r) \<Longrightarrow>
   filter q (sql_update p f rows) = sql_update p f (filter q rows)"
  by (induction rows) auto

lemma filter_sql_update_split:
  "(\<And>r. r \<in> set rows \<Longrightarrow> p r \<Longrightarrow> \<not> q (f r)) \<Longrightarrow>
   filter q (sql_update p f rows) = filter (\<lambda>r. q r \<and> \<not> p r) rows"
  by (induction rows) auto

lemma filter_map_sql_update:
  "(\<And>r. r \<in> set rows \<Longrightarrow> p r \<Longrightarrow> p (f r)) \<Longrightarrow> filter p (sql_update p f rows) = map f (filter p rows)"
  by (induction rows) auto

text \<open>Lookup by a key column that is distinct over the table.\<close>

lemma distinct_key_unique:
  "distinct (map key rows) \<Longrightarrow> a \<in> set rows \<Longrightarrow> b \<in> set rows \<Longrightarrow> key a = key b \<Longrightarrow> a = b"
  by (induction rows) (auto simp: image_iff)

lemma filter_key_singleton:
  assumes "distinct (map key rows)" "r \<in> set rows" "key r = k"
  shows "filter (\<lambda>r. key r = k) rows = [r]"
  using assms
proof (induction rows)
  case (Cons a rows)
  show ?case
  proof (cases "key a = k")
    case True
    with Cons.prems have "a = r" and "k \<notin> key ` set rows"
      by (auto simp: image_iff)
    then have "filter (\<lambda>r. key r = k) rows = []"
      by (auto simp: filter_empty_conv)
    with True \<open>a = r\<close> show ?thesis by simp
  next
    case False
    with Cons show ?thesis by auto
  qed
qed simp

lemma filter_key_guard:
  assumes "distinct (map key rows)" "r \<in> set rows" "key r = k"
  shows "filter (\<lambda>r. key r = k \<and> q r) rows = (if q r then [r] else [])"
proof -
  have "filter (\<lambda>r. key r = k \<and> q r) rows = filter q (filter (\<lambda>r. key r = k) rows)"
    by (simp add: conj_commute)
  then show ?thesis
    by (simp add: filter_key_singleton [OF assms])
qed

lemma filter_key_absent: "k \<notin> key ` set rows \<Longrightarrow> filter (\<lambda>r. key r = k \<and> q r) rows = []"
  by (auto simp: filter_empty_conv)

lemma set_sql_order_by [simp]: "set (sql_order_by key rows) = set rows"
  by (simp add: sql_order_by_def)

lemma length_sql_order_by [simp]: "length (sql_order_by key rows) = length rows"
  by (simp add: sql_order_by_def)

lemma set_sql_limit: "set (sql_limit n rows) \<subseteq> set rows"
  by (simp add: sql_limit_def set_take_subset)

lemma length_sql_limit: "length (sql_limit n rows) = min (nat n) (length rows)"
  by (simp add: sql_limit_def min.commute)

lemma distinct_map_order_limit:
  "distinct (map g rows) \<Longrightarrow> distinct (map g (sql_limit n (sql_order_by key rows)))"
proof -
  assume "distinct (map g rows)"
  then have "distinct (map g (sort_key key rows))"
    by (metis mset_map mset_sort mset_eq_imp_distinct_iff)
  then show ?thesis
    by (simp add: sql_limit_def sql_order_by_def take_map [symmetric])
qed

text \<open>What \<open>ORDER BY \<dots> LIMIT n\<close> keeps is never behind what it drops.\<close>

lemma sql_limit_dominates:
  assumes "x \<in> set (sql_limit n (sql_order_by key rows))"
    and "y \<in> set rows" and "y \<notin> set (sql_limit n (sql_order_by key rows))"
  shows "key x \<le> key y"
proof -
  let ?s = "sort_key key rows"
  have "y \<in> set (take (nat n) ?s @ drop (nat n) ?s)"
    using assms(2) by simp
  then have y: "y \<in> set (drop (nat n) ?s)"
    using assms(3) by (auto simp: sql_limit_def sql_order_by_def simp del: append_take_drop_id)
  have "sorted (map key (take (nat n) ?s) @ map key (drop (nat n) ?s))"
    by (simp flip: map_append)
  with assms(1) y show ?thesis
    by (auto simp: sorted_append sql_limit_def sql_order_by_def)
qed

end
