(* ===== verification/Schema.thy ===== *)
theory Schema
  imports Prelude
begin

text \<open>
  The PostgreSQL schema of \<open>src/internal/store/migrations/0001_init.up.sql\<close> and the Go
  structs that the rows are scanned into. \<open>job\<close> is both the row of table \<open>jobs\<close> and the
  struct \<open>queue.Job\<close>: \<open>scanJobFields\<close> copies the columns one by one and turns a SQL
  \<open>NULL\<close> into a nil pointer, here \<open>None\<close>. The columns \<open>tenants.created_at\<close> and the
  indexes are left out: no statement of the program reads them.

  \<open>schema_ok\<close> collects what the table constraints enforce; \<open>queue_ok\<close> is what the
  statements of the queue keep true on top of it.
\<close>

datatype status = Ready | Running | Succeeded | Failed | Dead

record tenant =
  t_id :: uuid
  t_name :: string

record job =
  ID :: uuid
  TenantID :: uuid
  Queue :: string
  Handler :: string
  Payload :: string
  Status :: status
  Priority :: int
  Attempts :: int
  MaxAttempts :: int
  RunAt :: time
  LockedBy :: "string option"
  LockedUntil :: "time option"
  IdempotencyKey :: "string option"
  LastError :: "string option"
  CreatedAt :: time
  UpdatedAt :: time

record job_run =
  r_id :: uuid
  r_job_id :: uuid
  r_attempt :: int
  r_started_at :: time
  r_finished_at :: "time option"
  r_status :: status
  r_error :: "string option"

record dead_letter =
  d_job_id :: uuid
  d_dead_at :: time
  d_reason :: "string option"

record schedule_row =
  sc_id :: uuid
  sc_tenant_id :: uuid
  sc_name :: "string option"
  sc_cron_expr :: string
  sc_payload :: "string option"
  sc_queue :: "string option"
  sc_handler :: string
  sc_enabled :: bool
  sc_last_run_at :: "time option"
  sc_next_run_at :: "time option"

record db =
  tenants :: "tenant list"
  jobs :: "job list"
  job_runs :: "job_run list"
  dead_letters :: "dead_letter list"
  schedules :: "schedule_row list"

definition empty_db :: db where
  "empty_db = \<lparr>tenants = [], jobs = [], job_runs = [], dead_letters = [], schedules = []\<rparr>"

section \<open>Constraints of the tables\<close>

text \<open>The \<open>CHECK\<close> constraints and the ranges of the integer columns of table \<open>jobs\<close>.\<close>

definition jobs_check :: "job \<Rightarrow> bool" where
  "jobs_check j \<longleftrightarrow>
     0 \<le> Attempts j \<and> Attempts j \<le> max_int32 \<and>
     0 < MaxAttempts j \<and> MaxAttempts j \<le> max_int32 \<and>
     0 \<le> Priority j \<and> Priority j \<le> 32767"

text \<open>
  The pairs that \<open>UNIQUE (tenant_id, idempotency_key)\<close> ranges over: a row whose key is
  \<open>NULL\<close> never conflicts.
\<close>

definition idem_key :: "job \<Rightarrow> (uuid \<times> string) option" where
  "idem_key j = map_option (Pair (TenantID j)) (IdempotencyKey j)"

definition idem_keys :: "job list \<Rightarrow> (uuid \<times> string) list" where
  "idem_keys js = List.map_filter idem_key js"

definition schema_ok :: "db \<Rightarrow> bool" where
  "schema_ok d \<longleftrightarrow>
     distinct (map t_id (tenants d)) \<and>
     distinct (map t_name (tenants d)) \<and>
     distinct (map ID (jobs d)) \<and>
     distinct (idem_keys (jobs d)) \<and>
     (\<forall>j \<in> set (jobs d). jobs_check j \<and> TenantID j \<in> t_id ` set (tenants d)) \<and>
     distinct (map r_id (job_runs d)) \<and>
     (\<forall>r \<in> set (job_runs d). r_job_id r \<in> ID ` set (jobs d)) \<and>
     distinct (map d_job_id (dead_letters d)) \<and>
     (\<forall>x \<in> set (dead_letters d). d_job_id x \<in> ID ` set (jobs d)) \<and>
     distinct (map sc_id (schedules d)) \<and>
     (\<forall>s \<in> set (schedules d). sc_tenant_id s \<in> t_id ` set (tenants d))"

section \<open>What the queue keeps true\<close>

definition runs_of :: "uuid \<Rightarrow> db \<Rightarrow> job_run list" where
  "runs_of i d = filter (\<lambda>r. r_job_id r = i) (job_runs d)"

definition open_runs :: "uuid \<Rightarrow> db \<Rightarrow> job_run list" where
  "open_runs i d = filter (\<lambda>r. r_job_id r = i \<and> r_status r = Running) (job_runs d)"

text \<open>A job is leased exactly while it runs.\<close>

definition lease_ok :: "job \<Rightarrow> bool" where
  "lease_ok j \<longleftrightarrow>
     (Status j = Running \<longleftrightarrow> LockedBy j \<noteq> None) \<and>
     (Status j = Running \<longleftrightarrow> LockedUntil j \<noteq> None)"

text \<open>
  A running job has exactly one open run, the one of its current attempt; a job that does
  not run has none. Every attempt that is counted has its run in the history.
\<close>

definition runs_ok :: "db \<Rightarrow> job \<Rightarrow> bool" where
  "runs_ok d j \<longleftrightarrow>
     map r_attempt (open_runs (ID j) d) = (if Status j = Running then [Attempts j] else []) \<and>
     Attempts j \<le> int (length (runs_of (ID j) d))"

definition run_closed_ok :: "job_run \<Rightarrow> bool" where
  "run_closed_ok r \<longleftrightarrow> (r_status r = Running \<longleftrightarrow> r_finished_at r = None)"

definition dead_ok :: "db \<Rightarrow> job \<Rightarrow> bool" where
  "dead_ok d j \<longleftrightarrow> (Status j = Dead \<longleftrightarrow> ID j \<in> d_job_id ` set (dead_letters d))"

definition queue_ok :: "db \<Rightarrow> bool" where
  "queue_ok d \<longleftrightarrow>
     (\<forall>j \<in> set (jobs d). lease_ok j \<and> runs_ok d j \<and> dead_ok d j) \<and>
     (\<forall>r \<in> set (job_runs d). run_closed_ok r)"

definition db_ok :: "db \<Rightarrow> bool" where
  "db_ok d \<longleftrightarrow> schema_ok d \<and> queue_ok d"

section \<open>Lookup\<close>

definition find_job :: "uuid \<Rightarrow> db \<Rightarrow> job option" where
  "find_job i d = find (\<lambda>j. ID j = i) (jobs d)"

lemma find_job_in: "find_job i d = Some j \<Longrightarrow> j \<in> set (jobs d) \<and> ID j = i"
  by (auto simp: find_job_def find_Some_iff)

lemma find_job_None: "find_job i d = None \<longleftrightarrow> i \<notin> ID ` set (jobs d)"
  by (auto simp: find_job_def find_None_iff)

lemma find_job_eq:
  assumes "distinct (map ID (jobs d))"
  shows "find_job i d = Some j \<longleftrightarrow> j \<in> set (jobs d) \<and> ID j = i"
proof (cases "find_job i d")
  case None
  then show ?thesis by (auto simp: find_job_None dest: find_job_in)
next
  case (Some j')
  then have "j' \<in> set (jobs d)" "ID j' = i"
    by (auto dest: find_job_in)
  with Some show ?thesis
    by (auto dest: distinct_key_unique [OF assms])
qed

lemma find_job_jobs_cong: "jobs d = jobs d' \<Longrightarrow> find_job i d = find_job i d'"
  by (simp add: find_job_def)

lemma runs_of_cong: "job_runs d = job_runs d' \<Longrightarrow> runs_of i d = runs_of i d'"
  by (simp add: runs_of_def)

lemma open_runs_cong: "job_runs d = job_runs d' \<Longrightarrow> open_runs i d = open_runs i d'"
  by (simp add: open_runs_def)

lemma set_idem_keys: "set (idem_keys js) = {k. \<exists>j \<in> set js. idem_key j = Some k}"
  by (force simp: idem_keys_def List.map_filter_def image_iff)

lemma idem_keys_simps [simp]:
  "idem_keys [] = []"
  "idem_keys (j # js) = (case idem_key j of None \<Rightarrow> idem_keys js | Some k \<Rightarrow> k # idem_keys js)"
  "idem_keys (xs @ ys) = idem_keys xs @ idem_keys ys"
  by (simp_all add: idem_keys_def List.map_filter_def split: option.splits)

lemma idem_keys_sql_update:
  "(\<And>j. j \<in> set js \<Longrightarrow> p j \<Longrightarrow> idem_key (f j) = idem_key j) \<Longrightarrow>
   idem_keys (sql_update p f js) = idem_keys js"
  by (induction js) (auto split: option.splits)

lemma db_ok_empty: "db_ok empty_db"
  by (simp add: db_ok_def schema_ok_def queue_ok_def empty_db_def idem_keys_def List.map_filter_def)

lemmas db_ok_defs = db_ok_def schema_ok_def queue_ok_def

lemma db_okD:
  assumes "db_ok d"
  shows "distinct (map ID (jobs d))"
    and "distinct (map r_id (job_runs d))"
    and "distinct (map d_job_id (dead_letters d))"
    and "distinct (idem_keys (jobs d))"
  using assms by (simp_all add: db_ok_defs)

lemma db_ok_job:
  assumes "db_ok d" "j \<in> set (jobs d)"
  shows "jobs_check j" and "lease_ok j" and "runs_ok d j" and "dead_ok d j"
    and "TenantID j \<in> t_id ` set (tenants d)"
  using assms by (simp_all add: db_ok_defs)

end
