(* ===== verification/Transactions.thy ===== *)
theory Transactions
  imports Schema
begin

text \<open>
  How the Go code talks to PostgreSQL: a program is a state transformer over the server
  and the connection, every round trip may fail, and an open transaction works on a
  private copy of the tables until it commits.

  The failures are a script, one entry per round trip: the statement is refused before it
  takes effect, or it takes effect and its reply is lost. The second kind is what makes
  the outcome of a failed \<open>COMMIT\<close> or of a failed single statement unknown to the client.

  A transaction sees the tables as they were when it began: statements of one transaction
  are not interleaved with commits of others (\<open>Interleaving\<close> does that). What other open transactions hold is visible
  as the set of locked rows that \<open>SKIP LOCKED\<close> passes over.

  \<open>sim\<close>, \<open>csim\<close> and \<open>atomic\<close> relate such a program to a pure function on the
  tables; \<open>atomic_op\<close> is the interface that the rest of the development uses.
\<close>

datatype fault = NoFault | Refused string | ReplyLost string

record pg =
  committed :: db
  working :: "db option"
  advisory :: "nat option"
  faults :: "fault list"

type_synonym 'a prog = "(pg, error + 'a) state"
type_synonym 'a txn = "db \<Rightarrow> error + ('a \<times> db)"

definition view :: "pg \<Rightarrow> db" where
  "view s = (case working s of None \<Rightarrow> committed s | Some d \<Rightarrow> d)"

definition put_view :: "db \<Rightarrow> pg \<Rightarrow> pg" where
  "put_view d s = (case working s of None \<Rightarrow> s\<lparr>committed := d\<rparr> | Some _ \<Rightarrow> s\<lparr>working := Some d\<rparr>)"

definition apply_txn :: "'a txn \<Rightarrow> pg \<Rightarrow> (error + 'a) \<times> pg" where
  "apply_txn f s = (case f (view s) of Inl e \<Rightarrow> (Inl e, s) | Inr (a, d) \<Rightarrow> (Inr a, put_view d s))"

definition round_trip :: "(pg \<Rightarrow> (error + 'a) \<times> pg) \<Rightarrow> 'a prog" where
  "round_trip act = State (\<lambda>s.
     (let s' = s\<lparr>faults := tl (faults s)\<rparr> in
      case faults s of
        [] \<Rightarrow> act s
      | NoFault # _ \<Rightarrow> act s'
      | Refused m # _ \<Rightarrow> (Inl (ErrDriver m), s')
      | ReplyLost m # _ \<Rightarrow> (Inl (ErrDriver m), snd (act s'))))"

text \<open>One SQL statement: inside a transaction if one is open, else on its own.\<close>

definition stmt :: "'a txn \<Rightarrow> 'a prog" where
  "stmt f = round_trip (apply_txn f)"

text \<open>A connection whose \<open>BEGIN\<close> fails is closed, so no transaction is left open.\<close>

definition begin_tx :: "unit prog" where
  "begin_tx = State (\<lambda>s.
     (let s' = s\<lparr>faults := tl (faults s)\<rparr> in
      case faults s of
        [] \<Rightarrow> (Inr (), s\<lparr>working := Some (committed s)\<rparr>)
      | NoFault # _ \<Rightarrow> (Inr (), s'\<lparr>working := Some (committed s)\<rparr>)
      | Refused m # _ \<Rightarrow> (Inl (ErrDriver m), s')
      | ReplyLost m # _ \<Rightarrow> (Inl (ErrDriver m), s')))"

definition commit_act :: "pg \<Rightarrow> (error + unit) \<times> pg" where
  "commit_act s = (case working s of
       None \<Rightarrow> (Inr (), s)
     | Some d \<Rightarrow> (Inr (), s\<lparr>committed := d, working := None\<rparr>))"

definition commit :: "unit prog" where
  "commit = round_trip commit_act"

definition rollback :: "(pg, unit) state" where
  "rollback = State (\<lambda>s. ((), s\<lparr>working := None\<rparr>))"

definition ok :: "'a \<Rightarrow> 'a prog" where
  "ok a = State_Monad.return (Inr a)"

definition fail :: "error \<Rightarrow> 'a prog" where
  "fail e = State_Monad.return (Inl e)"

text \<open>\<open>if err != nil { return err }\<close> after a call.\<close>

definition tryM :: "'a prog \<Rightarrow> ('a \<Rightarrow> 'b prog) \<Rightarrow> 'b prog" where
  "tryM m k = do { r \<leftarrow> m; case r of Inl e \<Rightarrow> State_Monad.return (Inl e) | Inr a \<Rightarrow> k a }"

text \<open>\<open>if errors.Is(err, pgx.ErrNoRows) { return e }\<close> after a call.\<close>

definition norows :: "error \<Rightarrow> 'a prog \<Rightarrow> 'a prog" where
  "norows e m = do { r \<leftarrow> m; State_Monad.return (case r of Inl ErrNoRows \<Rightarrow> Inl e | _ \<Rightarrow> r) }"

text \<open>\<open>tx, err := db.BeginTx(...); if err != nil { return err }; defer rollback(ctx, tx)\<close>.\<close>

definition with_tx :: "'a prog \<Rightarrow> 'a prog" where
  "with_tx body = tryM begin_tx (\<lambda>_. do { r \<leftarrow> body; _ \<leftarrow> rollback; State_Monad.return r })"

section \<open>Transactions as functions on the tables\<close>

definition thenE :: "'a txn \<Rightarrow> ('a \<Rightarrow> 'b txn) \<Rightarrow> 'b txn" where
  "thenE f k d = (case f d of Inl e \<Rightarrow> Inl e | Inr (a, d') \<Rightarrow> k a d')"

definition okE :: "'a \<Rightarrow> 'a txn" where
  "okE a d = Inr (a, d)"

definition failE :: "error \<Rightarrow> 'a txn" where
  "failE e d = Inl e"

definition norowsE :: "error \<Rightarrow> 'a txn \<Rightarrow> 'a txn" where
  "norowsE e f d = (case f d of Inl ErrNoRows \<Rightarrow> Inl e | r \<Rightarrow> r)"

lemma thenE_Inr:
  "thenE f k d = Inr (b, d'') \<longleftrightarrow> (\<exists>a d'. f d = Inr (a, d') \<and> k a d' = Inr (b, d''))"
  by (auto simp: thenE_def split: sum.splits prod.splits)

lemma thenE_Inl:
  "thenE f k d = Inl e \<longleftrightarrow> f d = Inl e \<or> (\<exists>a d'. f d = Inr (a, d') \<and> k a d' = Inl e)"
  by (auto simp: thenE_def split: sum.splits prod.splits)

lemma okE_simps [simp]:
  "okE a d = Inr (b, d') \<longleftrightarrow> b = a \<and> d' = d"
  "okE a d \<noteq> Inl e"
  by (auto simp: okE_def)

lemma failE_simps [simp]:
  "failE e d = Inl e' \<longleftrightarrow> e' = e"
  "failE e d \<noteq> Inr x"
  by (auto simp: failE_def)

lemma norowsE_Inr [simp]: "norowsE e f d = Inr x \<longleftrightarrow> f d = Inr x"
  by (auto simp: norowsE_def split: sum.splits error.splits)

lemma norowsE_Inl:
  "norowsE e f d = Inl e' \<longleftrightarrow> (f d = Inl ErrNoRows \<and> e' = e) \<or> (f d = Inl e' \<and> e' \<noteq> ErrNoRows)"
  by (auto simp: norowsE_def split: sum.splits error.splits)

lemmas txn_simps = thenE_Inr thenE_Inl norowsE_Inl

section \<open>Simulation\<close>

text \<open>
  \<open>sim m f\<close>: inside or outside a transaction, if \<open>m\<close> returns a value then \<open>f\<close>
  returns it too and has the same effect on the visible tables; an error of \<open>m\<close> is the
  error of \<open>f\<close> or a failed round trip; without failures \<open>m\<close> behaves as \<open>f\<close>.
  Inside a transaction nothing is published.
\<close>

definition sim :: "'a prog \<Rightarrow> 'a txn \<Rightarrow> bool" where
  "sim m f \<longleftrightarrow> (\<forall>s r s'. run_state m s = (r, s') \<longrightarrow>
     (working s' = None \<longleftrightarrow> working s = None) \<and>
     (working s \<noteq> None \<longrightarrow> committed s' = committed s) \<and>
     advisory s' = advisory s \<and>
     (\<forall>a. r = Inr a \<longrightarrow> f (view s) = Inr (a, view s')) \<and>
     (\<forall>e. r = Inl e \<longrightarrow> driver_error e \<or> f (view s) = Inl e) \<and>
     (faults s = [] \<longrightarrow> faults s' = [] \<and> (\<forall>e. r = Inl e \<longrightarrow> f (view s) = Inl e)))"

text \<open>
  \<open>csim m f\<close>: the rest of a transaction, up to and including its commit. A value means
  that the whole effect of \<open>f\<close> is published; an error means that nothing is, except
  when the reply to the commit itself is lost.
\<close>

definition csim :: "'a prog \<Rightarrow> 'a txn \<Rightarrow> bool" where
  "csim m f \<longleftrightarrow> (\<forall>s d r s'. working s = Some d \<longrightarrow> run_state m s = (r, s') \<longrightarrow>
     advisory s' = advisory s \<and>
     (\<forall>a. r = Inr a \<longrightarrow> f d = Inr (a, committed s')) \<and>
     (\<forall>e. r = Inl e \<longrightarrow> (driver_error e \<or> f d = Inl e) \<and>
        (committed s' = committed s \<or> driver_error e \<and> (\<exists>a. f d = Inr (a, committed s')))) \<and>
     (faults s = [] \<longrightarrow> faults s' = [] \<and> (\<forall>e. r = Inl e \<longrightarrow> f d = Inl e)))"

definition atomic :: "'a prog \<Rightarrow> 'a txn \<Rightarrow> bool" where
  "atomic m f \<longleftrightarrow> (\<forall>s r s'. working s = None \<longrightarrow> run_state m s = (r, s') \<longrightarrow>
     working s' = None \<and> advisory s' = advisory s \<and>
     (\<forall>a. r = Inr a \<longrightarrow> f (committed s) = Inr (a, committed s')) \<and>
     (\<forall>e. r = Inl e \<longrightarrow> (driver_error e \<or> f (committed s) = Inl e) \<and>
        (committed s' = committed s \<or> driver_error e \<and> (\<exists>a. f (committed s) = Inr (a, committed s')))) \<and>
     (faults s = [] \<longrightarrow> faults s' = [] \<and> (\<forall>e. r = Inl e \<longrightarrow> f (committed s) = Inl e)))"

lemma view_simps [simp]:
  "working s = None \<Longrightarrow> view s = committed s"
  "working s = Some d \<Longrightarrow> view s = d"
  "view (s\<lparr>faults := x\<rparr>) = view s"
  by (simp_all add: view_def split: option.split)

lemma put_view_simps [simp]:
  "view (put_view d s) = d"
  "working (put_view d s) = None \<longleftrightarrow> working s = None"
  "working s \<noteq> None \<Longrightarrow> committed (put_view d s) = committed s"
  "working s = None \<Longrightarrow> committed (put_view d s) = d"
  "advisory (put_view d s) = advisory s"
  "faults (put_view d s) = faults s"
  by (auto simp: view_def put_view_def split: option.splits)

lemma run_round_trip [run_simps]:
  "run_state (round_trip act) s =
     (case faults s of
        [] \<Rightarrow> act s
      | NoFault # fs \<Rightarrow> act (s\<lparr>faults := fs\<rparr>)
      | Refused m # fs \<Rightarrow> (Inl (ErrDriver m), s\<lparr>faults := fs\<rparr>)
      | ReplyLost m # fs \<Rightarrow> (Inl (ErrDriver m), snd (act (s\<lparr>faults := fs\<rparr>))))"
  by (simp add: round_trip_def split: list.splits fault.splits)

lemma run_begin_tx [run_simps]:
  "run_state begin_tx s =
     (case faults s of
        [] \<Rightarrow> (Inr (), s\<lparr>working := Some (committed s)\<rparr>)
      | NoFault # fs \<Rightarrow> (Inr (), s\<lparr>faults := fs, working := Some (committed s)\<rparr>)
      | Refused m # fs \<Rightarrow> (Inl (ErrDriver m), s\<lparr>faults := fs\<rparr>)
      | ReplyLost m # fs \<Rightarrow> (Inl (ErrDriver m), s\<lparr>faults := fs\<rparr>))"
  by (simp add: begin_tx_def split: list.splits fault.splits)

lemma run_ok [run_simps, simp]: "run_state (ok a) s = (Inr a, s)"
  by (simp add: ok_def)

lemma run_fail [run_simps, simp]: "run_state (fail e) s = (Inl e, s)"
  by (simp add: fail_def)

lemma run_rollback [run_simps, simp]: "run_state rollback s = ((), s\<lparr>working := None\<rparr>)"
  by (simp add: rollback_def)

lemma run_tryM [run_simps]:
  "run_state (tryM m k) s =
     (case run_state m s of (Inl e, s') \<Rightarrow> (Inl e, s') | (Inr a, s') \<Rightarrow> run_state (k a) s')"
  by (simp add: tryM_def split: prod.splits sum.splits)

lemma run_norows [run_simps]:
  "run_state (norows e m) s =
     (case run_state m s of (r, s') \<Rightarrow> (case r of Inl ErrNoRows \<Rightarrow> Inl e | _ \<Rightarrow> r, s'))"
  by (simp add: norows_def split: prod.splits)

lemma run_tryM_cases:
  assumes "run_state (tryM m k) s = (r, s')"
  obtains (err) e where "run_state m s = (Inl e, s')" "r = Inl e"
    | (val) a s1 where "run_state m s = (Inr a, s1)" "run_state (k a) s1 = (r, s')"
  using assms by (auto simp: run_tryM split: prod.splits sum.splits)

subsection \<open>Composition\<close>

lemma sim_stmt [sim_intros]: "sim (stmt f) f"
  unfolding sim_def stmt_def run_round_trip
  by (auto simp: apply_txn_def split: list.splits fault.splits sum.splits prod.splits)

lemma sim_ok [sim_intros]: "sim (ok a) (okE a)"
  by (simp add: sim_def okE_def)

lemma sim_fail [sim_intros]: "sim (fail e) (failE e)"
  by (simp add: sim_def failE_def)

lemma simD:
  assumes "sim m f" "run_state m s = (r, s')"
  shows "working s' = None \<longleftrightarrow> working s = None"
    and "working s \<noteq> None \<Longrightarrow> committed s' = committed s"
    and "advisory s' = advisory s"
    and "r = Inr a \<Longrightarrow> f (view s) = Inr (a, view s')"
    and "r = Inl e \<Longrightarrow> driver_error e \<or> f (view s) = Inl e"
    and "faults s = [] \<Longrightarrow> faults s' = []"
    and "faults s = [] \<Longrightarrow> r = Inl e \<Longrightarrow> f (view s) = Inl e"
  using assms unfolding sim_def by blast+

lemma csimD:
  assumes "csim m f" "working s = Some d" "run_state m s = (r, s')"
  shows "advisory s' = advisory s"
    and "r = Inr a \<Longrightarrow> f d = Inr (a, committed s')"
    and "r = Inl e \<Longrightarrow> driver_error e \<or> f d = Inl e"
    and "r = Inl e \<Longrightarrow> committed s' = committed s \<or>
           driver_error e \<and> (\<exists>a. f d = Inr (a, committed s'))"
    and "faults s = [] \<Longrightarrow> faults s' = []"
    and "faults s = [] \<Longrightarrow> r = Inl e \<Longrightarrow> f d = Inl e"
  using assms unfolding csim_def by blast+

lemma sim_tryM [sim_intros]:
  assumes m: "sim m f" and k: "\<And>a. sim (k a) (g a)"
  shows "sim (tryM m k) (thenE f g)"
  unfolding sim_def
proof (intro allI impI)
  fix s r s'
  assume "run_state (tryM m k) s = (r, s')"
  then show "(working s' = None \<longleftrightarrow> working s = None) \<and>
     (working s \<noteq> None \<longrightarrow> committed s' = committed s) \<and>
     advisory s' = advisory s \<and>
     (\<forall>a. r = Inr a \<longrightarrow> thenE f g (view s) = Inr (a, view s')) \<and>
     (\<forall>e. r = Inl e \<longrightarrow> driver_error e \<or> thenE f g (view s) = Inl e) \<and>
     (faults s = [] \<longrightarrow> faults s' = [] \<and> (\<forall>e. r = Inl e \<longrightarrow> thenE f g (view s) = Inl e))"
  proof (cases rule: run_tryM_cases)
    case (err e)
    then show ?thesis using simD [OF m err(1)] by (auto simp: thenE_Inl)
  next
    case (val a s1)
    then show ?thesis
      using simD [OF m val(1)] simD [OF k val(2)] by (auto simp: txn_simps)
  qed
qed

lemma run_norows_cases:
  assumes "run_state (norows e m) s = (r, s')"
  obtains (none) "run_state m s = (Inl ErrNoRows, s')" "r = Inl e"
    | (err) e' where "run_state m s = (Inl e', s')" "e' \<noteq> ErrNoRows" "r = Inl e'"
    | (val) a where "run_state m s = (Inr a, s')" "r = Inr a"
  using assms by (auto simp: run_norows split: prod.splits sum.splits error.splits)

lemma sim_norows [sim_intros]:
  assumes m: "sim m f"
  shows "sim (norows e m) (norowsE e f)"
  unfolding sim_def
proof (intro allI impI)
  fix s r s'
  assume "run_state (norows e m) s = (r, s')"
  then show "(working s' = None \<longleftrightarrow> working s = None) \<and>
     (working s \<noteq> None \<longrightarrow> committed s' = committed s) \<and>
     advisory s' = advisory s \<and>
     (\<forall>a. r = Inr a \<longrightarrow> norowsE e f (view s) = Inr (a, view s')) \<and>
     (\<forall>e'. r = Inl e' \<longrightarrow> driver_error e' \<or> norowsE e f (view s) = Inl e') \<and>
     (faults s = [] \<longrightarrow> faults s' = [] \<and> (\<forall>e'. r = Inl e' \<longrightarrow> norowsE e f (view s) = Inl e'))"
  proof (cases rule: run_norows_cases)
    case none
    then show ?thesis using simD [OF m none(1)] by (simp add: norowsE_Inl)
  next
    case (err e')
    then show ?thesis using simD [OF m err(1)] by (auto simp: norowsE_Inl)
  next
    case (val a)
    then show ?thesis using simD [OF m val(1)] by simp
  qed
qed

lemma csim_commit [sim_intros]: "csim (tryM commit (\<lambda>_. ok a)) (okE a)"
  unfolding csim_def
  by (auto simp: commit_def commit_act_def run_round_trip run_tryM okE_def
      split: list.splits fault.splits)

lemma csim_fail [sim_intros]: "csim (fail e) (failE e)"
  by (simp add: csim_def failE_def)

lemma csim_tryM [sim_intros]:
  assumes m: "sim m f" and k: "\<And>a. csim (k a) (g a)"
  shows "csim (tryM m k) (thenE f g)"
  unfolding csim_def
proof (intro allI impI)
  fix s d r s'
  assume w: "working s = Some d" and "run_state (tryM m k) s = (r, s')"
  from this(2) show "advisory s' = advisory s \<and>
     (\<forall>a. r = Inr a \<longrightarrow> thenE f g d = Inr (a, committed s')) \<and>
     (\<forall>e. r = Inl e \<longrightarrow> (driver_error e \<or> thenE f g d = Inl e) \<and>
        (committed s' = committed s \<or>
         driver_error e \<and> (\<exists>a. thenE f g d = Inr (a, committed s')))) \<and>
     (faults s = [] \<longrightarrow> faults s' = [] \<and> (\<forall>e. r = Inl e \<longrightarrow> thenE f g d = Inl e))"
  proof (cases rule: run_tryM_cases)
    case (err e)
    then show ?thesis using simD [OF m err(1)] w by (auto simp: thenE_Inl)
  next
    case (val a s1)
    from simD(1) [OF m val(1)] w obtain d1 where d1: "working s1 = Some d1"
      by auto
    then have step: "f d = Inr (a, d1)"
      using simD(4) [OF m val(1)] w by auto
    show ?thesis
      using simD(2,3,6) [OF m val(1)] csimD [OF k d1 val(2)] w step
      by (auto simp: txn_simps)
  qed
qed

lemma csim_if [sim_intros]:
  "csim m f \<Longrightarrow> csim n g \<Longrightarrow> csim (if c then m else n) (if c then f else g)"
  by simp

lemma sim_if [sim_intros]:
  "sim m f \<Longrightarrow> sim n g \<Longrightarrow> sim (if c then m else n) (if c then f else g)"
  by simp

lemma atomic_with_tx [sim_intros]:
  assumes body: "csim m f"
  shows "atomic (with_tx m) f"
  unfolding atomic_def
proof (intro allI impI)
  fix s r s'
  assume w: "working s = None" and "run_state (with_tx m) s = (r, s')"
  from this(2) [unfolded with_tx_def]
  show "working s' = None \<and> advisory s' = advisory s \<and>
     (\<forall>a. r = Inr a \<longrightarrow> f (committed s) = Inr (a, committed s')) \<and>
     (\<forall>e. r = Inl e \<longrightarrow> (driver_error e \<or> f (committed s) = Inl e) \<and>
        (committed s' = committed s \<or>
         driver_error e \<and> (\<exists>a. f (committed s) = Inr (a, committed s')))) \<and>
     (faults s = [] \<longrightarrow> faults s' = [] \<and> (\<forall>e. r = Inl e \<longrightarrow> f (committed s) = Inl e))"
  proof (cases rule: run_tryM_cases)
    case (err e)
    with w show ?thesis
      by (auto simp: run_begin_tx split: list.splits fault.splits)
  next
    case (val u s1)
    obtain r2 s2 where body_run: "run_state m s1 = (r2, s2)"
      by (cases "run_state m s1")
    with val(2) have r: "r = r2" and s': "s' = s2\<lparr>working := None\<rparr>"
      by auto
    from val(1) have s1: "working s1 = Some (committed s)" "committed s1 = committed s"
        "advisory s1 = advisory s" "faults s = [] \<Longrightarrow> faults s1 = []"
      by (auto simp: run_begin_tx split: list.splits fault.splits)
    show ?thesis
      using csimD [OF body s1(1) body_run] s1(2-4) by (simp add: r s')
  qed
qed

lemma atomic_stmt [sim_intros]: "atomic (stmt f) f"
  unfolding atomic_def stmt_def
  by (auto simp: run_round_trip apply_txn_def split: list.splits fault.splits sum.splits prod.splits)

lemma atomicD:
  assumes "atomic m f" "working s = None" "run_state m s = (r, s')"
  shows "working s' = None"
    and "advisory s' = advisory s"
    and "r = Inr a \<Longrightarrow> f (committed s) = Inr (a, committed s')"
    and "r = Inl e \<Longrightarrow> driver_error e \<or> f (committed s) = Inl e"
    and "r = Inl e \<Longrightarrow> committed s' = committed s \<or>
           driver_error e \<and> (\<exists>a. f (committed s) = Inr (a, committed s'))"
    and "faults s = [] \<Longrightarrow> faults s' = []"
    and "faults s = [] \<Longrightarrow> r = Inl e \<Longrightarrow> f (committed s) = Inl e"
  using assms unfolding atomic_def by blast+

lemma atomic_norows [sim_intros]:
  assumes m: "atomic m f"
  shows "atomic (norows e m) (norowsE e f)"
  unfolding atomic_def
proof (intro allI impI)
  fix s r s'
  assume w: "working s = None" and "run_state (norows e m) s = (r, s')"
  from this(2) show "working s' = None \<and> advisory s' = advisory s \<and>
     (\<forall>a. r = Inr a \<longrightarrow> norowsE e f (committed s) = Inr (a, committed s')) \<and>
     (\<forall>e'. r = Inl e' \<longrightarrow> (driver_error e' \<or> norowsE e f (committed s) = Inl e') \<and>
        (committed s' = committed s \<or>
         driver_error e' \<and> (\<exists>a. norowsE e f (committed s) = Inr (a, committed s')))) \<and>
     (faults s = [] \<longrightarrow> faults s' = [] \<and> (\<forall>e'. r = Inl e' \<longrightarrow> norowsE e f (committed s) = Inl e'))"
  proof (cases rule: run_norows_cases)
    case none
    then show ?thesis using atomicD [OF m w none(1)] by (simp add: norowsE_Inl)
  next
    case (err e')
    then show ?thesis using atomicD [OF m w err(1)] by (auto simp: norowsE_Inl)
  next
    case (val a)
    then show ?thesis using atomicD [OF m w val(1)] by simp
  qed
qed

lemma atomic_tryM_ok [sim_intros]:
  assumes m: "atomic m f"
  shows "atomic (tryM m (\<lambda>a. ok (h a))) (thenE f (\<lambda>a. okE (h a)))"
  unfolding atomic_def
proof (intro allI impI)
  fix s r s'
  assume w: "working s = None" and "run_state (tryM m (\<lambda>a. ok (h a))) s = (r, s')"
  from this(2) show "working s' = None \<and> advisory s' = advisory s \<and>
     (\<forall>b. r = Inr b \<longrightarrow> thenE f (\<lambda>a. okE (h a)) (committed s) = Inr (b, committed s')) \<and>
     (\<forall>e. r = Inl e \<longrightarrow> (driver_error e \<or> thenE f (\<lambda>a. okE (h a)) (committed s) = Inl e) \<and>
        (committed s' = committed s \<or>
         driver_error e \<and> (\<exists>b. thenE f (\<lambda>a. okE (h a)) (committed s) = Inr (b, committed s')))) \<and>
     (faults s = [] \<longrightarrow> faults s' = [] \<and>
        (\<forall>e. r = Inl e \<longrightarrow> thenE f (\<lambda>a. okE (h a)) (committed s) = Inl e))"
  proof (cases rule: run_tryM_cases)
    case (err e)
    then show ?thesis using atomicD [OF m w err(1)] by (auto simp: txn_simps)
  next
    case (val a s1)
    then show ?thesis using atomicD [OF m w val(1)] by (auto simp: txn_simps)
  qed
qed

lemma atomic_if [sim_intros]:
  "atomic m f \<Longrightarrow> atomic n g \<Longrightarrow> atomic (if c then m else n) (if c then f else g)"
  by simp

text \<open>Two atomic operations in sequence: nothing, the first, or both took effect.\<close>

lemma atomic_seq:
  assumes m: "atomic m f" and k: "\<And>a. atomic (k a) (g a)"
    and w: "working s = None" and run: "run_state (tryM m k) s = (r, s')"
  shows "working s' = None \<and> advisory s' = advisory s \<and>
    (committed s' = committed s \<or>
     (\<exists>a d1. f (committed s) = Inr (a, d1) \<and>
       (committed s' = d1 \<or> (\<exists>b. g a d1 = Inr (b, committed s')))))"
  using run
proof (cases rule: run_tryM_cases)
  case (err e)
  then show ?thesis using atomicD [OF m w err(1)] by metis
next
  case (val a s1)
  note first = atomicD [OF m w val(1)]
  have step: "f (committed s) = Inr (a, committed s1)" using first(3) by simp
  note second = atomicD [OF k first(1) val(2)]
  have "committed s' = committed s1 \<or> (\<exists>b. g a (committed s1) = Inr (b, committed s'))"
    using second(3,5) by (cases r) auto
  with first(2) second(1,2) step show ?thesis by auto
qed

text \<open>When the sequence fails without a driver error, the second operation took no effect.\<close>

lemma atomic_seq_error:
  assumes m: "atomic m f" and k: "\<And>a. atomic (k a) (g a)"
    and w: "working s = None" and run: "run_state (tryM m k) s = (Inl e, s')" and e: "\<not> driver_error e"
  shows "committed s' = committed s \<or> (\<exists>a. f (committed s) = Inr (a, committed s'))"
  using run
proof (cases rule: run_tryM_cases)
  case (err e')
  then show ?thesis using atomicD(5) [OF m w err(1) refl] e by auto
next
  case (val a s1)
  note first = atomicD [OF m w val(1)]
  have "f (committed s) = Inr (a, committed s1)" using first(3) by simp
  moreover have "committed s' = committed s1" using atomicD(5) [OF k first(1) val(2) refl] e by auto
  ultimately show ?thesis by auto
qed

section \<open>The interface of an atomic operation\<close>

locale atomic_op =
  fixes prog :: "'a prog" and txn :: "'a txn"
  assumes atomic: "atomic prog txn"
begin

lemma success:
  "working s = None \<Longrightarrow> run_state prog s = (Inr a, s') \<Longrightarrow> txn (committed s) = Inr (a, committed s')"
  using atomic unfolding atomic_def by blast

lemma all_or_nothing:
  assumes "working s = None" "run_state prog s = (r, s')"
  shows "committed s' = committed s \<or> (\<exists>a. txn (committed s) = Inr (a, committed s'))"
  using assms atomic unfolding atomic_def by (metis sum.exhaust)

lemma closed: "working s = None \<Longrightarrow> run_state prog s = (r, s') \<Longrightarrow> working s' = None"
  using atomic unfolding atomic_def by blast

lemma rejected:
  assumes "working s = None" "run_state prog s = (Inl e, s')" "\<not> driver_error e"
  shows "txn (committed s) = Inl e \<and> committed s' = committed s"
  using assms atomic unfolding atomic_def by blast

lemma fault_free:
  assumes "working s = None" "faults s = []"
  shows "run_state prog s =
    (case txn (committed s) of
       Inl e \<Rightarrow> (Inl e, s)
     | Inr (a, d) \<Rightarrow> (Inr a, s\<lparr>committed := d\<rparr>))"
proof -
  obtain r s' where run: "run_state prog s = (r, s')"
    by (cases "run_state prog s")
  from atomic [unfolded atomic_def, rule_format, OF assms(1) run] assms
  have "working s' = working s" "advisory s' = advisory s" "faults s' = faults s"
    and "\<forall>a. r = Inr a \<longrightarrow> txn (committed s) = Inr (a, committed s')"
    and "\<forall>e. r = Inl e \<longrightarrow> txn (committed s) = Inl e \<and> committed s' = committed s"
    by auto
  then show ?thesis
    using run by (cases r) auto
qed

lemma preserves:
  assumes "\<And>d a d'. I d \<Longrightarrow> txn d = Inr (a, d') \<Longrightarrow> I d'"
    and "working s = None" "run_state prog s = (r, s')" "I (committed s)"
  shows "I (committed s')"
  using all_or_nothing [OF assms(2,3)] assms(1,4) by metis

end

end
