(* ===== verification/Go_Float.thy ===== *)
theory Go_Float
  imports Complex_Main Prelude
begin

text \<open>
  The part of Go's \<open>float64\<close> that the program computes with: IEEE 754 binary64 values as
  rationals, rounding to nearest with ties to even, overflow to infinity, and the conversion
  to \<open>int64\<close>. The Go specification leaves the result of converting a value that \<open>int64\<close>
  cannot hold to the implementation; that result is the parameter \<open>oob\<close>.
\<close>

fun nlog2 :: "nat \<Rightarrow> nat" where
  "nlog2 n = (if n < 2 then 0 else Suc (nlog2 (n div 2)))"

declare nlog2.simps [simp del]

text \<open>The exponent of the binade that holds a positive rational.\<close>

definition ilog2 :: "rat \<Rightarrow> int" where
  "ilog2 r = (case quotient_of r of (p, q) \<Rightarrow>
     (let k = int (nlog2 (nat p)) - int (nlog2 (nat q))
      in if 2 powi k \<le> r then k else k - 1))"

text \<open>Round to the nearest integer, ties to even.\<close>

definition rne :: "rat \<Rightarrow> int" where
  "rne r = (let n = \<lfloor>r\<rfloor>; frac = r - of_int n in
     if frac < 1 / 2 then n else if frac > 1 / 2 then n + 1 else if even n then n else n + 1)"

definition f64_exp :: "rat \<Rightarrow> int" where
  "f64_exp r = max (ilog2 r - 52) (- 1074)"

definition f64_round :: "rat \<Rightarrow> rat" where
  "f64_round r = (if r = 0 then 0 else
     (let e = f64_exp \<bar>r\<bar> in sgn r * of_int (rne (\<bar>r\<bar> / 2 powi e)) * 2 powi e))"

datatype float64 = Fin rat | PInf | NInf | NaN

definition f64 :: "rat \<Rightarrow> float64" where
  "f64 r = (let v = f64_round r in
     if 2 ^ 1024 \<le> v then PInf else if v \<le> - (2 ^ 1024) then NInf else Fin v)"

definition float64_of_int :: "int \<Rightarrow> float64" where
  "float64_of_int n = f64 (of_int n)"

fun f64_mul :: "float64 \<Rightarrow> float64 \<Rightarrow> float64" where
  "f64_mul (Fin a) (Fin b) = f64 (a * b)"
| "f64_mul (Fin a) PInf = (if 0 < a then PInf else if a < 0 then NInf else NaN)"
| "f64_mul (Fin a) NInf = (if 0 < a then NInf else if a < 0 then PInf else NaN)"
| "f64_mul PInf (Fin b) = (if 0 < b then PInf else if b < 0 then NInf else NaN)"
| "f64_mul NInf (Fin b) = (if 0 < b then NInf else if b < 0 then PInf else NaN)"
| "f64_mul PInf PInf = PInf"
| "f64_mul NInf NInf = PInf"
| "f64_mul PInf NInf = NInf"
| "f64_mul NInf PInf = NInf"
| "f64_mul NaN _ = NaN"
| "f64_mul _ NaN = NaN"

text \<open>\<open>math.Pow(2, float64(n))\<close> for an integer \<open>n \<ge> 0\<close>: exact up to the largest exponent.\<close>

definition math_Pow2 :: "int \<Rightarrow> float64" where
  "math_Pow2 n = (if n < 1024 then Fin (2 ^ nat n) else PInf)"

definition trunc :: "rat \<Rightarrow> int" where
  "trunc r = (if r < 0 then - \<lfloor>- r\<rfloor> else \<lfloor>r\<rfloor>)"

definition int64_of_float :: "(float64 \<Rightarrow> int) \<Rightarrow> float64 \<Rightarrow> int" where
  "int64_of_float oob x = (case x of
       Fin r \<Rightarrow> (if - (2 ^ 63) \<le> trunc r \<and> trunc r < 2 ^ 63 then trunc r else oob x)
     | _ \<Rightarrow> oob x)"

section \<open>The binade of a rational\<close>

lemma nlog2_bounds: "0 < n \<Longrightarrow> 2 ^ nlog2 n \<le> n \<and> n < 2 ^ Suc (nlog2 n)"
proof (induction n rule: nlog2.induct)
  case (1 n)
  show ?case
  proof (cases "n < 2")
    case True
    with "1.prems" show ?thesis by (simp add: nlog2.simps [of n])
  next
    case False
    then have "2 ^ nlog2 (n div 2) \<le> n div 2 \<and> n div 2 < 2 ^ Suc (nlog2 (n div 2))"
      by (intro "1.IH") auto
    with False show ?thesis by (simp add: nlog2.simps [of n]) linarith
  qed
qed

lemma nlog2_bounds_int:
  assumes "0 < p"
  shows "2 ^ nlog2 (nat p) \<le> p \<and> p < 2 ^ Suc (nlog2 (nat p))"
proof -
  have "int (2 ^ nlog2 (nat p)) \<le> int (nat p) \<and> int (nat p) < int (2 ^ Suc (nlog2 (nat p)))"
    using nlog2_bounds [of "nat p"] assms by (simp only: of_nat_le_iff of_nat_less_iff zero_less_nat_eq)
  with assms show ?thesis by simp
qed

lemma ilog2_bounds:
  assumes "0 < r"
  shows "2 powi ilog2 r \<le> r \<and> r < 2 powi (ilog2 r + 1)"
proof -
  obtain p q where pq: "quotient_of r = (p, q)"
    by (cases "quotient_of r")
  then have q: "0 < q" and r: "r = of_int p / of_int q"
    by (auto dest: quotient_of_denom_pos quotient_of_div)
  with assms have p: "0 < p"
    by (simp add: zero_less_divide_iff)
  define a b where "a = nlog2 (nat p)" and "b = nlog2 (nat q)"
  have ab: "2 ^ a \<le> p" "p < 2 ^ Suc a" "2 ^ b \<le> q" "q < 2 ^ Suc b"
    unfolding a_def b_def using nlog2_bounds_int [OF p] nlog2_bounds_int [OF q] by simp_all
  then have ab': "(2::rat) ^ a \<le> of_int p" "(of_int p :: rat) < 2 ^ Suc a"
      "(2::rat) ^ b \<le> of_int q" "(of_int q :: rat) < 2 ^ Suc b"
    by (metis of_int_le_iff of_int_less_iff of_int_numeral of_int_power)+
  have pow: "(2::rat) powi (int m - int n) = 2 ^ m / 2 ^ n" for m n
    by (simp add: power_int_diff)
  have lower: "2 powi (int a - int b - 1) \<le> r"
  proof -
    have "(2::rat) ^ a / 2 ^ Suc b \<le> of_int p / of_int q"
      using ab' q p by (intro frac_le) auto
    moreover have "int a - int b - 1 = int a - int (Suc b)" by simp
    ultimately show ?thesis unfolding r by (metis pow)
  qed
  have upper: "r < 2 powi (int a - int b + 1)"
  proof -
    have "(of_int p :: rat) / of_int q < 2 ^ Suc a / 2 ^ b"
      using ab' q p by (intro frac_less) auto
    moreover have "int a - int b + 1 = int (Suc a) - int b" by simp
    ultimately show ?thesis unfolding r by (metis pow)
  qed
  from lower upper show ?thesis
    by (auto simp: ilog2_def pq Let_def simp flip: a_def b_def)
qed

lemma powi_mono_iff: "(2::rat) powi a \<le> 2 powi b \<longleftrightarrow> a \<le> b"
proof
  show "a \<le> b \<Longrightarrow> (2::rat) powi a \<le> 2 powi b"
    by (rule power_int_increasing) auto
  show "a \<le> b" if "(2::rat) powi a \<le> 2 powi b"
  proof (rule ccontr)
    assume "\<not> a \<le> b"
    then have "(2::rat) powi b < 2 powi a"
      by (intro power_int_strict_increasing) auto
    with that show False by simp
  qed
qed

lemma ilog2_unique:
  assumes "2 powi k \<le> r" "r < 2 powi (k + 1)"
  shows "ilog2 r = k"
proof -
  have "0 < r"
    using assms(1) by (rule less_le_trans [rotated]) simp
  with ilog2_bounds have b: "2 powi ilog2 r \<le> r" "r < 2 powi (ilog2 r + 1)"
    by auto
  have "(2::rat) powi k < 2 powi (ilog2 r + 1)" "(2::rat) powi ilog2 r < 2 powi (k + 1)"
    using assms b by auto
  then have "k < ilog2 r + 1" "ilog2 r < k + 1"
    by (auto simp: not_le [symmetric] powi_mono_iff)
  then show ?thesis by simp
qed

lemma ilog2_mono:
  assumes "0 < x" "x \<le> y"
  shows "ilog2 x \<le> ilog2 y"
proof -
  have "(2::rat) powi ilog2 x < 2 powi (ilog2 y + 1)"
    using ilog2_bounds [OF assms(1)] ilog2_bounds [of y] assms by auto
  then have "ilog2 x < ilog2 y + 1"
    by (simp add: not_le [symmetric] powi_mono_iff)
  then show ?thesis by simp
qed

section \<open>Rounding to an integer\<close>

lemma rne_of_int [simp]: "rne (of_int n) = n"
  by (simp add: rne_def)

lemma rne_error: "\<bar>of_int (rne x) - x\<bar> \<le> 1 / 2"
  unfolding rne_def Let_def by (auto simp: abs_if) linarith+

lemma rne_mono:
  assumes "x \<le> y"
  shows "rne x \<le> rne y"
proof (cases "\<lfloor>x\<rfloor> = \<lfloor>y\<rfloor>")
  case True
  with assms show ?thesis by (auto simp: rne_def Let_def)
next
  case False
  with assms have "\<lfloor>x\<rfloor> + 1 \<le> \<lfloor>y\<rfloor>"
    using floor_mono [OF assms] by linarith
  moreover have "rne x \<le> \<lfloor>x\<rfloor> + 1" "\<lfloor>y\<rfloor> \<le> rne y"
    by (auto simp: rne_def Let_def)
  ultimately show ?thesis by simp
qed

lemma rne_le_int: "x \<le> of_int n \<Longrightarrow> rne x \<le> n"
  using rne_mono [of x "of_int n"] by simp

lemma rne_ge_int: "of_int n \<le> x \<Longrightarrow> n \<le> rne x"
  using rne_mono [of "of_int n" x] by simp

section \<open>Rounding to a float\<close>

lemma f64_round_pos: "0 < r \<Longrightarrow> f64_round r = of_int (rne (r / 2 powi f64_exp r)) * 2 powi f64_exp r"
  by (simp add: f64_round_def Let_def)

lemma f64_round_zero [simp]: "f64_round 0 = 0"
  by (simp add: f64_round_def)

lemma f64_round_nonneg: "0 \<le> r \<Longrightarrow> 0 \<le> f64_round r"
proof (cases "r = 0")
  case False
  assume "0 \<le> r"
  with False have "0 < r" by simp
  then have "0 \<le> rne (r / 2 powi f64_exp r)"
    by (intro rne_ge_int) simp
  with \<open>0 < r\<close> show ?thesis by (simp add: f64_round_pos)
qed simp

text \<open>A value with at most 53 significant bits above the least exponent is a float.\<close>

lemma f64_round_exact:
  assumes "0 \<le> m" "m < 2 ^ 53" "- 1074 \<le> k"
  shows "f64_round (of_int m * 2 powi k) = of_int m * 2 powi k"
proof (cases "m = 0")
  case False
  with assms have m: "0 < m" by simp
  define r :: rat where "r = of_int m * 2 powi k"
  have r: "0 < r" using m by (simp add: r_def)
  have "(of_int m :: rat) < 2 powi 53"
    using assms(2) by (metis of_int_less_iff of_int_numeral of_int_power power_int_numeral)
  then have "r < 2 powi 53 * 2 powi k"
    by (simp add: r_def)
  then have "2 powi ilog2 r < (2::rat) powi (53 + k)"
    using ilog2_bounds [OF r] by (simp add: power_int_add)
  then have "ilog2 r < 53 + k"
    by (simp add: not_le [symmetric] powi_mono_iff)
  with assms(3) have e: "f64_exp r \<le> k"
    by (simp add: f64_exp_def)
  have "r / 2 powi f64_exp r = of_int m * 2 powi (k - f64_exp r)"
    by (simp add: r_def power_int_diff)
  also have "\<dots> = of_int (m * 2 ^ nat (k - f64_exp r))"
    using e by (simp add: power_int_def)
  finally have q: "r / 2 powi f64_exp r = of_int (m * 2 ^ nat (k - f64_exp r))" .
  have "f64_round r = r / 2 powi f64_exp r * 2 powi f64_exp r"
    unfolding f64_round_pos [OF r] by (simp only: q rne_of_int)
  then show ?thesis by (simp add: r_def)
qed simp

lemma f64_round_of_int: "0 \<le> m \<Longrightarrow> m < 2 ^ 53 \<Longrightarrow> f64_round (of_int m) = of_int m"
  using f64_round_exact [of m 0] by simp

text \<open>A rounded value is at most the next power of two and, without underflow, at least its own.\<close>

lemma f64_round_le_power:
  assumes x: "0 < x"
  shows "f64_round x \<le> 2 powi (f64_exp x + 53)"
proof -
  have "x < 2 powi (ilog2 x + 1)" using ilog2_bounds [OF x] by simp
  also have "\<dots> \<le> 2 powi (f64_exp x + 53)" by (simp add: powi_mono_iff f64_exp_def)
  finally have "x / 2 powi f64_exp x \<le> of_int (2 ^ 53)"
    by (simp add: field_simps power_int_add)
  then have "rne (x / 2 powi f64_exp x) \<le> 2 ^ 53"
    by (rule rne_le_int)
  then have "of_int (rne (x / 2 powi f64_exp x)) \<le> (2 ^ 53 :: rat)"
    by (metis of_int_le_iff of_int_numeral of_int_power)
  then have "f64_round x \<le> 2 ^ 53 * 2 powi f64_exp x"
    unfolding f64_round_pos [OF x] by (intro mult_right_mono) auto
  then show ?thesis by (simp add: power_int_add)
qed

lemma f64_round_ge_power:
  assumes y: "0 < y" and ey: "f64_exp y = ilog2 y - 52"
  shows "2 powi (f64_exp y + 52) \<le> f64_round y"
proof -
  have "2 powi ilog2 y \<le> y" using ilog2_bounds [OF y] by simp
  then have "of_int (2 ^ 52) \<le> y / 2 powi f64_exp y"
    by (simp add: field_simps ey power_int_diff)
  then have "2 ^ 52 \<le> rne (y / 2 powi f64_exp y)"
    by (rule rne_ge_int)
  then have "(2 ^ 52 :: rat) \<le> of_int (rne (y / 2 powi f64_exp y))"
    by (metis of_int_le_iff of_int_numeral of_int_power)
  then have "2 ^ 52 * 2 powi f64_exp y \<le> f64_round y"
    unfolding f64_round_pos [OF y] by (intro mult_right_mono) auto
  then show ?thesis by (simp add: power_int_add)
qed

text \<open>Rounding is monotone on the non-negative values.\<close>

lemma f64_round_mono:
  assumes "0 \<le> x" "x \<le> y"
  shows "f64_round x \<le> f64_round y"
proof (cases "x = 0")
  case True
  with assms show ?thesis by (simp add: f64_round_nonneg)
next
  case False
  with assms have x: "0 < x" and y: "0 < y" by auto
  have le: "f64_exp x \<le> f64_exp y"
    using ilog2_mono [OF x assms(2)] by (simp add: f64_exp_def)
  show ?thesis
  proof (cases "f64_exp x = f64_exp y")
    case True
    then show ?thesis
      using assms(2) by (simp add: f64_round_pos x y rne_mono divide_right_mono)
  next
    case False
    with le have lt: "f64_exp x + 1 \<le> f64_exp y" by simp
    then have ey: "f64_exp y = ilog2 y - 52"
      by (auto simp: f64_exp_def max_def split: if_splits)
    have "f64_round x \<le> 2 powi (f64_exp x + 53)" by (rule f64_round_le_power [OF x])
    also have "\<dots> \<le> 2 powi (f64_exp y + 52)"
      using lt by (simp add: powi_mono_iff)
    also have "\<dots> \<le> f64_round y" by (rule f64_round_ge_power [OF y ey])
    finally show ?thesis .
  qed
qed

text \<open>The rounding error is at most half a unit in the last place.\<close>

lemma f64_round_half_ulp:
  assumes "0 < r"
  shows "\<bar>f64_round r - r\<bar> \<le> 1 / 2 * 2 powi f64_exp r"
proof -
  let ?e = "f64_exp r"
  have "f64_round r - r = (of_int (rne (r / 2 powi ?e)) - r / 2 powi ?e) * 2 powi ?e"
    by (simp add: f64_round_pos assms field_simps)
  then show ?thesis
    using rne_error [of "r / 2 powi ?e"] by (simp add: abs_mult)
qed

lemma f64_round_error:
  assumes "0 < r" "- 1022 \<le> ilog2 r"
  shows "\<bar>f64_round r - r\<bar> \<le> r / 2 ^ 53"
proof -
  let ?e = "f64_exp r"
  have e: "?e = ilog2 r - 52" using assms(2) by (simp add: f64_exp_def)
  have "\<bar>f64_round r - r\<bar> \<le> 1 / 2 * 2 powi ?e"
    by (rule f64_round_half_ulp [OF assms(1)])
  also have "\<dots> = 2 powi ilog2 r / 2 ^ 53"
    by (simp add: e power_int_diff)
  also have "\<dots> \<le> r / 2 ^ 53"
    using ilog2_bounds [OF assms(1)] by (simp add: divide_right_mono)
  finally show ?thesis .
qed

lemma f64_round_rel:
  assumes "0 \<le> x" "x = 0 \<or> 2 powi (- 1022) \<le> x"
  shows "f64_round x \<le> x + x / 2 ^ 53"
proof (cases "x = 0")
  case False
  with assms have x: "0 < x" "2 powi (- 1022) \<le> x" by auto
  have "(2::rat) powi (- 1022) < 2 powi (ilog2 x + 1)"
    using ilog2_bounds [OF x(1)] x(2) by simp
  then have "- 1022 \<le> ilog2 x"
    using powi_mono_iff [of "ilog2 x + 1" "- 1022"] by linarith
  then show ?thesis using f64_round_error [OF x(1)] by linarith
qed simp

text \<open>Without a lower bound on the value, the error has an absolute part too.\<close>

lemma f64_round_upper:
  assumes "0 \<le> x"
  shows "f64_round x \<le> x + (x + 1) / 2 ^ 53"
proof (cases "x = 0 \<or> 2 powi (- 1022) \<le> x")
  case True
  have "x / 2 ^ 53 \<le> (x + 1) / 2 ^ 53" by (simp add: divide_right_mono)
  then show ?thesis using f64_round_rel [OF assms True] by linarith
next
  case False
  then have x: "0 < x" "x < 2 powi (- 1022)" using assms by auto
  have "(2::rat) powi ilog2 x < 2 powi (- 1022)"
    using ilog2_bounds [OF x(1)] x(2) by linarith
  then have "ilog2 x < - 1022"
    using powi_mono_iff [of "- 1022" "ilog2 x"] by linarith
  then have e: "f64_exp x = - 1074" by (simp add: f64_exp_def)
  have "f64_round x - x \<le> 1 / 2 * 2 powi (- 1074)"
    using abs_le_D1 [OF f64_round_half_ulp [OF x(1)]] unfolding e .
  also have "\<dots> \<le> 1 / 2 * 2 powi (- 53)"
    by (rule mult_left_mono [OF iffD2 [OF powi_mono_iff]]) simp_all
  also have "\<dots> = 1 / 2 * (1 / 2 ^ 53)"
    by (simp add: power_int_def power_one_over)
  also have "\<dots> \<le> (x + 1) / 2 ^ 53"
    using x(1) by simp
  finally show ?thesis by (simp only: diff_le_eq add.commute)
qed

end
