(* ===== verification/Backoff.thy ===== *)
theory Backoff
  imports Go_Float
begin

text \<open>
  The retry delay and the interval literals of \<open>src/internal/queue/postgres.go\<close>:
  \<open>BackoffDelay\<close> with its floating-point power and its wrapping addition of the jitter,
  and \<open>intervalLiteral\<close>, whose text is a number of seconds with six decimals. The model of
  \<open>intervalLiteral\<close> is the number of microseconds which that text denotes, that is, what
  the cast \<open>::interval\<close> of the statements receives.

  \<open>oob\<close> is the platform's conversion of a float that \<open>int64\<close> cannot hold; the random
  number generator is its method \<open>Int63n\<close>, \<open>None\<close> for a nil generator.
\<close>

section \<open>Definitions\<close>

definition go_quot :: "int \<Rightarrow> int \<Rightarrow> int" where
  "go_quot a b = sgn a * sgn b * (\<bar>a\<bar> div \<bar>b\<bar>)"

definition go_rem :: "int \<Rightarrow> int \<Rightarrow> int" where
  "go_rem a b = a - b * go_quot a b"

text \<open>\<open>Duration.Seconds\<close> of the standard library.\<close>

definition Seconds :: "duration \<Rightarrow> rat" where
  "Seconds d = f64_round (f64_round (of_int (go_quot d Second)) +
                          f64_round (f64_round (of_int (go_rem d Second)) / 1000000000))"

definition intervalLiteral :: "duration \<Rightarrow> int" where
  "intervalLiteral duration =
     (let duration = (if duration \<le> 0 then Second else duration)
      in rne (Seconds duration * 1000000))"

definition capDelay :: duration where
  "capDelay = 10 * Minute"

definition BackoffDelay ::
  "(float64 \<Rightarrow> int) \<Rightarrow> duration \<Rightarrow> int \<Rightarrow> (int \<Rightarrow> int) option \<Rightarrow> duration" where
  "BackoffDelay oob base attempts rng =
     (let base = (if base \<le> 0 then Second else base);
          attempts = (if attempts < 0 then 0 else attempts);
          pow = math_Pow2 attempts;
          delay = int64_of_float oob (f64_mul (float64_of_int base) pow);
          delay = (case rng of None \<Rightarrow> delay | Some Int63n \<Rightarrow> int64 (delay + Int63n base))
      in if delay > capDelay then capDelay else delay)"

record queue_state =
  baseBackoff :: duration
  rng :: "(int \<Rightarrow> int) option"

definition New :: "(int \<Rightarrow> int) \<Rightarrow> queue_state" where
  "New r = \<lparr>baseBackoff = Second, rng = Some r\<rparr>"

definition SetBaseBackoff :: "duration \<Rightarrow> queue_state \<Rightarrow> queue_state" where
  "SetBaseBackoff base q = q\<lparr>baseBackoff := base\<rparr>"

definition backoff :: "(float64 \<Rightarrow> int) \<Rightarrow> queue_state \<Rightarrow> int \<Rightarrow> duration" where
  "backoff oob q attempts = BackoffDelay oob (baseBackoff q) attempts (rng q)"

text \<open>What \<open>math/rand\<close> documents of \<open>Int63n\<close>.\<close>

definition rng_ok :: "(int \<Rightarrow> int) \<Rightarrow> bool" where
  "rng_ok r \<longleftrightarrow> (\<forall>n > 0. 0 \<le> r n \<and> r n < n)"

section \<open>The retry delay\<close>

lemma trunc_of_int [simp]: "trunc (of_int n) = n"
  by (simp add: trunc_def)

lemma f64_round_pow2:
  assumes "0 \<le> m" "m < 2 ^ 53"
  shows "f64_round (of_int (m * 2 ^ k)) = of_int (m * 2 ^ k)"
proof -
  have "f64_round (of_int m * 2 powi int k) = of_int m * 2 powi int k"
    using assms by (intro f64_round_exact) auto
  then show ?thesis by simp
qed

lemma f64_exact:
  assumes "0 \<le> m" "m < 2 ^ 53" "m * 2 ^ k < 2 ^ 1024"
  shows "f64 (of_int (m * 2 ^ k)) = Fin (of_int (m * 2 ^ k))"
proof -
  have v: "f64_round (of_int (m * 2 ^ k)) = of_int (m * 2 ^ k)"
    using assms by (intro f64_round_pow2)
  have "(of_int (m * 2 ^ k) :: rat) < of_int (2 ^ 1024)"
    using assms(3) by (simp only: of_int_less_iff)
  moreover have "(0::rat) \<le> of_int (m * 2 ^ k)"
    using assms(1) by simp
  moreover have "- (2 ^ 1024) < (0::rat)"
    by simp
  ultimately have "\<not> (2 ^ 1024 \<le> (of_int (m * 2 ^ k) :: rat))"
    and "\<not> ((of_int (m * 2 ^ k) :: rat) \<le> - (2 ^ 1024))"
    by (simp_all only: not_le of_int_power of_int_numeral)
  with v show ?thesis
    unfolding f64_def by (simp only: v Let_def if_False)
qed

lemma float64_of_int_exact: "0 \<le> m \<Longrightarrow> m < 2 ^ 53 \<Longrightarrow> float64_of_int m = Fin (of_int m)"
  using f64_exact [of m 0] by (simp add: float64_of_int_def)

text \<open>The product with a power of two is exact, or beyond the range of \<open>float64\<close>.\<close>

lemma f64_mul_pow2:
  assumes "0 \<le> m" "m < 2 ^ 53" "0 \<le> n" "n < 1024" "m * 2 ^ nat n < 2 ^ 1024"
  shows "f64_mul (float64_of_int m) (math_Pow2 n) = Fin (of_int (m * 2 ^ nat n))"
  using assms f64_exact [of m "nat n"] by (simp add: float64_of_int_exact math_Pow2_def)

lemma int64_of_float_large:
  assumes "0 < m" "m < 2 ^ 53" "0 \<le> n" "2 ^ 63 \<le> m * 2 ^ nat n"
  shows "\<exists>x. int64_of_float oob (f64_mul (float64_of_int m) (math_Pow2 n)) = oob x"
proof (cases "n < 1024")
  case True
  let ?v = "of_int (m * 2 ^ nat n) :: rat"
  have v: "f64_round ?v = ?v"
    using assms by (intro f64_round_pow2) auto
  have "f64_mul (float64_of_int m) (math_Pow2 n) = f64 ?v"
    using assms True by (simp add: float64_of_int_exact math_Pow2_def)
  moreover have "f64 ?v \<in> {PInf, NInf, Fin ?v}"
    unfolding f64_def v Let_def by (simp only: insert_iff) presburger
  moreover have "\<not> trunc ?v < 2 ^ 63"
    unfolding trunc_of_int using assms(4) by simp
  ultimately show ?thesis
    by (auto simp: int64_of_float_def simp del: of_int_mult of_int_power)
next
  case False
  with assms show ?thesis
    by (auto simp: float64_of_int_exact math_Pow2_def int64_of_float_def)
qed

text \<open>
  C26: as long as \<open>base * 2^attempts\<close> plus one more \<open>base\<close> of jitter stays within \<open>int64\<close>
  (and \<open>base\<close> is below \<open>2^53\<close> nanoseconds, about 104 days), \<open>BackoffDelay\<close> is the capped
  exponential backoff that its comment describes: ten minutes at most, otherwise exactly
  \<open>base * 2^attempts\<close> plus the jitter drawn below \<open>base\<close>, whatever the platform does
  with unrepresentable floats.
\<close>

theorem BackoffDelay_capped_exponential:
  assumes "0 < base" "base < 2 ^ 53" "0 \<le> attempts"
    and "base * 2 ^ nat attempts + base \<le> 2 ^ 63" and "rng_ok r"
  shows "BackoffDelay oob base attempts (Some r) = min (10 * Minute) (base * 2 ^ nat attempts + r base) \<and>
    0 < BackoffDelay oob base attempts (Some r)"
proof -
  let ?p = "base * 2 ^ nat attempts"
  have r: "0 \<le> r base" "r base < base"
    using assms(1,5) by (auto simp: rng_ok_def)
  have p: "0 < ?p" "?p < 2 ^ 63"
    using assms(1,4) by auto
  have "(2::int) ^ nat attempts \<le> ?p"
    using assms(1) by simp
  with p have "(2::int) ^ nat attempts < 2 ^ 63" by linarith
  then have "nat attempts < 63"
    by (rule power_less_imp_less_exp [rotated]) simp
  then have "attempts < 1024" by simp
  moreover have "?p < 2 ^ 1024"
    using p(2) by (rule less_trans) simp
  ultimately have prod: "f64_mul (float64_of_int base) (math_Pow2 attempts) = Fin (of_int ?p)"
    using assms by (intro f64_mul_pow2) auto
  have conv: "int64_of_float oob (f64_mul (float64_of_int base) (math_Pow2 attempts)) = ?p"
    using p unfolding prod int64_of_float_def float64.case trunc_of_int by simp
  have "0 \<le> ?p + r base" "?p + r base < 2 ^ 63"
    using p r assms(4) by linarith+
  then have "int64 (?p + r base) = ?p + r base"
    by (intro int64_id) auto
  then have eq: "BackoffDelay oob base attempts (Some r) = min (10 * Minute) (?p + r base)"
    using assms(1,3) unfolding BackoffDelay_def Let_def by (simp add: conv capDelay_def min_def)
  moreover have "0 < min (10 * Minute) (?p + r base)"
    using add_pos_nonneg [OF p(1) r(1)] by (simp only: min_less_iff_conj) (simp add: Minute_def)
  ultimately show ?thesis by simp
qed

lemma BackoffDelay_capped_exponential_witness:
  "BackoffDelay (\<lambda>_. 0) Second 3 (Some (\<lambda>n. n div 2)) = 8500000000"
proof -
  have "rng_ok (\<lambda>n. n div 2)" by (auto simp: rng_ok_def)
  from BackoffDelay_capped_exponential [of Second 3, OF _ _ _ _ this] show ?thesis
    by (simp add: Second_def Minute_def)
qed

text \<open>
  C27: the cap is lost when the product leaves \<open>int64\<close>. With the default base of one second,
  from attempt 34 on, and with the conversion of the amd64 compiler (the least \<open>int64\<close>),
  the delay is negative, so the interval that \<open>Nack\<close> sends is that of a
  non-positive duration: one second instead of ten minutes.
\<close>

theorem BackoffDelay_overflow_loses_cap:
  assumes "34 \<le> attempts" "rng_ok r"
  shows "BackoffDelay (\<lambda>_. - (2 ^ 63)) Second attempts (Some r) = - (2 ^ 63) + r Second \<and>
    BackoffDelay (\<lambda>_. - (2 ^ 63)) Second attempts (Some r) < 0 \<and>
    intervalLiteral (BackoffDelay (\<lambda>_. - (2 ^ 63)) Second attempts (Some r)) = intervalLiteral Second"
proof -
  have r: "0 \<le> r Second" "r Second < Second"
    using assms(2) by (auto simp: rng_ok_def Second_def)
  have "(2::int) ^ 34 \<le> 2 ^ nat attempts"
    using assms(1) by (intro power_increasing) auto
  then have "2 ^ 63 \<le> Second * 2 ^ nat attempts"
    by (simp add: Second_def)
  then have conv: "int64_of_float (\<lambda>_. - (2 ^ 63)) (f64_mul (float64_of_int Second) (math_Pow2 attempts)) = - (2 ^ 63)"
    using int64_of_float_large [of Second attempts "\<lambda>_. - (2 ^ 63)"] assms(1)
    by (simp add: Second_def)
  have "int64 (- (2 ^ 63) + r Second) = - (2 ^ 63) + r Second"
    using r by (intro int64_id) (auto simp: Second_def)
  with conv r have eq: "BackoffDelay (\<lambda>_. - (2 ^ 63)) Second attempts (Some r) = - (2 ^ 63) + r Second"
    using assms(1) unfolding BackoffDelay_def Let_def
    by (simp add: capDelay_def Minute_def Second_def)
  with r have neg: "BackoffDelay (\<lambda>_. - (2 ^ 63)) Second attempts (Some r) < 0"
    by (simp add: Second_def)
  then have "intervalLiteral (BackoffDelay (\<lambda>_. - (2 ^ 63)) Second attempts (Some r)) = intervalLiteral Second"
    by (simp add: intervalLiteral_def Second_def)
  with eq neg show ?thesis by simp
qed

lemma BackoffDelay_overflow_loses_cap_witness:
  "BackoffDelay (\<lambda>_. - (2 ^ 63)) Second 40 (Some (\<lambda>n. 0)) = - (2 ^ 63)"
proof -
  have "rng_ok (\<lambda>n. 0)" by (auto simp: rng_ok_def)
  from BackoffDelay_overflow_loses_cap [of 40, OF _ this] show ?thesis by simp
qed

section \<open>Interval literals\<close>

lemma rne_near: "\<bar>x - of_int n\<bar> < 1 / 2 \<Longrightarrow> rne x = n"
  using rne_error [of x] by linarith

lemma ilog2_ge: "2 powi k \<le> r \<Longrightarrow> k \<le> ilog2 r"
proof -
  assume r: "2 powi k \<le> r"
  then have "0 < r" by (rule less_le_trans [rotated]) simp
  with r have "(2::rat) powi k < 2 powi (ilog2 r + 1)"
    using ilog2_bounds [of r] by simp
  then show ?thesis
    by (simp add: not_le [symmetric] powi_mono_iff)
qed

lemma f64_round_error_ge:
  assumes "1 / 2 ^ 40 \<le> r"
  shows "\<bar>f64_round r - r\<bar> \<le> r / 2 ^ 53"
proof (rule f64_round_error)
  show "0 < r" using assms by (rule less_le_trans [rotated]) simp
  have "(2::rat) powi (- 40) \<le> r"
    using assms by (simp add: power_int_minus field_simps)
  then show "- 1022 \<le> ilog2 r"
    using ilog2_ge [of "- 40" r] by simp
qed

text \<open>The nanoseconds as a float: close to their quotient, and not tiny unless there are none.\<close>

lemma nanoseconds_error:
  assumes "0 \<le> nsec" "nsec < 1000000000"
  shows "\<bar>f64_round (of_int nsec / 1000000000) - of_int nsec / 1000000000\<bar> \<le> 1 / 2 ^ 53"
proof (cases "nsec = 0")
  case False
  with assms have "1 / 2 ^ 40 \<le> (of_int nsec / 1000000000 :: rat)"
    by (simp add: field_simps)
  then have "\<bar>f64_round (of_int nsec / 1000000000) - of_int nsec / 1000000000\<bar> \<le> of_int nsec / 1000000000 / 2 ^ 53"
    by (rule f64_round_error_ge)
  also have "\<dots> \<le> 1 / 2 ^ 53"
    using assms(2) by (simp add: field_simps)
  finally show ?thesis .
qed simp

lemma nanoseconds_low:
  assumes "1 \<le> nsec"
  shows "1 / 2 ^ 40 \<le> f64_round (of_int nsec / 1000000000)"
proof -
  have "(of_int 1 * 2 powi - 30 :: rat) \<le> of_int nsec / 1000000000"
    using assms by (simp add: power_int_minus field_simps)
  then have "f64_round (of_int 1 * 2 powi - 30) \<le> f64_round (of_int nsec / 1000000000)"
    by (intro f64_round_mono) auto
  then have "(2::rat) powi - 30 \<le> f64_round (of_int nsec / 1000000000)"
    using f64_round_exact [of 1 "- 30"] by simp
  moreover have "1 / 2 ^ 40 \<le> (2::rat) powi - 30"
    by (simp add: power_int_minus)
  ultimately show ?thesis by simp
qed

text \<open>The value of \<open>Seconds\<close> is within a few units in the last place of the exact quotient.\<close>

lemma Seconds_error:
  assumes "0 < d" "d \<le> 10 ^ 15"
  shows "\<bar>Seconds d - of_int d / 1000000000\<bar> < 1 / 10 ^ 9"
proof -
  define sec nsec where "sec = d div Second" and "nsec = d mod Second"
  have d: "d = 1000000000 * sec + nsec" "0 \<le> nsec" "nsec < 1000000000" "0 \<le> sec" "sec \<le> 10 ^ 6"
    using assms by (auto simp: sec_def nsec_def Second_def)
  have q: "go_quot d Second = sec" "go_rem d Second = nsec"
    using assms by (simp_all add: go_quot_def go_rem_def sec_def nsec_def Second_def minus_mult_div_eq_mod)
  define a where "a = f64_round (of_int nsec / 1000000000)"
  have S: "Seconds d = f64_round (of_int sec + a)"
    unfolding Seconds_def q a_def using d by (simp add: f64_round_of_int)
  have a: "\<bar>a - of_int nsec / 1000000000\<bar> \<le> 1 / 2 ^ 53" "0 \<le> a"
    unfolding a_def using nanoseconds_error d by (blast, intro f64_round_nonneg) (use d in simp)
  have exact: "of_int d / 1000000000 = (of_int sec + of_int nsec / 1000000000 :: rat)"
    using d(1) by simp
  have "1 / 2 ^ 40 \<le> of_int sec + a"
  proof (cases "sec = 0")
    case True
    with d assms nanoseconds_low [of nsec] show ?thesis by (simp add: a_def)
  next
    case False
    with d have "(1::rat) \<le> of_int sec" by simp
    moreover have "1 / 2 ^ 40 \<le> (1::rat)" by simp
    ultimately show ?thesis using a(2) by linarith
  qed
  then have "\<bar>f64_round (of_int sec + a) - (of_int sec + a)\<bar> \<le> (of_int sec + a) / 2 ^ 53"
    by (rule f64_round_error_ge)
  moreover have "(of_int sec + a) / 2 ^ 53 \<le> (10 ^ 6 + 2) / 2 ^ 53"
  proof -
    have "(of_int sec :: rat) \<le> 10 ^ 6" "(of_int nsec :: rat) / 1000000000 \<le> 1"
      using d by (simp_all add: field_simps)
    moreover have "1 / 2 ^ 53 \<le> (1::rat)" by simp
    ultimately show ?thesis
      using a(1) by (intro divide_right_mono) (linarith, simp)
  qed
  moreover have "(10 ^ 6 + 2) / 2 ^ 53 + 1 / 2 ^ 53 < (1 / 10 ^ 9 :: rat)" by simp
  ultimately show ?thesis
    using a(1) unfolding S exact by linarith
qed

text \<open>
  The interval that reaches PostgreSQL is the duration itself for every whole number of
  microseconds up to \<open>10^12\<close> (eleven days): neither the floating-point division nor the six
  printed decimals lose anything of a lease or a retry delay.
\<close>

theorem intervalLiteral_exact:
  assumes "0 < us" "us \<le> 10 ^ 12"
  shows "intervalLiteral (1000 * us) = us"
proof -
  have "\<bar>Seconds (1000 * us) - of_int (1000 * us) / 1000000000\<bar> < 1 / 10 ^ 9"
    using assms by (intro Seconds_error) auto
  then have "\<bar>Seconds (1000 * us) - of_int us / 1000000\<bar> < 1 / 10 ^ 9"
    by simp
  then have "\<bar>Seconds (1000 * us) * 1000000 - of_int us\<bar> < 1 / 2"
    by (simp only: abs_less_iff) (simp add: field_simps)
  then show ?thesis
    using assms(1) by (simp add: intervalLiteral_def rne_near)
qed

lemma intervalLiteral_exact_witness: "intervalLiteral (10 * Second) = 10000000"
  using intervalLiteral_exact [of 10000000] by (simp add: Second_def)

text \<open>Every literal denotes a non-negative interval.\<close>

lemma intervalLiteral_nonneg: "0 \<le> intervalLiteral d"
proof -
  have "0 \<le> Seconds d" if "0 < d" for d
    unfolding Seconds_def using that
    by (intro f64_round_nonneg add_nonneg_nonneg divide_nonneg_nonneg)
      (auto simp: go_quot_def go_rem_def Second_def minus_mult_div_eq_mod)
  then have "0 \<le> Seconds (if d \<le> 0 then Second else d) * 1000000"
    by (simp add: Second_def)
  then show ?thesis
    unfolding intervalLiteral_def Let_def by (intro rne_ge_int) simp
qed

end
