(* ===== verification/Queue_Ops.thy ===== *)
theory Queue_Ops
  imports Transactions Backoff
begin

text \<open>
  The operations of \<open>queue.Queue\<close> in \<open>src/internal/queue/postgres.go\<close>, statement by
  statement. Each SQL statement is a function on the tables; each method is a program that
  sends its statements in the order of the code, with its early returns. \<open>now\<close> is the
  server's \<open>now()\<close>, fixed for a transaction; \<open>gonow\<close> is the caller's \<open>time.Now()\<close>; the
  results of \<open>uuid.New()\<close> are arguments.

  Beside each method stands its transaction, the function on the tables that it computes;
  the interpretations of \<open>atomic_op\<close> at the end of the theory prove that the method is
  that function, or an error with no effect, or a lost reply after the whole effect.
\<close>

section \<open>Enqueue\<close>

record EnqueueParams =
  p_TenantID :: uuid
  p_Queue :: string
  p_Handler :: string
  p_Payload :: string
  p_Priority :: int
  p_MaxAttempts :: int
  p_RunAt :: time
  p_IdempotencyKey :: string

definition normalizeEnqueueParams :: "time \<Rightarrow> EnqueueParams \<Rightarrow> EnqueueParams" where
  "normalizeEnqueueParams gonow params =
     (let params = (if p_TenantID params = uuid_Nil then params\<lparr>p_TenantID := DefaultTenantID\<rparr> else params);
          params = (if p_Queue params = '''' then params\<lparr>p_Queue := ''default''\<rparr> else params);
          params = (if length (p_Payload params) = 0 then params\<lparr>p_Payload := ''{}''\<rparr> else params);
          params = (if p_Priority params = 0 then params\<lparr>p_Priority := 5\<rparr> else params);
          params = (if p_MaxAttempts params \<le> 0 then params\<lparr>p_MaxAttempts := 5\<rparr> else params);
          params = (if p_RunAt params = zero_time then params\<lparr>p_RunAt := gonow\<rparr> else params)
      in params)"

definition insert_tenant :: "uuid \<Rightarrow> string \<Rightarrow> unit txn" where
  "insert_tenant i name d =
     (if i \<in> t_id ` set (tenants d) then Inr ((), d)
      else if name \<in> t_name ` set (tenants d) then Inl (ErrConstraint ''tenants_name_key'')
      else Inr ((), d\<lparr>tenants := tenants d @ [\<lparr>t_id = i, t_name = name\<rparr>]\<rparr>))"

definition tenant_name :: "ext \<Rightarrow> uuid \<Rightarrow> string" where
  "tenant_name X tenantID = (if tenantID \<noteq> DefaultTenantID then uuid_String X tenantID else ''default'')"

definition ensureTenant :: "ext \<Rightarrow> uuid \<Rightarrow> unit prog" where
  "ensureTenant X tenantID = stmt (insert_tenant tenantID (tenant_name X tenantID))"

text \<open>\<open>store.EnsureTenant\<close>, the same statement with a name of the caller's choice.\<close>

definition EnsureTenant :: "uuid \<Rightarrow> string \<Rightarrow> unit prog" where
  "EnsureTenant i name = stmt (insert_tenant i name)"

text \<open>The row that an insertion proposes: the columns not listed take their defaults.\<close>

definition new_job :: "time \<Rightarrow> uuid \<Rightarrow> string \<Rightarrow> string option \<Rightarrow> EnqueueParams \<Rightarrow> job" where
  "new_job now i payload key p =
     \<lparr>ID = i, TenantID = p_TenantID p, Queue = p_Queue p, Handler = p_Handler p,
      Payload = payload, Status = Ready, Priority = p_Priority p, Attempts = 0,
      MaxAttempts = p_MaxAttempts p, RunAt = p_RunAt p, LockedBy = None, LockedUntil = None,
      IdempotencyKey = key, LastError = None, CreatedAt = now, UpdatedAt = now\<rparr>"

definition insert_job_row :: "job \<Rightarrow> job txn" where
  "insert_job_row j d =
     (if ID j \<in> ID ` set (jobs d) then Inl (ErrConstraint ''jobs_pkey'')
      else if TenantID j \<notin> t_id ` set (tenants d) then Inl (ErrConstraint ''jobs_tenant_id_fkey'')
      else Inr (j, d\<lparr>jobs := jobs d @ [j]\<rparr>))"

definition insert_job :: "ext \<Rightarrow> time \<Rightarrow> uuid \<Rightarrow> EnqueueParams \<Rightarrow> job txn" where
  "insert_job X now i p d =
     (case jsonb_in X (p_Payload p) of
        None \<Rightarrow> Inl (ErrConstraint ''jsonb'')
      | Some payload \<Rightarrow>
          (let j = new_job now i payload None p in
           if \<not> jobs_check j then Inl (ErrConstraint ''jobs_check'')
           else insert_job_row j d))"

text \<open>
  With a key: the \<open>CHECK\<close> constraints are tested on the proposed row first; a row with the
  same tenant and key is then the one that is updated (to itself) and returned.
\<close>

definition insert_job_idem :: "ext \<Rightarrow> time \<Rightarrow> uuid \<Rightarrow> EnqueueParams \<Rightarrow> (job \<times> bool) txn" where
  "insert_job_idem X now i p d =
     (case jsonb_in X (p_Payload p) of
        None \<Rightarrow> Inl (ErrConstraint ''jsonb'')
      | Some payload \<Rightarrow>
          (let j = new_job now i payload (Some (p_IdempotencyKey p)) p in
           if \<not> jobs_check j then Inl (ErrConstraint ''jobs_check'')
           else (case find (\<lambda>r. idem_key r = idem_key j) (jobs d) of
               Some r \<Rightarrow> Inr ((r, False),
                 d\<lparr>jobs := sql_update (\<lambda>r. idem_key r = idem_key j)
                            (\<lambda>r. r\<lparr>IdempotencyKey := IdempotencyKey r\<rparr>) (jobs d)\<rparr>)
             | None \<Rightarrow> thenE (insert_job_row j) (\<lambda>j. okE (j, True)) d)))"

definition Enqueue ::
  "ext \<Rightarrow> time \<Rightarrow> time \<Rightarrow> uuid \<Rightarrow> duration \<Rightarrow> EnqueueParams \<Rightarrow> (job \<times> bool \<times> duration) prog" where
  "Enqueue X gonow now newid elapsed params =
     (let params = normalizeEnqueueParams gonow params in
      tryM (ensureTenant X (p_TenantID params)) (\<lambda>_.
      if p_IdempotencyKey params = '''' then
        tryM (stmt (insert_job X now newid params)) (\<lambda>job. ok (job, True, elapsed))
      else
        tryM (stmt (insert_job_idem X now newid params)) (\<lambda>jc. ok (fst jc, snd jc, elapsed))))"

definition enqueue_insert ::
  "ext \<Rightarrow> time \<Rightarrow> uuid \<Rightarrow> duration \<Rightarrow> EnqueueParams \<Rightarrow> (job \<times> bool \<times> duration) txn" where
  "enqueue_insert X now newid elapsed params =
     (if p_IdempotencyKey params = '''' then
        thenE (insert_job X now newid params) (\<lambda>job. okE (job, True, elapsed))
      else
        thenE (insert_job_idem X now newid params) (\<lambda>jc. okE (fst jc, snd jc, elapsed)))"

definition enqueue_txn ::
  "ext \<Rightarrow> time \<Rightarrow> time \<Rightarrow> uuid \<Rightarrow> duration \<Rightarrow> EnqueueParams \<Rightarrow> (job \<times> bool \<times> duration) txn" where
  "enqueue_txn X gonow now newid elapsed params =
     (let params = normalizeEnqueueParams gonow params in
      thenE (insert_tenant (p_TenantID params) (tenant_name X (p_TenantID params)))
        (\<lambda>_. enqueue_insert X now newid elapsed params))"

section \<open>Dequeue\<close>

definition lease_expired_msg :: string where
  "lease_expired_msg = ''worker lease expired before acknowledgement''"

definition expired :: "time \<Rightarrow> job \<Rightarrow> bool" where
  "expired now j \<longleftrightarrow> Status j = Running \<and> sql_less (LockedUntil j) now"

definition close_expired_runs :: "time \<Rightarrow> unit txn" where
  "close_expired_runs now d = Inr ((), d\<lparr>job_runs :=
     sql_update
       (\<lambda>r. r_status r = Running \<and> r_job_id r \<in> ID ` set (filter (expired now) (jobs d)))
       (\<lambda>r. r\<lparr>r_finished_at := Some now, r_status := Failed, r_error := Some lease_expired_msg\<rparr>)
       (job_runs d)\<rparr>)"

definition reclaim_row :: "time \<Rightarrow> job \<Rightarrow> job" where
  "reclaim_row now j = j\<lparr>Status := Ready, LockedBy := None, LockedUntil := None,
     LastError := Some lease_expired_msg, UpdatedAt := now\<rparr>"

definition reclaim_expired :: "time \<Rightarrow> unit txn" where
  "reclaim_expired now d =
     Inr ((), d\<lparr>jobs := sql_update (expired now) (reclaim_row now) (jobs d)\<rparr>)"

text \<open>\<open>locked\<close> are the rows that other open transactions hold, which \<open>SKIP LOCKED\<close> skips.\<close>

definition eligible :: "time \<Rightarrow> uuid list \<Rightarrow> string list \<Rightarrow> job \<Rightarrow> bool" where
  "eligible now locked queues j \<longleftrightarrow>
     Status j = Ready \<and> RunAt j \<le> now \<and> Queue j \<in> set queues \<and> ID j \<notin> set locked"

definition pick_order :: "job \<Rightarrow> int \<times> time" where
  "pick_order j = (- Priority j, RunAt j)"

definition picked :: "time \<Rightarrow> uuid list \<Rightarrow> string list \<Rightarrow> int \<Rightarrow> db \<Rightarrow> job list" where
  "picked now locked queues limit d =
     sql_limit limit (sql_order_by pick_order (filter (eligible now locked queues) (jobs d)))"

definition claim_row :: "time \<Rightarrow> string \<Rightarrow> duration \<Rightarrow> job \<Rightarrow> job" where
  "claim_row now workerID lease j =
     j\<lparr>Status := Running, LockedBy := Some workerID,
       LockedUntil := Some (now + intervalLiteral lease),
       Attempts := Attempts j + 1, UpdatedAt := now\<rparr>"

definition claim_ready ::
  "time \<Rightarrow> uuid list \<Rightarrow> string list \<Rightarrow> int \<Rightarrow> string \<Rightarrow> duration \<Rightarrow> job list txn" where
  "claim_ready now locked queues limit workerID lease d =
     (let ids = map ID (picked now locked queues limit d) in
      if \<exists>j \<in> set (picked now locked queues limit d). max_int32 \<le> Attempts j
      then Inl (ErrConstraint ''integer out of range'')
      else Inr (map (claim_row now workerID lease) (filter (\<lambda>j. ID j \<in> set ids) (jobs d)),
                d\<lparr>jobs := sql_update (\<lambda>j. ID j \<in> set ids) (claim_row now workerID lease) (jobs d)\<rparr>))"

definition insert_job_run :: "time \<Rightarrow> uuid \<Rightarrow> job \<Rightarrow> unit txn" where
  "insert_job_run now i j d =
     (if i \<in> r_id ` set (job_runs d) then Inl (ErrConstraint ''job_runs_pkey'')
      else if ID j \<notin> ID ` set (jobs d) then Inl (ErrConstraint ''job_runs_job_id_fkey'')
      else Inr ((), d\<lparr>job_runs := job_runs d @
        [\<lparr>r_id = i, r_job_id = ID j, r_attempt = Attempts j, r_started_at = now,
          r_finished_at = None, r_status = Running, r_error = None\<rparr>]\<rparr>))"

fun insert_runs :: "time \<Rightarrow> (nat \<Rightarrow> uuid) \<Rightarrow> nat \<Rightarrow> job list \<Rightarrow> unit prog" where
  "insert_runs now newids i [] = ok ()"
| "insert_runs now newids i (job # js) =
     tryM (stmt (insert_job_run now (newids i) job)) (\<lambda>_. insert_runs now newids (Suc i) js)"

definition default_queues :: "string list \<Rightarrow> string list" where
  "default_queues queues = (if length queues = 0 then [''default''] else queues)"

definition default_limit :: "int \<Rightarrow> int" where
  "default_limit limit = (if limit \<le> 0 then 1 else limit)"

definition Dequeue ::
  "time \<Rightarrow> (nat \<Rightarrow> uuid) \<Rightarrow> uuid list \<Rightarrow> string list \<Rightarrow> int \<Rightarrow> string \<Rightarrow> duration \<Rightarrow> job list prog" where
  "Dequeue now newids locked queues limit workerID lease =
     (let queues = default_queues queues; limit = default_limit limit in
      with_tx
       (tryM (stmt (close_expired_runs now)) (\<lambda>_.
        tryM (stmt (reclaim_expired now)) (\<lambda>_.
        tryM (stmt (claim_ready now locked queues limit workerID lease)) (\<lambda>jobs.
        tryM (insert_runs now newids 0 jobs) (\<lambda>_.
        tryM commit (\<lambda>_. ok jobs)))))))"

fun insert_runs_txn :: "time \<Rightarrow> (nat \<Rightarrow> uuid) \<Rightarrow> nat \<Rightarrow> job list \<Rightarrow> unit txn" where
  "insert_runs_txn now newids i [] = okE ()"
| "insert_runs_txn now newids i (job # js) =
     thenE (insert_job_run now (newids i) job) (\<lambda>_. insert_runs_txn now newids (Suc i) js)"

definition dequeue_txn ::
  "time \<Rightarrow> (nat \<Rightarrow> uuid) \<Rightarrow> uuid list \<Rightarrow> string list \<Rightarrow> int \<Rightarrow> string \<Rightarrow> duration \<Rightarrow> job list txn" where
  "dequeue_txn now newids locked queues limit workerID lease =
     (let queues = default_queues queues; limit = default_limit limit in
      thenE (close_expired_runs now) (\<lambda>_.
      thenE (reclaim_expired now) (\<lambda>_.
      thenE (claim_ready now locked queues limit workerID lease) (\<lambda>jobs.
      thenE (insert_runs_txn now newids 0 jobs) (\<lambda>_. okE jobs)))))"

section \<open>Ack, Nack, ExtendLease\<close>

text \<open>\<open>UPDATE jobs \<dots> RETURNING \<dots>\<close> read with \<open>QueryRow\<close>: the first updated row, or no rows.\<close>

definition update_job_returning :: "(job \<Rightarrow> bool) \<Rightarrow> (job \<Rightarrow> job) \<Rightarrow> job txn" where
  "update_job_returning p f d =
     (case filter p (jobs d) of
        [] \<Rightarrow> Inl ErrNoRows
      | j # _ \<Rightarrow> Inr (f j, d\<lparr>jobs := sql_update p f (jobs d)\<rparr>))"

definition running_for :: "uuid \<Rightarrow> string \<Rightarrow> job \<Rightarrow> bool" where
  "running_for jobID workerID j \<longleftrightarrow>
     ID j = jobID \<and> Status j = Running \<and> (workerID = '''' \<or> LockedBy j = Some workerID)"

definition ack_row :: "time \<Rightarrow> job \<Rightarrow> job" where
  "ack_row now j = j\<lparr>Status := Succeeded, LockedBy := None, LockedUntil := None, UpdatedAt := now\<rparr>"

definition finishRunSQL :: "time \<Rightarrow> uuid \<Rightarrow> status \<Rightarrow> string \<Rightarrow> unit txn" where
  "finishRunSQL now jobID st err d =
     (case sql_limit 1 (sql_order_by (\<lambda>r. - r_started_at r) (open_runs jobID d)) of
        [] \<Rightarrow> Inr ((), d)
      | r # _ \<Rightarrow> Inr ((), d\<lparr>job_runs :=
          sql_update (\<lambda>x. r_id x = r_id r)
            (\<lambda>x. x\<lparr>r_finished_at := Some now, r_status := st, r_error := nullif err ''''\<rparr>)
            (job_runs d)\<rparr>))"

definition Ack :: "time \<Rightarrow> uuid \<Rightarrow> string \<Rightarrow> job prog" where
  "Ack now jobID workerID =
     with_tx
      (tryM (norows ErrInvalidTransition
              (stmt (update_job_returning (running_for jobID workerID) (ack_row now)))) (\<lambda>job.
       tryM (stmt (finishRunSQL now jobID Succeeded '''')) (\<lambda>_.
       tryM commit (\<lambda>_. ok job))))"

definition ack_txn :: "time \<Rightarrow> uuid \<Rightarrow> string \<Rightarrow> job txn" where
  "ack_txn now jobID workerID =
     thenE (norowsE ErrInvalidTransition
             (update_job_returning (running_for jobID workerID) (ack_row now))) (\<lambda>job.
     thenE (finishRunSQL now jobID Succeeded '''') (\<lambda>_. okE job))"

text \<open>The error that a handler returned, \<open>None\<close> for a nil error.\<close>

definition errorString :: "string option \<Rightarrow> string" where
  "errorString err = (case err of None \<Rightarrow> '''' | Some m \<Rightarrow> m)"

definition select_running :: "uuid \<Rightarrow> string \<Rightarrow> job txn" where
  "select_running jobID workerID d =
     (case filter (running_for jobID workerID) (jobs d) of [] \<Rightarrow> Inl ErrNoRows | j # _ \<Rightarrow> Inr (j, d))"

definition dead_row :: "time \<Rightarrow> string \<Rightarrow> job \<Rightarrow> job" where
  "dead_row now message j =
     j\<lparr>Status := Dead, LockedBy := None, LockedUntil := None, LastError := Some message, UpdatedAt := now\<rparr>"

definition retry_row :: "time \<Rightarrow> duration \<Rightarrow> string \<Rightarrow> job \<Rightarrow> job" where
  "retry_row now delay message j =
     j\<lparr>Status := Ready, LockedBy := None, LockedUntil := None,
       RunAt := now + intervalLiteral delay, LastError := Some message, UpdatedAt := now\<rparr>"

definition upsert_dead_letter :: "time \<Rightarrow> uuid \<Rightarrow> string \<Rightarrow> unit txn" where
  "upsert_dead_letter now jobID message d =
     (if jobID \<in> d_job_id ` set (dead_letters d) then
        Inr ((), d\<lparr>dead_letters := sql_update (\<lambda>x. d_job_id x = jobID)
          (\<lambda>x. x\<lparr>d_dead_at := now, d_reason := Some message\<rparr>) (dead_letters d)\<rparr>)
      else if jobID \<notin> ID ` set (jobs d) then Inl (ErrConstraint ''dead_letter_job_id_fkey'')
      else Inr ((), d\<lparr>dead_letters := dead_letters d @
        [\<lparr>d_job_id = jobID, d_dead_at = now, d_reason = Some message\<rparr>]\<rparr>))"

definition Nack ::
  "(float64 \<Rightarrow> int) \<Rightarrow> queue_state \<Rightarrow> time \<Rightarrow> uuid \<Rightarrow> string \<Rightarrow> string option \<Rightarrow>
   (job \<times> bool \<times> duration) prog" where
  "Nack oob q now jobID workerID cause =
     with_tx
      (tryM (norows ErrInvalidTransition (stmt (select_running jobID workerID))) (\<lambda>job.
       let message = errorString cause; dead = (Attempts job \<ge> MaxAttempts job) in
       if dead then
         tryM (stmt (update_job_returning (\<lambda>j. ID j = jobID) (dead_row now message))) (\<lambda>job.
         tryM (stmt (upsert_dead_letter now jobID message)) (\<lambda>_.
         tryM (stmt (finishRunSQL now jobID Dead message)) (\<lambda>_.
         tryM commit (\<lambda>_. ok (job, True, 0)))))
       else
         (let delay = backoff oob q (Attempts job) in
          tryM (stmt (update_job_returning (\<lambda>j. ID j = jobID) (retry_row now delay message))) (\<lambda>job.
          tryM (stmt (finishRunSQL now jobID Failed message)) (\<lambda>_.
          tryM commit (\<lambda>_. ok (job, False, delay)))))))"

definition nack_txn ::
  "(float64 \<Rightarrow> int) \<Rightarrow> queue_state \<Rightarrow> time \<Rightarrow> uuid \<Rightarrow> string \<Rightarrow> string option \<Rightarrow>
   (job \<times> bool \<times> duration) txn" where
  "nack_txn oob q now jobID workerID cause =
     thenE (norowsE ErrInvalidTransition (select_running jobID workerID)) (\<lambda>job.
     if Attempts job \<ge> MaxAttempts job then
       thenE (update_job_returning (\<lambda>j. ID j = jobID) (dead_row now (errorString cause))) (\<lambda>job.
       thenE (upsert_dead_letter now jobID (errorString cause)) (\<lambda>_.
       thenE (finishRunSQL now jobID Dead (errorString cause)) (\<lambda>_. okE (job, True, 0))))
     else
       thenE (update_job_returning (\<lambda>j. ID j = jobID)
                (retry_row now (backoff oob q (Attempts job)) (errorString cause))) (\<lambda>job'.
       thenE (finishRunSQL now jobID Failed (errorString cause)) (\<lambda>_.
       okE (job', False, backoff oob q (Attempts job)))))"

definition leased_to :: "uuid \<Rightarrow> string \<Rightarrow> job \<Rightarrow> bool" where
  "leased_to jobID workerID j \<longleftrightarrow> ID j = jobID \<and> Status j = Running \<and> LockedBy j = Some workerID"

definition extend_row :: "time \<Rightarrow> duration \<Rightarrow> job \<Rightarrow> job" where
  "extend_row now lease j = j\<lparr>LockedUntil := Some (now + intervalLiteral lease), UpdatedAt := now\<rparr>"

text \<open>\<open>Exec\<close> of an update returns the number of rows that it changed.\<close>

definition extend_update :: "time \<Rightarrow> uuid \<Rightarrow> string \<Rightarrow> duration \<Rightarrow> nat txn" where
  "extend_update now jobID workerID lease d =
     Inr (length (filter (leased_to jobID workerID) (jobs d)),
          d\<lparr>jobs := sql_update (leased_to jobID workerID) (extend_row now lease) (jobs d)\<rparr>)"

definition ExtendLease :: "time \<Rightarrow> uuid \<Rightarrow> string \<Rightarrow> duration \<Rightarrow> unit prog" where
  "ExtendLease now jobID workerID lease =
     tryM (stmt (extend_update now jobID workerID lease)) (\<lambda>rowsAffected.
     if rowsAffected = 0 then fail ErrInvalidTransition else ok ())"

definition extend_txn :: "time \<Rightarrow> uuid \<Rightarrow> string \<Rightarrow> duration \<Rightarrow> unit txn" where
  "extend_txn now jobID workerID lease =
     thenE (extend_update now jobID workerID lease) (\<lambda>n.
     if n = 0 then failE ErrInvalidTransition else okE ())"

section \<open>Cancel and RequeueDLQ\<close>

definition cancellable :: "uuid \<Rightarrow> job \<Rightarrow> bool" where
  "cancellable jobID j \<longleftrightarrow> ID j = jobID \<and> Status j = Ready"

definition cancel_row :: "time \<Rightarrow> job \<Rightarrow> job" where
  "cancel_row now j = j\<lparr>Status := Failed, LastError := Some ''cancelled'', UpdatedAt := now\<rparr>"

definition Cancel :: "time \<Rightarrow> uuid \<Rightarrow> job prog" where
  "Cancel now jobID =
     norows ErrInvalidTransition (stmt (update_job_returning (cancellable jobID) (cancel_row now)))"

definition cancel_txn :: "time \<Rightarrow> uuid \<Rightarrow> job txn" where
  "cancel_txn now jobID =
     norowsE ErrInvalidTransition (update_job_returning (cancellable jobID) (cancel_row now))"

definition requeueable :: "uuid \<Rightarrow> job \<Rightarrow> bool" where
  "requeueable jobID j \<longleftrightarrow> ID j = jobID \<and> Status j = Dead"

definition requeue_row :: "time \<Rightarrow> job \<Rightarrow> job" where
  "requeue_row now j =
     j\<lparr>Status := Ready, Attempts := 0, LockedBy := None, LockedUntil := None,
       RunAt := now, LastError := None, UpdatedAt := now\<rparr>"

definition delete_dead_letter :: "uuid \<Rightarrow> unit txn" where
  "delete_dead_letter jobID d =
     Inr ((), d\<lparr>dead_letters := sql_delete (\<lambda>x. d_job_id x = jobID) (dead_letters d)\<rparr>)"

definition RequeueDLQ :: "time \<Rightarrow> uuid \<Rightarrow> job prog" where
  "RequeueDLQ now jobID =
     with_tx
      (tryM (norows ErrInvalidTransition
              (stmt (update_job_returning (requeueable jobID) (requeue_row now)))) (\<lambda>job.
       tryM (stmt (delete_dead_letter jobID)) (\<lambda>_.
       tryM commit (\<lambda>_. ok job))))"

definition requeue_txn :: "time \<Rightarrow> uuid \<Rightarrow> job txn" where
  "requeue_txn now jobID =
     thenE (norowsE ErrInvalidTransition
             (update_job_returning (requeueable jobID) (requeue_row now))) (\<lambda>job.
     thenE (delete_dead_letter jobID) (\<lambda>_. okE job))"

section \<open>Queries\<close>

record DeadJob =
  dj_Job :: job
  dj_DeadAt :: time
  dj_Reason :: string

record StateCounts =
  c_Ready :: int
  c_Running :: int
  c_Succeeded :: int
  c_Failed :: int
  c_Dead :: int

definition get_job :: "uuid \<Rightarrow> job txn" where
  "get_job jobID d = (case filter (\<lambda>j. ID j = jobID) (jobs d) of [] \<Rightarrow> Inl ErrNoRows | j # _ \<Rightarrow> Inr (j, d))"

definition GetJob :: "uuid \<Rightarrow> job prog" where
  "GetJob jobID = stmt (get_job jobID)"

definition coalesce :: "'a option \<Rightarrow> 'a \<Rightarrow> 'a" where
  "coalesce x y = (case x of None \<Rightarrow> y | Some v \<Rightarrow> v)"

text \<open>The join of \<open>dead_letter\<close> with \<open>jobs\<close>, one row per pair that agrees on the job.\<close>

definition dead_jobs :: "db \<Rightarrow> DeadJob list" where
  "dead_jobs d = concat (map (\<lambda>x.
     map (\<lambda>j. \<lparr>dj_Job = j, dj_DeadAt = d_dead_at x, dj_Reason = coalesce (d_reason x) ''''\<rparr>)
       (filter (\<lambda>j. ID j = d_job_id x) (jobs d))) (dead_letters d))"

definition dlq_limit :: "int \<Rightarrow> int" where
  "dlq_limit limit = (if limit \<le> 0 \<or> limit > 500 then 100 else limit)"

definition list_dlq :: "int \<Rightarrow> DeadJob list txn" where
  "list_dlq limit d =
     Inr (sql_limit (dlq_limit limit) (sql_order_by (\<lambda>x. - dj_DeadAt x) (dead_jobs d)), d)"

definition ListDLQ :: "int \<Rightarrow> DeadJob list prog" where
  "ListDLQ limit = stmt (list_dlq limit)"

definition recent_limit :: "int \<Rightarrow> int" where
  "recent_limit limit = (if limit \<le> 0 \<or> limit > 200 then 50 else limit)"

definition recent_jobs :: "int \<Rightarrow> job list txn" where
  "recent_jobs limit d =
     Inr (sql_limit (recent_limit limit) (sql_order_by (\<lambda>j. - UpdatedAt j) (jobs d)), d)"

definition RecentJobs :: "int \<Rightarrow> job list prog" where
  "RecentJobs limit = stmt (recent_jobs limit)"

definition depth_of :: "string \<Rightarrow> db \<Rightarrow> int" where
  "depth_of queueName d = sql_count (\<lambda>j. Queue j = queueName \<and> Status j = Ready) (jobs d)"

definition Depth :: "string \<Rightarrow> int prog" where
  "Depth queueName = stmt (\<lambda>d. Inr (depth_of queueName d, d))"

text \<open>\<open>GROUP BY status\<close>: one row per status that occurs in the queue.\<close>

definition status_groups :: "string \<Rightarrow> db \<Rightarrow> (status \<times> int) list" where
  "status_groups queueName d =
     map (\<lambda>st. (st, sql_count (\<lambda>j. Queue j = queueName \<and> Status j = st) (jobs d)))
       (remdups (map Status (filter (\<lambda>j. Queue j = queueName) (jobs d))))"

fun count_group :: "status \<times> int \<Rightarrow> StateCounts \<Rightarrow> StateCounts" where
  "count_group (Ready, n) c = c\<lparr>c_Ready := n\<rparr>"
| "count_group (Running, n) c = c\<lparr>c_Running := n\<rparr>"
| "count_group (Succeeded, n) c = c\<lparr>c_Succeeded := n\<rparr>"
| "count_group (Failed, n) c = c\<lparr>c_Failed := n\<rparr>"
| "count_group (Dead, n) c = c\<lparr>c_Dead := n\<rparr>"

definition state_counts :: "string \<Rightarrow> db \<Rightarrow> StateCounts" where
  "state_counts queueName d =
     fold count_group (status_groups queueName d)
       \<lparr>c_Ready = 0, c_Running = 0, c_Succeeded = 0, c_Failed = 0, c_Dead = 0\<rparr>"

definition StateCounts :: "string \<Rightarrow> StateCounts prog" where
  "StateCounts queueName = stmt (\<lambda>d. Inr (state_counts queueName d, d))"

definition RunCount :: "int prog" where
  "RunCount = stmt (\<lambda>d. Inr (sql_count (\<lambda>_. True) (job_runs d), d))"

section \<open>Each method is an atomic operation\<close>

lemma sim_insert_runs [sim_intros]:
  "sim (insert_runs now newids i js) (insert_runs_txn now newids i js)"
  by (induction js arbitrary: i) (auto intro!: sim_intros)

text \<open>A statement whose row count decides between success and an error that changed nothing.\<close>

lemma atomic_stmt_checked:
  assumes "\<And>d a d'. f d = Inr (a, d') \<Longrightarrow> c a \<Longrightarrow> d' = d"
  shows "atomic (tryM (stmt f) (\<lambda>a. if c a then fail e else ok b))
           (thenE f (\<lambda>a. if c a then failE e else okE b))"
  unfolding atomic_def
  by (auto simp: stmt_def run_tryM run_round_trip apply_txn_def thenE_def okE_def failE_def
      dest: assms split: list.splits fault.splits sum.splits prod.splits if_splits)

interpretation ack: atomic_op "Ack now jobID workerID" "ack_txn now jobID workerID"
  for now jobID workerID
  by unfold_locales (unfold Ack_def ack_txn_def, intro sim_intros)

interpretation nack: atomic_op
    "Nack oob q now jobID workerID cause" "nack_txn oob q now jobID workerID cause"
  for oob q now jobID workerID cause
  by unfold_locales (unfold Nack_def nack_txn_def Let_def, intro sim_intros)

interpretation dequeue: atomic_op
    "Dequeue now newids locked queues limit workerID lease"
    "dequeue_txn now newids locked queues limit workerID lease"
  for now newids locked queues limit workerID lease
  by unfold_locales (unfold Dequeue_def dequeue_txn_def Let_def, intro sim_intros)

interpretation requeue: atomic_op "RequeueDLQ now jobID" "requeue_txn now jobID"
  for now jobID
  by unfold_locales (unfold RequeueDLQ_def requeue_txn_def, intro sim_intros)

interpretation cancel: atomic_op "Cancel now jobID" "cancel_txn now jobID"
  for now jobID
  by unfold_locales (unfold Cancel_def cancel_txn_def, intro sim_intros)

lemma sql_update_no_hits: "filter p rows = [] \<Longrightarrow> sql_update p f rows = rows"
  by (intro sql_update_none) (auto simp: filter_empty_conv)

interpretation extend: atomic_op
    "ExtendLease now jobID workerID lease" "extend_txn now jobID workerID lease"
  for now jobID workerID lease
  unfolding ExtendLease_def extend_txn_def
  by unfold_locales
    (intro atomic_stmt_checked, auto simp: extend_update_def sql_update_no_hits)

lemma sim_enqueue:
  "sim (Enqueue X gonow now newid elapsed params) (enqueue_txn X gonow now newid elapsed params)"
  unfolding Enqueue_def enqueue_txn_def enqueue_insert_def ensureTenant_def Let_def
  by (intro sim_intros)

end
