(* ===== verification/Queue_Invariant.thy ===== *)
theory Queue_Invariant
  imports Queue_Ops
begin

text \<open>
  Every transaction of the queue keeps \<open>db_ok\<close>: the constraints of the schema, one open
  run per running job and none for the others, a lease exactly while a job runs, a
  dead-letter row exactly for the dead jobs, and no attempt without its run in the history.
  The effect of each transaction on well-formed tables is first brought into a closed form
  (\<open>ack_effect\<close>, \<open>nack_effect\<close>, \<open>reclaim_effect\<close>, \<open>claim_effect\<close>, \<dots>).
\<close>

section \<open>Closing and opening runs\<close>

definition close_runs ::
  "time \<Rightarrow> status \<Rightarrow> string option \<Rightarrow> uuid set \<Rightarrow> job_run list \<Rightarrow> job_run list" where
  "close_runs now st err K rs =
     sql_update (\<lambda>r. r_status r = Running \<and> r_job_id r \<in> K)
       (\<lambda>r. r\<lparr>r_finished_at := Some now, r_status := st, r_error := err\<rparr>) rs"

definition run_row :: "time \<Rightarrow> uuid \<Rightarrow> job \<Rightarrow> job_run" where
  "run_row now i j = \<lparr>r_id = i, r_job_id = ID j, r_attempt = Attempts j, r_started_at = now,
     r_finished_at = None, r_status = Running, r_error = None\<rparr>"

fun new_runs :: "time \<Rightarrow> (nat \<Rightarrow> uuid) \<Rightarrow> nat \<Rightarrow> job list \<Rightarrow> job_run list" where
  "new_runs now newids i [] = []"
| "new_runs now newids i (j # js) = run_row now (newids i) j # new_runs now newids (Suc i) js"

lemma map_close_runs [table_simps]:
  "map r_id (close_runs now st err K rs) = map r_id rs"
  "map r_job_id (close_runs now st err K rs) = map r_job_id rs"
  by (simp_all add: close_runs_def map_sql_update)

lemma image_close_runs [table_simps]:
  "r_job_id ` set (close_runs now st err K rs) = r_job_id ` set rs"
  by (metis list.set_map map_close_runs(2))

lemma length_runs_close [table_simps]:
  "length (filter (\<lambda>r. r_job_id r = i) (close_runs now st err K rs)) =
   length (filter (\<lambda>r. r_job_id r = i) rs)"
  by (simp add: close_runs_def filter_sql_update_keep)

lemma open_close_runs [table_simps]:
  assumes "st \<noteq> Running"
  shows "filter (\<lambda>r. r_job_id r = i \<and> r_status r = Running) (close_runs now st err K rs) =
     (if i \<in> K then [] else filter (\<lambda>r. r_job_id r = i \<and> r_status r = Running) rs)"
proof -
  have "filter (\<lambda>r. r_job_id r = i \<and> r_status r = Running) (close_runs now st err K rs) =
     filter (\<lambda>r. (r_job_id r = i \<and> r_status r = Running) \<and> \<not> (r_status r = Running \<and> r_job_id r \<in> K)) rs"
    unfolding close_runs_def using assms by (intro filter_sql_update_split) auto
  also have "\<dots> = (if i \<in> K then [] else filter (\<lambda>r. r_job_id r = i \<and> r_status r = Running) rs)"
    by (auto intro!: filter_cong simp: filter_empty_conv)
  finally show ?thesis .
qed

lemma close_runs_closed:
  assumes "st \<noteq> Running" "\<forall>r \<in> set rs. run_closed_ok r"
  shows "\<forall>r \<in> set (close_runs now st err K rs). run_closed_ok r"
  using assms by (auto simp: close_runs_def run_closed_ok_def elim!: in_sql_updateE)

lemma new_runs_open:
  "map r_attempt (filter (\<lambda>r. r_job_id r = k \<and> r_status r = Running) (new_runs now newids i js)) =
   map Attempts (filter (\<lambda>j. ID j = k) js)"
  by (induction js arbitrary: i) (auto simp: run_row_def)

lemma new_runs_length:
  "length (filter (\<lambda>r. r_job_id r = k) (new_runs now newids i js)) =
   length (filter (\<lambda>j. ID j = k) js)"
  by (induction js arbitrary: i) (auto simp: run_row_def)

lemma new_runs_closed: "\<forall>r \<in> set (new_runs now newids i js). run_closed_ok r"
  by (induction js arbitrary: i) (auto simp: run_row_def run_closed_ok_def)

lemma new_runs_jobs: "r_job_id ` set (new_runs now newids i js) = ID ` set js"
  by (induction js arbitrary: i) (auto simp: run_row_def)

text \<open>The loop of \<open>Dequeue\<close> appends one run per claimed job, with fresh identifiers.\<close>

lemma insert_runs_effect:
  assumes "insert_runs_txn now newids i js d = Inr (u, d')"
    and "distinct (map r_id (job_runs d))"
  shows "d' = d\<lparr>job_runs := job_runs d @ new_runs now newids i js\<rparr> \<and>
    distinct (map r_id (job_runs d'))"
  using assms
proof (induction js arbitrary: i d)
  case (Cons j js)
  from Cons.prems(1) obtain d1 where
      first: "insert_job_run now (newids i) j d = Inr ((), d1)"
      and rest: "insert_runs_txn now newids (Suc i) js d1 = Inr (u, d')"
    by (auto simp: thenE_Inr)
  from first have d1: "d1 = d\<lparr>job_runs := job_runs d @ [run_row now (newids i) j]\<rparr>"
      and fresh: "newids i \<notin> r_id ` set (job_runs d)"
    by (auto simp: insert_job_run_def run_row_def split: if_splits)
  have "distinct (map r_id (job_runs d1))"
    using Cons.prems(2) fresh by (simp add: d1 run_row_def)
  from Cons.IH [OF rest this] show ?case
    by (rule conj_forward) (simp_all add: d1)
qed simp

section \<open>Preservation by a change of jobs, runs and dead letters\<close>

definition keeps_key :: "(job \<Rightarrow> job) \<Rightarrow> bool" where
  "keeps_key f \<longleftrightarrow> (\<forall>j. ID (f j) = ID j \<and> TenantID (f j) = TenantID j \<and>
     IdempotencyKey (f j) = IdempotencyKey j)"

lemma keeps_keyD:
  assumes "keeps_key f"
  shows "ID (f j) = ID j" "TenantID (f j) = TenantID j" "IdempotencyKey (f j) = IdempotencyKey j"
    "idem_key (f j) = idem_key j"
  using assms by (simp_all add: keeps_key_def idem_key_def)

lemma keeps_key_rows [intro!, simp]:
  "keeps_key (ack_row now)" "keeps_key (dead_row now m)" "keeps_key (retry_row now dl m)"
  "keeps_key (extend_row now l)" "keeps_key (cancel_row now)" "keeps_key (requeue_row now)"
  "keeps_key (reclaim_row now)" "keeps_key (claim_row now w l)"
  by (simp_all add: keeps_key_def ack_row_def dead_row_def retry_row_def extend_row_def
      cancel_row_def requeue_row_def reclaim_row_def claim_row_def)

lemma map_ID_update: "keeps_key f \<Longrightarrow> map ID (sql_update p f js) = map ID js"
  by (simp add: map_sql_update keeps_keyD)

lemma image_ID_update: "keeps_key f \<Longrightarrow> ID ` set (sql_update p f js) = ID ` set js"
  by (metis list.set_map map_ID_update)

lemma db_ok_change:
  assumes ok: "db_ok d" and f: "keeps_key f"
    and d': "d' = d\<lparr>jobs := sql_update p f (jobs d), job_runs := rs, dead_letters := ds\<rparr>"
    and hit: "\<And>j. j \<in> set (jobs d) \<Longrightarrow> p j \<Longrightarrow>
      jobs_check (f j) \<and> lease_ok (f j) \<and> runs_ok d' (f j) \<and> dead_ok d' (f j)"
    and miss: "\<And>j. j \<in> set (jobs d) \<Longrightarrow> \<not> p j \<Longrightarrow> runs_ok d' j \<and> dead_ok d' j"
    and rs: "distinct (map r_id rs)" "r_job_id ` set rs \<subseteq> ID ` set (jobs d)"
      "\<forall>r \<in> set rs. run_closed_ok r"
    and ds: "distinct (map d_job_id ds)" "d_job_id ` set ds \<subseteq> ID ` set (jobs d)"
  shows "db_ok d'"
proof -
  have keys: "idem_keys (jobs d') = idem_keys (jobs d)" "map ID (jobs d') = map ID (jobs d)"
      "ID ` set (jobs d') = ID ` set (jobs d)"
    using f by (simp_all add: d' idem_keys_sql_update keeps_keyD map_ID_update image_ID_update)
  have jobs': "jobs_check j \<and> TenantID j \<in> t_id ` set (tenants d') \<and>
      lease_ok j \<and> runs_ok d' j \<and> dead_ok d' j" if "j \<in> set (jobs d')" for j
  proof -
    from that have "j \<in> set (sql_update p f (jobs d))" by (simp add: d')
    then show ?thesis
    proof (cases rule: in_sql_updateE)
      case (hit j0)
      with assms(4) [OF hit(1,2)] db_ok_job(5) [OF ok hit(1)] f show ?thesis
        by (simp add: d' keeps_keyD)
    next
      case miss
      with assms(5) [OF miss(1,2)] db_ok_job [OF ok miss(1)] show ?thesis
        by (simp add: d')
    qed
  qed
  have old: "schema_ok d" using ok by (simp add: db_ok_def)
  show ?thesis
    unfolding db_ok_def schema_ok_def queue_ok_def
    using jobs' rs ds old keys by (simp add: schema_ok_def d' image_subset_iff)
qed

section \<open>Statements on well-formed tables\<close>

lemma open_runs_length:
  assumes "db_ok d" "j \<in> set (jobs d)"
  shows "length (open_runs (ID j) d) = (if Status j = Running then 1 else 0)"
proof -
  from db_ok_job(3) [OF assms]
  have "map r_attempt (open_runs (ID j) d) = (if Status j = Running then [Attempts j] else [])"
    by (simp add: runs_ok_def)
  then have "length (map r_attempt (open_runs (ID j) d)) = (if Status j = Running then 1 else 0)"
    by simp
  then show ?thesis by simp
qed

lemma finishRunSQL_effect:
  assumes "distinct (map r_id (job_runs d))" "length (open_runs i d) \<le> 1"
  shows "finishRunSQL now i st err d =
    Inr ((), d\<lparr>job_runs := close_runs now st (nullif err '''') {i} (job_runs d)\<rparr>)"
proof (cases "open_runs i d")
  case Nil
  then have "close_runs now st (nullif err '''') {i} (job_runs d) = job_runs d"
    unfolding close_runs_def by (intro sql_update_none) (auto simp: open_runs_def filter_empty_conv)
  with Nil show ?thesis
    by (simp add: finishRunSQL_def sql_limit_def sql_order_by_def)
next
  case (Cons r rest)
  with assms(2) have one: "open_runs i d = [r]" by simp
  then have r: "r \<in> set (job_runs d)" "r_job_id r = i" "r_status r = Running"
    by (metis (mono_tags, lifting) list.set_intros(1) mem_Collect_eq open_runs_def set_filter)+
  have "r_id x = r_id r \<longleftrightarrow> r_status x = Running \<and> r_job_id x \<in> {i}"
    if "x \<in> set (job_runs d)" for x
  proof
    assume "r_id x = r_id r"
    with distinct_key_unique [OF assms(1) that r(1)] r show "r_status x = Running \<and> r_job_id x \<in> {i}"
      by simp
  next
    assume "r_status x = Running \<and> r_job_id x \<in> {i}"
    with that have "x \<in> set (open_runs i d)" by (simp add: open_runs_def)
    with one show "r_id x = r_id r" by simp
  qed
  then show ?thesis
    unfolding finishRunSQL_def close_runs_def
    by (simp add: one sql_limit_def sql_order_by_def cong: sql_update_cong)
qed

text \<open>An update of one job by its key: the row is found, or there is none.\<close>

lemma filter_by_ID:
  assumes "distinct (map ID (jobs d))" "j \<in> set (jobs d)" "p j" "\<And>x. p x \<Longrightarrow> ID x = ID j"
  shows "filter p (jobs d) = [j]"
proof -
  have "filter p (jobs d) = filter (\<lambda>x. ID x = ID j \<and> p x) (jobs d)"
    using assms(4) by (intro filter_cong) auto
  also have "\<dots> = [j]"
    using filter_key_guard [OF assms(1,2) refl, of p] assms(3) by simp
  finally show ?thesis .
qed

lemma update_job_returning_hit:
  assumes "distinct (map ID (jobs d))" "j \<in> set (jobs d)" "p j" "\<And>x. p x \<Longrightarrow> ID x = ID j"
  shows "update_job_returning p f d =
    Inr (f j, d\<lparr>jobs := sql_update (\<lambda>x. ID x = ID j) f (jobs d)\<rparr>)"
proof -
  have "sql_update p f (jobs d) = sql_update (\<lambda>x. ID x = ID j) f (jobs d)"
    using assms by (intro sql_update_cong) (metis distinct_key_unique)
  with filter_by_ID [of d j p, OF assms] show ?thesis
    by (simp add: update_job_returning_def)
qed

lemma update_job_returning_miss:
  "\<forall>j \<in> set (jobs d). \<not> p j \<Longrightarrow> update_job_returning p f d = Inl ErrNoRows"
  by (simp add: update_job_returning_def filter_empty_conv [THEN iffD2])

lemma running_for_ID: "running_for i w x \<Longrightarrow> ID x = i"
  and leased_to_ID: "leased_to i w x \<Longrightarrow> ID x = i"
  and cancellable_ID: "cancellable i x \<Longrightarrow> ID x = i"
  and requeueable_ID: "requeueable i x \<Longrightarrow> ID x = i"
  by (simp_all add: running_for_def leased_to_def cancellable_def requeueable_def)

section \<open>Effects of the transactions on one job\<close>

lemma finishRunSQL_of_job:
  assumes "db_ok d" "j \<in> set (jobs d)" "job_runs d' = job_runs d"
  shows "finishRunSQL now (ID j) st err d' =
    Inr ((), d'\<lparr>job_runs := close_runs now st (nullif err '''') {ID j} (job_runs d)\<rparr>)"
  using finishRunSQL_effect [of d' "ID j" now st err] open_runs_length [OF assms(1,2)]
    db_okD(2) [OF assms(1)] assms(3) by (simp add: open_runs_def)

lemma ack_effect:
  assumes ok: "db_ok d" and j: "j \<in> set (jobs d)" "running_for i w j"
  shows "ack_txn now i w d = Inr (ack_row now j,
    d\<lparr>jobs := sql_update (\<lambda>x. ID x = i) (ack_row now) (jobs d),
      job_runs := close_runs now Succeeded None {i} (job_runs d)\<rparr>)"
proof -
  have i: "i = ID j" using j(2) by (simp add: running_for_def)
  have "update_job_returning (running_for i w) (ack_row now) d =
      Inr (ack_row now j, d\<lparr>jobs := sql_update (\<lambda>x. ID x = ID j) (ack_row now) (jobs d)\<rparr>)"
    using j by (intro update_job_returning_hit db_okD(1) [OF ok]) (auto simp: running_for_def)
  then show ?thesis
    by (simp add: ack_txn_def thenE_def norowsE_def okE_def i finishRunSQL_of_job [OF ok j(1)])
qed

lemma ack_refused:
  assumes "\<forall>j \<in> set (jobs d). \<not> running_for i w j"
  shows "ack_txn now i w d = Inl ErrInvalidTransition"
  by (simp add: ack_txn_def thenE_def norowsE_def update_job_returning_miss [OF assms])

lemma nack_selects:
  assumes ok: "db_ok d" and j: "j \<in> set (jobs d)" "running_for i w j"
  shows "select_running i w d = Inr (j, d)"
proof -
  have "filter (running_for i w) (jobs d) = [j]"
    using j by (intro filter_by_ID db_okD(1) [OF ok]) (auto simp: running_for_def)
  then show ?thesis by (simp add: select_running_def)
qed

lemma update_by_ID:
  "db_ok d \<Longrightarrow> j \<in> set (jobs d) \<Longrightarrow> update_job_returning (\<lambda>x. ID x = ID j) f d =
     Inr (f j, d\<lparr>jobs := sql_update (\<lambda>x. ID x = ID j) f (jobs d)\<rparr>)"
  by (rule update_job_returning_hit) (auto dest: db_okD(1))

lemma nack_effect_dead:
  assumes ok: "db_ok d" and j: "j \<in> set (jobs d)" "running_for i w j"
    and dead: "MaxAttempts j \<le> Attempts j"
  shows "nack_txn oob q now i w cause d = Inr ((dead_row now (errorString cause) j, True, 0),
    d\<lparr>jobs := sql_update (\<lambda>x. ID x = i) (dead_row now (errorString cause)) (jobs d),
      job_runs := close_runs now Dead (nullif (errorString cause) '''') {i} (job_runs d),
      dead_letters := dead_letters d @
        [\<lparr>d_job_id = i, d_dead_at = now, d_reason = Some (errorString cause)\<rparr>]\<rparr>)"
proof -
  have i: "i = ID j" using j(2) by (simp add: running_for_def)
  have "ID j \<notin> d_job_id ` set (dead_letters d)"
    using db_ok_job(4) [OF ok j(1)] j(2) by (simp add: dead_ok_def running_for_def)
  moreover have "ID j \<in> ID ` set (sql_update (\<lambda>x. ID x = ID j) (dead_row now (errorString cause)) (jobs d))"
    using j(1) by (simp add: image_ID_update)
  ultimately show ?thesis
    using dead
    by (simp add: nack_txn_def thenE_def norowsE_def okE_def nack_selects [OF ok j, unfolded i] i
        update_by_ID [OF ok j(1)] upsert_dead_letter_def finishRunSQL_of_job [OF ok j(1)])
qed

lemma nack_effect_retry:
  assumes ok: "db_ok d" and j: "j \<in> set (jobs d)" "running_for i w j"
    and retry: "Attempts j < MaxAttempts j"
  shows "nack_txn oob q now i w cause d =
    Inr ((retry_row now (backoff oob q (Attempts j)) (errorString cause) j, False, backoff oob q (Attempts j)),
    d\<lparr>jobs := sql_update (\<lambda>x. ID x = i)
        (retry_row now (backoff oob q (Attempts j)) (errorString cause)) (jobs d),
      job_runs := close_runs now Failed (nullif (errorString cause) '''') {i} (job_runs d)\<rparr>)"
proof -
  have i: "i = ID j" using j(2) by (simp add: running_for_def)
  show ?thesis
    using retry
    by (simp add: nack_txn_def thenE_def norowsE_def okE_def nack_selects [OF ok j, unfolded i] i
        update_by_ID [OF ok j(1)] finishRunSQL_of_job [OF ok j(1)])
qed

lemma nack_refused:
  assumes "\<forall>j \<in> set (jobs d). \<not> running_for i w j"
  shows "nack_txn oob q now i w cause d = Inl ErrInvalidTransition"
  using assms
  by (simp add: nack_txn_def thenE_def norowsE_def select_running_def filter_empty_conv [THEN iffD2])

lemma extend_effect:
  assumes ok: "db_ok d" and j: "j \<in> set (jobs d)" "leased_to i w j"
  shows "extend_txn now i w lease d =
    Inr ((), d\<lparr>jobs := sql_update (\<lambda>x. ID x = i) (extend_row now lease) (jobs d)\<rparr>)"
proof -
  have i: "i = ID j" using j(2) by (simp add: leased_to_def)
  have filt: "filter (leased_to i w) (jobs d) = [j]"
    using j by (intro filter_by_ID db_okD(1) [OF ok]) (auto simp: leased_to_def)
  have "sql_update (leased_to i w) (extend_row now lease) (jobs d) =
      sql_update (\<lambda>x. ID x = i) (extend_row now lease) (jobs d)"
    using j i db_okD(1) [OF ok] by (intro sql_update_cong) (metis distinct_key_unique leased_to_ID)
  with filt show ?thesis
    by (simp add: extend_txn_def thenE_def extend_update_def okE_def)
qed

lemma extend_refused:
  assumes "\<forall>j \<in> set (jobs d). \<not> leased_to i w j"
  shows "extend_txn now i w lease d = Inl ErrInvalidTransition"
  using assms
  by (simp add: extend_txn_def thenE_def extend_update_def failE_def filter_empty_conv [THEN iffD2])

lemma cancel_effect:
  assumes ok: "db_ok d" and j: "j \<in> set (jobs d)" "cancellable i j"
  shows "cancel_txn now i d = Inr (cancel_row now j,
    d\<lparr>jobs := sql_update (\<lambda>x. ID x = i) (cancel_row now) (jobs d)\<rparr>)"
proof -
  have i: "i = ID j" using j(2) by (simp add: cancellable_def)
  show ?thesis
    unfolding cancel_txn_def norowsE_Inr i using j(2) i
    by (intro update_job_returning_hit db_okD(1) [OF ok] j(1)) (auto simp: cancellable_def)
qed

lemma cancel_refused:
  assumes "\<forall>j \<in> set (jobs d). \<not> cancellable i j"
  shows "cancel_txn now i d = Inl ErrInvalidTransition"
  by (simp add: cancel_txn_def norowsE_def update_job_returning_miss [OF assms])

lemma requeue_effect:
  assumes ok: "db_ok d" and j: "j \<in> set (jobs d)" "requeueable i j"
  shows "requeue_txn now i d = Inr (requeue_row now j,
    d\<lparr>jobs := sql_update (\<lambda>x. ID x = i) (requeue_row now) (jobs d),
      dead_letters := sql_delete (\<lambda>x. d_job_id x = i) (dead_letters d)\<rparr>)"
proof -
  have i: "i = ID j" using j(2) by (simp add: requeueable_def)
  have "update_job_returning (requeueable i) (requeue_row now) d =
      Inr (requeue_row now j, d\<lparr>jobs := sql_update (\<lambda>x. ID x = ID j) (requeue_row now) (jobs d)\<rparr>)"
    using j by (intro update_job_returning_hit db_okD(1) [OF ok]) (auto simp: requeueable_def)
  then show ?thesis
    by (simp add: requeue_txn_def thenE_def norowsE_def okE_def delete_dead_letter_def i)
qed

lemma requeue_refused:
  assumes "\<forall>j \<in> set (jobs d). \<not> requeueable i j"
  shows "requeue_txn now i d = Inl ErrInvalidTransition"
  by (simp add: requeue_txn_def thenE_def norowsE_def update_job_returning_miss [OF assms])

section \<open>The transactions on one job keep the invariant\<close>

lemmas runs_simps = runs_ok_def open_runs_def runs_of_def

lemma db_ok_runs:
  assumes "db_ok d"
  shows "r_job_id ` set (job_runs d) \<subseteq> ID ` set (jobs d)"
    and "\<forall>r \<in> set (job_runs d). run_closed_ok r"
    and "d_job_id ` set (dead_letters d) \<subseteq> ID ` set (jobs d)"
  using assms by (auto simp: db_ok_defs)

text \<open>A running job leaves its lease: its open run is closed and the row is released.\<close>

lemma db_ok_finish:
  assumes ok: "db_ok d" and j: "j \<in> set (jobs d)" and f: "keeps_key f" and st: "st \<noteq> Running"
    and d': "d' = d\<lparr>jobs := sql_update (\<lambda>x. ID x = ID j) f (jobs d),
                   job_runs := close_runs now st err {ID j} (job_runs d), dead_letters := ds\<rparr>"
    and row: "Status (f j) \<noteq> Running" "LockedBy (f j) = None" "LockedUntil (f j) = None"
      "Attempts (f j) = Attempts j" "jobs_check (f j)"
    and ds: "distinct (map d_job_id ds)"
      "d_job_id ` set ds = (if Status (f j) = Dead then insert (ID j) (d_job_id ` set (dead_letters d))
         else d_job_id ` set (dead_letters d) - {ID j})"
  shows "db_ok d'"
proof (rule db_ok_change [OF ok f d'])
  fix x assume x: "x \<in> set (jobs d)" "ID x = ID j"
  then have "x = j" using distinct_key_unique [OF db_okD(1) [OF ok] x(1) j] by simp
  with row ds(2) f st db_ok_job(3) [OF ok j] show "jobs_check (f x) \<and> lease_ok (f x) \<and> runs_ok d' (f x) \<and> dead_ok d' (f x)"
    by (simp add: lease_ok_def runs_simps dead_ok_def d' keeps_keyD table_simps)
next
  fix x assume x: "x \<in> set (jobs d)" "ID x \<noteq> ID j"
  with db_ok_job(3,4) [OF ok x(1)] ds(2) st show "runs_ok d' x \<and> dead_ok d' x"
    by (auto simp: runs_simps dead_ok_def d' table_simps)
next
  show "distinct (map r_id (close_runs now st err {ID j} (job_runs d)))"
    using db_okD(2) [OF ok] by (simp add: table_simps)
  show "r_job_id ` set (close_runs now st err {ID j} (job_runs d)) \<subseteq> ID ` set (jobs d)"
    using db_ok_runs(1) [OF ok] by (simp add: table_simps)
  show "\<forall>r \<in> set (close_runs now st err {ID j} (job_runs d)). run_closed_ok r"
    using db_ok_runs(2) [OF ok] st by (intro close_runs_closed)
  show "d_job_id ` set ds \<subseteq> ID ` set (jobs d)"
    using db_ok_runs(3) [OF ok] j ds(2) by (auto split: if_splits)
qed (use ds in simp)

lemma not_dead_letter:
  assumes "db_ok d" "j \<in> set (jobs d)" "Status j \<noteq> Dead"
  shows "ID j \<notin> d_job_id ` set (dead_letters d)"
  using db_ok_job(4) [OF assms(1,2)] assms(3) by (simp add: dead_ok_def)

lemma ack_preserves:
  assumes ok: "db_ok d" and ack: "ack_txn now i w d = Inr (a, d')"
  shows "db_ok d'"
proof -
  obtain j where j: "j \<in> set (jobs d)" "running_for i w j"
    using ack ack_refused [of d i w now] by auto
  with ack ack_effect [OF ok j, of now] have
      d': "d' = d\<lparr>jobs := sql_update (\<lambda>x. ID x = ID j) (ack_row now) (jobs d),
        job_runs := close_runs now Succeeded None {ID j} (job_runs d), dead_letters := dead_letters d\<rparr>"
    by (auto simp: running_for_def)
  show ?thesis
    using not_dead_letter [OF ok j(1)] j(2) db_okD(3) [OF ok] db_ok_job(1) [OF ok j(1)]
    by (intro db_ok_finish [OF ok j(1) _ _ d']) (auto simp: ack_row_def jobs_check_def running_for_def)
qed

lemma nack_preserves:
  assumes ok: "db_ok d" and nack: "nack_txn oob q now i w cause d = Inr (a, d')"
  shows "db_ok d'"
proof -
  obtain j where j: "j \<in> set (jobs d)" "running_for i w j"
    using nack nack_refused [of d i w oob q now cause] by auto
  then have i: "i = ID j" and alive: "Status j \<noteq> Dead"
    by (auto simp: running_for_def)
  note facts = not_dead_letter [OF ok j(1) alive] db_okD(3) [OF ok] db_ok_job(1) [OF ok j(1)]
  show ?thesis
  proof (cases "MaxAttempts j \<le> Attempts j")
    case True
    from nack nack_effect_dead [OF ok j True, of oob q now cause] have
        d': "d' = d\<lparr>jobs := sql_update (\<lambda>x. ID x = ID j) (dead_row now (errorString cause)) (jobs d),
          job_runs := close_runs now Dead (nullif (errorString cause) '''') {ID j} (job_runs d),
          dead_letters := dead_letters d @
            [\<lparr>d_job_id = ID j, d_dead_at = now, d_reason = Some (errorString cause)\<rparr>]\<rparr>"
      by (simp add: i)
    show ?thesis
      using facts by (intro db_ok_finish [OF ok j(1) _ _ d']) (auto simp: dead_row_def jobs_check_def)
  next
    case False
    then have "Attempts j < MaxAttempts j" by simp
    from nack nack_effect_retry [OF ok j this, of oob q now cause] have
        d': "d' = d\<lparr>jobs := sql_update (\<lambda>x. ID x = ID j)
            (retry_row now (backoff oob q (Attempts j)) (errorString cause)) (jobs d),
          job_runs := close_runs now Failed (nullif (errorString cause) '''') {ID j} (job_runs d),
          dead_letters := dead_letters d\<rparr>"
      by (simp add: i)
    show ?thesis
      using facts by (intro db_ok_finish [OF ok j(1) _ _ d']) (auto simp: retry_row_def jobs_check_def)
  qed
qed

text \<open>A change of one row that keeps its runs, and the dead letters to match its status.\<close>

lemma db_ok_row:
  assumes ok: "db_ok d" and j: "j \<in> set (jobs d)" and f: "keeps_key f"
    and d': "d' = d\<lparr>jobs := sql_update (\<lambda>x. ID x = ID j) f (jobs d), dead_letters := ds\<rparr>"
    and row: "Status (f j) = Running \<longleftrightarrow> Status j = Running" "lease_ok (f j)" "jobs_check (f j)"
      "Attempts (f j) \<le> Attempts j" "Status j = Running \<Longrightarrow> Attempts (f j) = Attempts j"
    and ds: "distinct (map d_job_id ds)"
      "d_job_id ` set ds = (if Status (f j) = Dead then insert (ID j) (d_job_id ` set (dead_letters d))
         else d_job_id ` set (dead_letters d) - {ID j})"
  shows "db_ok d'"
proof (rule db_ok_change [OF ok f, where d' = d' and p = "\<lambda>x. ID x = ID j"
        and rs = "job_runs d" and ds = ds])
  show "d' = d\<lparr>jobs := sql_update (\<lambda>x. ID x = ID j) f (jobs d), job_runs := job_runs d, dead_letters := ds\<rparr>"
    by (simp add: d')
  fix x assume x: "x \<in> set (jobs d)" "ID x = ID j"
  then have "x = j" using distinct_key_unique [OF db_okD(1) [OF ok] x(1) j] by simp
  with row ds(2) f db_ok_job(3) [OF ok j] show "jobs_check (f x) \<and> lease_ok (f x) \<and> runs_ok d' (f x) \<and> dead_ok d' (f x)"
    by (auto simp: runs_simps dead_ok_def d' keeps_keyD)
next
  fix x assume x: "x \<in> set (jobs d)" "ID x \<noteq> ID j"
  with db_ok_job(3,4) [OF ok x(1)] ds(2) show "runs_ok d' x \<and> dead_ok d' x"
    by (auto simp: runs_simps dead_ok_def d')
next
  show "d_job_id ` set ds \<subseteq> ID ` set (jobs d)"
    using db_ok_runs(3) [OF ok] j ds(2) by (auto split: if_splits)
qed (use ds(1) db_okD(2) [OF ok] db_ok_runs [OF ok] in simp_all)

lemma extend_preserves:
  assumes ok: "db_ok d" and ext: "extend_txn now i w lease d = Inr (a, d')"
  shows "db_ok d'"
proof -
  obtain j where j: "j \<in> set (jobs d)" "leased_to i w j"
    using ext extend_refused [of d i w now lease] by auto
  with ext extend_effect [OF ok j, of now lease] have
      d': "d' = d\<lparr>jobs := sql_update (\<lambda>x. ID x = ID j) (extend_row now lease) (jobs d),
        dead_letters := dead_letters d\<rparr>"
    by (auto simp: leased_to_def)
  show ?thesis
    using not_dead_letter [OF ok j(1)] j(2) db_okD(3) [OF ok] db_ok_job(1,2) [OF ok j(1)]
    by (intro db_ok_row [OF ok j(1) _ d'])
      (auto simp: extend_row_def jobs_check_def leased_to_def lease_ok_def)
qed

lemma cancel_preserves:
  assumes ok: "db_ok d" and cancel: "cancel_txn now i d = Inr (a, d')"
  shows "db_ok d'"
proof -
  obtain j where j: "j \<in> set (jobs d)" "cancellable i j"
    using cancel cancel_refused [of d i now] by auto
  with cancel cancel_effect [OF ok j, of now] have
      d': "d' = d\<lparr>jobs := sql_update (\<lambda>x. ID x = ID j) (cancel_row now) (jobs d),
        dead_letters := dead_letters d\<rparr>"
    by (auto simp: cancellable_def)
  show ?thesis
    using not_dead_letter [OF ok j(1)] j(2) db_okD(3) [OF ok] db_ok_job(1,2) [OF ok j(1)]
    by (intro db_ok_row [OF ok j(1) _ d'])
      (auto simp: cancel_row_def jobs_check_def cancellable_def lease_ok_def)
qed

lemma requeue_preserves:
  assumes ok: "db_ok d" and requeue: "requeue_txn now i d = Inr (a, d')"
  shows "db_ok d'"
proof -
  obtain j where j: "j \<in> set (jobs d)" "requeueable i j"
    using requeue requeue_refused [of d i now] by auto
  with requeue requeue_effect [OF ok j, of now] have
      d': "d' = d\<lparr>jobs := sql_update (\<lambda>x. ID x = ID j) (requeue_row now) (jobs d),
        dead_letters := sql_delete (\<lambda>x. d_job_id x = ID j) (dead_letters d)\<rparr>"
    by (auto simp: requeueable_def)
  show ?thesis
    using j(2) db_okD(3) [OF ok] db_ok_job(1,2) [OF ok j(1)]
    by (intro db_ok_row [OF ok j(1) _ d'])
      (auto simp: requeue_row_def jobs_check_def requeueable_def lease_ok_def sql_delete_def
        distinct_map_filter)
qed

section \<open>Dequeue\<close>

text \<open>
  The two statements that reclaim expired leases, together: the runs are closed and the jobs
  are ready again.
\<close>

definition reclaimed :: "time \<Rightarrow> db \<Rightarrow> db" where
  "reclaimed now d = d\<lparr>
     jobs := sql_update (expired now) (reclaim_row now) (jobs d),
     job_runs := close_runs now Failed (Some lease_expired_msg)
       (ID ` set (filter (expired now) (jobs d))) (job_runs d)\<rparr>"

text \<open>Claiming the picked jobs and recording their runs, together.\<close>

definition claimed_rows :: "time \<Rightarrow> string \<Rightarrow> duration \<Rightarrow> job list \<Rightarrow> db \<Rightarrow> job list" where
  "claimed_rows now w lease P d =
     map (claim_row now w lease) (filter (\<lambda>j. ID j \<in> ID ` set P) (jobs d))"

definition claimed :: "time \<Rightarrow> (nat \<Rightarrow> uuid) \<Rightarrow> string \<Rightarrow> duration \<Rightarrow> job list \<Rightarrow> db \<Rightarrow> db" where
  "claimed now newids w lease P d = d\<lparr>
     jobs := sql_update (\<lambda>j. ID j \<in> ID ` set P) (claim_row now w lease) (jobs d),
     job_runs := job_runs d @ new_runs now newids 0 (claimed_rows now w lease P d)\<rparr>"

lemma expired_ID:
  assumes "db_ok d" "j \<in> set (jobs d)"
  shows "ID j \<in> ID ` set (filter (expired now) (jobs d)) \<longleftrightarrow> expired now j"
  using assms distinct_key_unique [OF db_okD(1) [OF assms(1)]] by (auto simp: image_iff)

lemma reclaimed_preserves:
  assumes ok: "db_ok d"
  shows "db_ok (reclaimed now d)"
proof (rule db_ok_change [OF ok, where p = "expired now" and f = "reclaim_row now"])
  let ?K = "ID ` set (filter (expired now) (jobs d))"
  let ?rs = "close_runs now Failed (Some lease_expired_msg) ?K (job_runs d)"
  show "keeps_key (reclaim_row now)" by simp
  show "reclaimed now d = d\<lparr>jobs := sql_update (expired now) (reclaim_row now) (jobs d),
      job_runs := ?rs, dead_letters := dead_letters d\<rparr>"
    by (simp add: reclaimed_def)
  show "distinct (map r_id ?rs)"
    using db_okD(2) [OF ok] by (simp add: table_simps)
  show "r_job_id ` set ?rs \<subseteq> ID ` set (jobs d)"
    using db_ok_runs(1) [OF ok] by (simp add: table_simps)
  show "\<forall>r \<in> set ?rs. run_closed_ok r"
    using db_ok_runs(2) [OF ok] by (intro close_runs_closed) auto
  fix j assume j: "j \<in> set (jobs d)"
  note facts = db_ok_job [OF ok j] expired_ID [OF ok j, of now]
  show "jobs_check (reclaim_row now j) \<and> lease_ok (reclaim_row now j) \<and>
      runs_ok (reclaimed now d) (reclaim_row now j) \<and> dead_ok (reclaimed now d) (reclaim_row now j)"
    if "expired now j"
    using facts that
    by (simp add: jobs_check_def lease_ok_def runs_simps dead_ok_def reclaimed_def table_simps)
      (simp add: reclaim_row_def expired_def)
  show "runs_ok (reclaimed now d) j \<and> dead_ok (reclaimed now d) j" if "\<not> expired now j"
    using facts that by (simp add: runs_simps dead_ok_def reclaimed_def table_simps)
qed (use db_okD(3) [OF ok] db_ok_runs(3) [OF ok] in simp_all)

lemma picked_ready:
  "j \<in> set (picked now locked queues limit d) \<Longrightarrow> j \<in> set (jobs d) \<and> eligible now locked queues j"
  using set_sql_limit [of limit "sql_order_by pick_order (filter (eligible now locked queues) (jobs d))"]
  by (auto simp: picked_def)

lemma picked_ID:
  assumes "distinct (map ID (jobs d))" "j \<in> set (jobs d)"
  shows "ID j \<in> ID ` set (picked now locked queues limit d) \<longleftrightarrow> j \<in> set (picked now locked queues limit d)"
proof
  assume "ID j \<in> ID ` set (picked now locked queues limit d)"
  then obtain x where x: "x \<in> set (picked now locked queues limit d)" "ID j = ID x"
    by auto
  with distinct_key_unique [OF assms _ x(2)] picked_ready [OF x(1)] show "j \<in> set (picked now locked queues limit d)"
    by simp
qed simp

lemma claimed_of_job:
  assumes "distinct (map ID (jobs d))" "j \<in> set (jobs d)"
  shows "filter (\<lambda>x. ID x = ID j) (claimed_rows now w lease P d) =
    (if ID j \<in> ID ` set P then [claim_row now w lease j] else [])"
proof -
  have "filter (\<lambda>x. ID x = ID j) (claimed_rows now w lease P d) =
      map (claim_row now w lease) (filter (\<lambda>x. ID x = ID j \<and> ID x \<in> ID ` set P) (jobs d))"
    unfolding claimed_rows_def by (simp add: filter_map comp_def keeps_keyD conj_commute)
  then show ?thesis
    using filter_key_guard [OF assms refl, of "\<lambda>x. ID x \<in> ID ` set P"] by simp
qed

lemma claimed_preserves:
  assumes ok: "db_ok d" and P: "P = picked now locked queues limit d"
    and fresh: "distinct (map r_id (job_runs (claimed now newids w lease P d)))"
    and room: "\<forall>j \<in> set P. Attempts j < max_int32"
  shows "db_ok (claimed now newids w lease P d)"
proof (rule db_ok_change [OF ok, where p = "\<lambda>j. ID j \<in> ID ` set P" and f = "claim_row now w lease"])
  let ?d = "claimed now newids w lease P d"
  let ?js = "claimed_rows now w lease P d"
  let ?rs = "job_runs d @ new_runs now newids 0 ?js"
  show "keeps_key (claim_row now w lease)" by simp
  show "?d = d\<lparr>jobs := sql_update (\<lambda>j. ID j \<in> ID ` set P) (claim_row now w lease) (jobs d),
      job_runs := ?rs, dead_letters := dead_letters d\<rparr>"
    by (simp add: claimed_def)
  show "distinct (map r_id ?rs)"
    using fresh by (simp add: claimed_def)
  have "ID ` set ?js \<subseteq> ID ` set (jobs d)"
    unfolding claimed_rows_def set_map image_image by (simp add: keeps_keyD) blast
  then show "r_job_id ` set ?rs \<subseteq> ID ` set (jobs d)"
    using db_ok_runs(1) [OF ok] by (auto simp: image_Un new_runs_jobs)
  show "\<forall>r \<in> set ?rs. run_closed_ok r"
    using db_ok_runs(2) [OF ok] new_runs_closed by auto
  fix j assume j: "j \<in> set (jobs d)"
  note old = db_ok_job [OF ok j]
  have runs: "map r_attempt (open_runs (ID j) ?d) = map r_attempt (open_runs (ID j) d) @
      (if ID j \<in> ID ` set P then [Attempts j + 1] else [])"
    and count: "length (runs_of (ID j) ?d) = length (runs_of (ID j) d) + (if ID j \<in> ID ` set P then 1 else 0)"
    using claimed_of_job [OF db_okD(1) [OF ok] j, of now w lease P]
    by (simp_all add: open_runs_def runs_of_def claimed_def new_runs_open new_runs_length)
      (simp_all add: claim_row_def)
  show "jobs_check (claim_row now w lease j) \<and> lease_ok (claim_row now w lease j) \<and>
      runs_ok ?d (claim_row now w lease j) \<and> dead_ok ?d (claim_row now w lease j)"
    if hit: "ID j \<in> ID ` set P"
  proof -
    have "j \<in> set P" using hit picked_ID [OF db_okD(1) [OF ok] j] P by blast
    then have "Status j = Ready" "Attempts j < max_int32"
      using room picked_ready P by (auto simp: eligible_def)
    moreover have "dead_letters ?d = dead_letters d" by (simp add: claimed_def)
    ultimately show ?thesis
      using old hit
      by (simp add: runs_ok_def runs count keeps_keyD jobs_check_def lease_ok_def dead_ok_def)
        (simp add: claim_row_def)
  qed
  show "runs_ok ?d j \<and> dead_ok ?d j" if "ID j \<notin> ID ` set P"
    using old that by (simp add: runs_ok_def runs count dead_ok_def) (simp add: claimed_def)
qed (use db_okD(3) [OF ok] db_ok_runs(3) [OF ok] in simp_all)

text \<open>What a successful \<open>Dequeue\<close> did.\<close>

lemma dequeue_effect:
  assumes ok: "db_ok d"
    and deq: "dequeue_txn now newids locked queues limit w lease d = Inr (js, d')"
    and P: "P = picked now locked (default_queues queues) (default_limit limit) (reclaimed now d)"
  shows "js = claimed_rows now w lease P (reclaimed now d)"
    and "d' = claimed now newids w lease P (reclaimed now d)"
    and "distinct (map r_id (job_runs d'))"
    and "\<forall>j \<in> set P. Attempts j < max_int32"
proof -
  let ?d1 = "reclaimed now d"
  have close: "close_expired_runs now d = Inr ((), d\<lparr>job_runs := job_runs ?d1\<rparr>)"
    by (simp add: close_expired_runs_def reclaimed_def close_runs_def)
  have reclaim: "reclaim_expired now (d\<lparr>job_runs := job_runs ?d1\<rparr>) = Inr ((), ?d1)"
    by (simp add: reclaim_expired_def reclaimed_def)
  obtain d2 where claim: "claim_ready now locked (default_queues queues) (default_limit limit) w lease ?d1 = Inr (js, d2)"
    and runs: "insert_runs_txn now newids 0 js d2 = Inr ((), d')"
    using deq unfolding dequeue_txn_def Let_def by (auto simp: thenE_Inr close reclaim)
  from claim have js: "js = claimed_rows now w lease P ?d1"
      and d2: "d2 = ?d1\<lparr>jobs := sql_update (\<lambda>j. ID j \<in> ID ` set P) (claim_row now w lease) (jobs ?d1)\<rparr>"
      and room: "\<forall>j \<in> set P. Attempts j < max_int32"
    by (auto simp: claim_ready_def Let_def claimed_rows_def not_le P split: if_splits)
  have "distinct (map r_id (job_runs d2))"
    using db_okD(2) [OF reclaimed_preserves [OF ok, of now]] by (simp add: d2)
  from insert_runs_effect [OF runs this]
  have d': "d' = d2\<lparr>job_runs := job_runs d2 @ new_runs now newids 0 js\<rparr>" and dist: "distinct (map r_id (job_runs d'))"
    by blast+
  show "js = claimed_rows now w lease P ?d1" by (rule js)
  show "d' = claimed now newids w lease P ?d1" by (simp add: d' d2 claimed_def js)
  show "distinct (map r_id (job_runs d'))" by (rule dist)
  show "\<forall>j \<in> set P. Attempts j < max_int32" by (rule room)
qed

lemma dequeue_preserves:
  assumes ok: "db_ok d"
    and deq: "dequeue_txn now newids locked queues limit w lease d = Inr (js, d')"
  shows "db_ok d'"
proof -
  note eff = dequeue_effect [OF ok deq refl]
  show ?thesis
    using eff(3) claimed_preserves [OF reclaimed_preserves [OF ok] refl _ eff(4)]
    by (simp only: eff(2))
qed

section \<open>Enqueue\<close>

lemma insert_tenant_effect:
  assumes "insert_tenant i name d = Inr (u, d')"
  shows "jobs d' = jobs d" "job_runs d' = job_runs d" "dead_letters d' = dead_letters d"
    "schedules d' = schedules d"
    "t_id ` set (tenants d') = insert i (t_id ` set (tenants d))"
  using assms by (auto simp: insert_tenant_def split: if_splits)

lemma insert_tenant_preserves:
  assumes ok: "db_ok d" and ins: "insert_tenant i name d = Inr (u, d')"
  shows "db_ok d'"
proof -
  have "distinct (map t_id (tenants d'))" "distinct (map t_name (tenants d'))"
    using ok ins by (auto simp: insert_tenant_def db_ok_defs split: if_splits)
  with ok insert_tenant_effect [OF ins] show ?thesis
    by (simp add: db_ok_defs runs_simps dead_ok_def)
qed

lemma no_runs_of_unknown:
  assumes "db_ok d" "i \<notin> ID ` set (jobs d)"
  shows "runs_of i d = []" "open_runs i d = []" "i \<notin> d_job_id ` set (dead_letters d)"
  using assms db_ok_runs(1,3) [OF assms(1)]
  by (auto simp: runs_of_def open_runs_def filter_empty_conv)

lemma insert_job_row_preserves:
  assumes ok: "db_ok d" and ins: "insert_job_row j d = Inr (j', d')"
    and j: "jobs_check j" "Status j = Ready" "LockedBy j = None" "LockedUntil j = None" "Attempts j = 0"
      "idem_key j \<noteq> None \<Longrightarrow> the (idem_key j) \<notin> set (idem_keys (jobs d))"
  shows "db_ok d'"
proof -
  from ins have fresh: "ID j \<notin> ID ` set (jobs d)" and tenant: "TenantID j \<in> t_id ` set (tenants d)"
      and d': "d' = d\<lparr>jobs := jobs d @ [j]\<rparr>"
    by (auto simp: insert_job_row_def split: if_splits)
  note none = no_runs_of_unknown [OF ok fresh]
  have same: "runs_ok d' x = runs_ok d x" "dead_ok d' x = dead_ok d x" for x
    by (simp_all add: d' runs_simps dead_ok_def)
  have "runs_ok d j" "dead_ok d j" "lease_ok j"
    using none j by (simp_all add: runs_ok_def dead_ok_def lease_ok_def)
  moreover have "distinct (idem_keys (jobs d @ [j]))"
    using db_okD(4) [OF ok] j(6) by (auto split: option.splits)
  ultimately show ?thesis
    using ok fresh tenant j(1)
    unfolding db_ok_def schema_ok_def queue_ok_def same
    by (simp add: d' ball_Un)
qed

lemma new_job_simps [simp]:
  "ID (new_job now i payload key p) = i"
  "TenantID (new_job now i payload key p) = p_TenantID p"
  "Queue (new_job now i payload key p) = p_Queue p"
  "Handler (new_job now i payload key p) = p_Handler p"
  "Payload (new_job now i payload key p) = payload"
  "Status (new_job now i payload key p) = Ready"
  "Priority (new_job now i payload key p) = p_Priority p"
  "Attempts (new_job now i payload key p) = 0"
  "MaxAttempts (new_job now i payload key p) = p_MaxAttempts p"
  "RunAt (new_job now i payload key p) = p_RunAt p"
  "LockedBy (new_job now i payload key p) = None"
  "LockedUntil (new_job now i payload key p) = None"
  "IdempotencyKey (new_job now i payload key p) = key"
  "idem_key (new_job now i payload key p) = map_option (Pair (p_TenantID p)) key"
  by (simp_all add: new_job_def idem_key_def)

lemma sql_update_self [simp]: "sql_update p (\<lambda>r. r) rows = rows"
  by (induction rows) auto

lemma insert_job_preserves:
  assumes "db_ok d" "insert_job X now i p d = Inr (j, d')"
  shows "db_ok d'"
  using assms(2)
  by (auto simp: insert_job_def Let_def split: option.splits if_splits
      intro: insert_job_row_preserves [OF assms(1)])

lemma insert_job_idem_preserves:
  assumes "db_ok d" "insert_job_idem X now i p d = Inr (jc, d')"
  shows "db_ok d'"
proof (cases "jsonb_in X (p_Payload p)")
  case None
  with assms(2) show ?thesis by (simp add: insert_job_idem_def)
next
  case (Some payload)
  let ?j = "new_job now i payload (Some (p_IdempotencyKey p)) p"
  have check: "jobs_check ?j"
    using assms(2) Some by (simp add: insert_job_idem_def Let_def split: if_splits)
  show ?thesis
  proof (cases "find (\<lambda>r. idem_key r = idem_key ?j) (jobs d)")
    case None
    with assms(2) Some check have "insert_job_row ?j d = Inr (fst jc, d')"
      by (auto simp: insert_job_idem_def thenE_Inr)
    moreover have "the (idem_key ?j) \<notin> set (idem_keys (jobs d))"
      using None by (auto simp: find_None_iff set_idem_keys)
    ultimately show ?thesis
      using check by (intro insert_job_row_preserves [OF assms(1)]) auto
  next
    case (Some r)
    with assms \<open>jsonb_in X (p_Payload p) = _\<close> check show ?thesis
      by (auto simp: insert_job_idem_def)
  qed
qed

lemma enqueue_insert_preserves:
  assumes "db_ok d" "enqueue_insert X now i el p d = Inr (r, d')"
  shows "db_ok d'"
  using assms insert_job_preserves [OF assms(1)] insert_job_idem_preserves [OF assms(1)]
  by (auto simp: enqueue_insert_def thenE_Inr split: if_splits)

lemma enqueue_preserves:
  assumes "db_ok d" "enqueue_txn X gonow now i el p d = Inr (r, d')"
  shows "db_ok d'"
  using assms(2) unfolding enqueue_txn_def Let_def thenE_Inr
  by (blast intro: insert_tenant_preserves [OF assms(1)] enqueue_insert_preserves)

section \<open>The programs keep the invariant\<close>

text \<open>Whatever round trips fail, and whether or not the caller learns the outcome.\<close>

lemma run_preserves:
  assumes "atomic m f" "\<And>d a d'. db_ok d \<Longrightarrow> f d = Inr (a, d') \<Longrightarrow> db_ok d'"
    and "working s = None" "run_state m s = (r, s')" "db_ok (committed s)"
  shows "working s' = None \<and> db_ok (committed s')"
proof -
  have "committed s' = committed s \<or> (\<exists>a. f (committed s) = Inr (a, committed s'))"
    using atomicD(3,5) [OF assms(1,3,4)] by (cases r) auto
  with assms(2,5) atomicD(1) [OF assms(1,3,4)] show ?thesis by auto
qed

lemma ack_run_preserves:
  assumes "working s = None" "run_state (Ack now i w) s = (r, s')" "db_ok (committed s)"
  shows "working s' = None \<and> db_ok (committed s')"
  by (rule run_preserves [OF ack.atomic _ assms]) (rule ack_preserves)

lemma nack_run_preserves:
  assumes "working s = None" "run_state (Nack oob q now i w cause) s = (r, s')" "db_ok (committed s)"
  shows "working s' = None \<and> db_ok (committed s')"
  by (rule run_preserves [OF nack.atomic _ assms]) (rule nack_preserves)

lemma extend_run_preserves:
  assumes "working s = None" "run_state (ExtendLease now i w lease) s = (r, s')" "db_ok (committed s)"
  shows "working s' = None \<and> db_ok (committed s')"
  by (rule run_preserves [OF extend.atomic _ assms]) (rule extend_preserves)

lemma cancel_run_preserves:
  assumes "working s = None" "run_state (Cancel now i) s = (r, s')" "db_ok (committed s)"
  shows "working s' = None \<and> db_ok (committed s')"
  by (rule run_preserves [OF cancel.atomic _ assms]) (rule cancel_preserves)

lemma requeue_run_preserves:
  assumes "working s = None" "run_state (RequeueDLQ now i) s = (r, s')" "db_ok (committed s)"
  shows "working s' = None \<and> db_ok (committed s')"
  by (rule run_preserves [OF requeue.atomic _ assms]) (rule requeue_preserves)

lemma dequeue_run_preserves:
  assumes "working s = None" "run_state (Dequeue now newids locked queues limit w lease) s = (r, s')" "db_ok (committed s)"
  shows "working s' = None \<and> db_ok (committed s')"
  by (rule run_preserves [OF dequeue.atomic _ assms]) (rule dequeue_preserves)

end
