(* ===== verification/Samples.thy ===== *)
theory Samples
  imports Queue_Invariant
begin

text \<open>
  Small concrete tables and library functions at which the theorems are instantiated, so
  that none of their hypotheses is empty: one tenant with one job, in any of its statuses,
  with the runs and the dead letter that belong to it.
\<close>

text \<open>An injective text form of a UUID, and a cron schedule that fires every minute.\<close>

definition sample_ext :: ext where
  "sample_ext = \<lparr>uuid_String = (\<lambda>u. replicate (unat u) CHR ''u''),
     uuid_Parse = (\<lambda>s. Some (of_nat (length s))),
     jsonb_in = (\<lambda>s. Some s),
     cron_Parse = (\<lambda>e. if e = '''' then Inl (ErrMessage ''empty spec string'') else Inr (\<lambda>t. t + 60000000))\<rparr>"

definition sample_job :: "status \<Rightarrow> job" where
  "sample_job st =
     \<lparr>ID = 7, TenantID = 1, Queue = ''default'', Handler = ''echo'', Payload = ''{}'',
      Status = st, Priority = 5, Attempts = (if st = Ready then 0 else 1), MaxAttempts = 1,
      RunAt = 10, LockedBy = (if st = Running then Some ''w1'' else None),
      LockedUntil = (if st = Running then Some 100 else None),
      IdempotencyKey = Some ''k'', LastError = None, CreatedAt = 5, UpdatedAt = 5\<rparr>"

definition sample_run :: "status \<Rightarrow> job_run" where
  "sample_run st =
     \<lparr>r_id = 70, r_job_id = 7, r_attempt = 1, r_started_at = 20,
      r_finished_at = (if st = Running then None else Some 30), r_status = st, r_error = None\<rparr>"

definition sample_db :: "status \<Rightarrow> db" where
  "sample_db st =
     \<lparr>tenants = [\<lparr>t_id = 1, t_name = ''default''\<rparr>], jobs = [sample_job st],
      job_runs = (if st = Ready then [] else [sample_run st]),
      dead_letters = (if st = Dead then [\<lparr>d_job_id = 7, d_dead_at = 30, d_reason = Some ''boom''\<rparr>] else []),
      schedules = []\<rparr>"

definition sample_pg :: "db \<Rightarrow> pg" where
  "sample_pg d = \<lparr>committed = d, working = None, advisory = None, faults = []\<rparr>"

definition sample_params :: EnqueueParams where
  "sample_params =
     \<lparr>p_TenantID = 0, p_Queue = '''', p_Handler = ''echo'', p_Payload = '''', p_Priority = 0,
      p_MaxAttempts = 0, p_RunAt = 0, p_IdempotencyKey = ''k''\<rparr>"

lemmas sample_defs = sample_ext_def sample_job_def sample_run_def sample_db_def sample_pg_def
  sample_params_def

lemma sample_db_ok: "db_ok (sample_db st)"
  by (cases st) (simp_all add: sample_defs db_ok_defs jobs_check_def max_int32_def lease_ok_def
      runs_simps dead_ok_def run_closed_ok_def idem_key_def)

lemma sample_pg_simps [simp]:
  "committed (sample_pg d) = d" "working (sample_pg d) = None" "faults (sample_pg d) = []"
  "advisory (sample_pg d) = None"
  by (simp_all add: sample_pg_def)

lemma sample_db_simps [simp]:
  "jobs (sample_db st) = [sample_job st]"
  "ID (sample_job st) = 7" "Status (sample_job st) = st"
  by (simp_all add: sample_db_def sample_job_def)

text \<open>The same tables with a schedule that is due at time 10.\<close>

definition sample_row :: schedule_row where
  "sample_row = \<lparr>sc_id = 9, sc_tenant_id = 1, sc_name = Some ''n'', sc_cron_expr = ''* * * * *'',
     sc_payload = None, sc_queue = None, sc_handler = ''echo'', sc_enabled = True,
     sc_last_run_at = None, sc_next_run_at = Some 10\<rparr>"

definition sample_sched_db :: db where
  "sample_sched_db = (sample_db Ready)\<lparr>schedules := [sample_row]\<rparr>"

lemma sample_sched_ok: "db_ok sample_sched_db"
  using sample_db_ok [of Ready]
  by (simp add: sample_sched_db_def db_ok_defs runs_simps dead_ok_def sample_row_def) (simp add: sample_db_def)

lemma sample_sched_simps [simp]:
  "schedules sample_sched_db = [sample_row]" "jobs sample_sched_db = [sample_job Ready]"
  "sc_enabled sample_row" "sc_next_run_at sample_row = Some 10" "sc_tenant_id sample_row = 1"
  "sc_payload sample_row = None" "sc_cron_expr sample_row = ''* * * * *''" "sc_id sample_row = 9"
  by (simp_all add: sample_sched_db_def sample_row_def)

lemma sample_ext_simps [simp]:
  "jsonb_in sample_ext t = Some t"
  "cron_Parse sample_ext e = (if e = '''' then Inl (ErrMessage ''empty spec string'') else Inr (\<lambda>t. t + 60000000))"
  by (simp_all add: sample_ext_def)

end
