(* ===== verification/Queue_Props.thy ===== *)
theory Queue_Props
  imports Queue_Invariant Samples
begin

text \<open>
  What the queue promises its callers, for every script of connection failures: idempotent
  enqueue, exclusive leases, priority order, recovery of expired leases, the two outcomes
  of a failed attempt, the status machine, and the queries.
\<close>

section \<open>Enqueue\<close>

lemma atomic_enqueue_insert:
  "atomic (if p_IdempotencyKey params = '''' then
        tryM (stmt (insert_job X now newid params)) (\<lambda>job. ok (job, True, elapsed))
      else
        tryM (stmt (insert_job_idem X now newid params)) (\<lambda>jc. ok (fst jc, snd jc, elapsed)))
    (enqueue_insert X now newid elapsed params)"
  unfolding enqueue_insert_def
  by (intro atomic_if atomic_tryM_ok [where h = "\<lambda>job. (job, True, elapsed)"]
      atomic_tryM_ok [where h = "\<lambda>jc. (fst jc, snd jc, elapsed)"] atomic_stmt)

text \<open>\<open>Enqueue\<close> is two statements: nothing, the tenant alone, or the whole took effect.\<close>

lemma enqueue_outcomes:
  assumes "working s = None" "run_state (Enqueue X gonow now i el p) s = (r, s')"
  defines "p' \<equiv> normalizeEnqueueParams gonow p"
  shows "working s' = None \<and> advisory s' = advisory s \<and>
    (committed s' = committed s \<or>
     (\<exists>d1. insert_tenant (p_TenantID p') (tenant_name X (p_TenantID p')) (committed s) = Inr ((), d1) \<and>
        (committed s' = d1 \<or> (\<exists>b. enqueue_insert X now i el p' d1 = Inr (b, committed s')))))"
  using atomic_seq [OF atomic_stmt atomic_enqueue_insert assms(1)
      assms(2) [unfolded Enqueue_def ensureTenant_def Let_def]]
  unfolding p'_def by auto

lemma enqueue_success:
  assumes "working s = None" "run_state (Enqueue X gonow now i el p) s = (Inr x, s')"
  shows "enqueue_txn X gonow now i el p (committed s) = Inr (x, committed s')"
proof -
  have "working s' = None"
    using enqueue_outcomes [OF assms] by simp
  with simD(4) [OF sim_enqueue assms(2) refl] assms(1) show ?thesis by simp
qed

text \<open>
  When \<open>Enqueue\<close> fails, nothing took effect or only the tenant was inserted; the job is there only
  when the reply to its insertion was lost.
\<close>

lemma enqueue_error:
  assumes "working s = None" "run_state (Enqueue X gonow now i el p) s = (Inl e, s')" "\<not> driver_error e"
  shows "jobs (committed s') = jobs (committed s) \<and> job_runs (committed s') = job_runs (committed s)"
  using atomic_seq_error [OF atomic_stmt atomic_enqueue_insert assms(1)
      assms(2) [unfolded Enqueue_def ensureTenant_def Let_def] assms(3)]
  by (elim disjE exE) (simp, auto simp: insert_tenant_def split: if_splits dest: sym)

lemma enqueue_prog_preserves:
  assumes "working s = None" "run_state (Enqueue X gonow now i el p) s = (r, s')" "db_ok (committed s)"
  shows "db_ok (committed s')"
  using enqueue_outcomes [OF assms(1,2)] assms(3)
  by (metis insert_tenant_preserves enqueue_insert_preserves)

lemma enqueue_insert_existing:
  assumes "distinct (idem_keys (jobs d))" "p_IdempotencyKey p \<noteq> ''''"
    and "j \<in> set (jobs d)" "idem_key j = Some (p_TenantID p, p_IdempotencyKey p)"
    and "enqueue_insert X now i el p d = Inr (x, d')"
  shows "d' = d \<and> x = (j, False, el)"
proof -
  let ?P = "\<lambda>r. idem_key r = Some (p_TenantID p, p_IdempotencyKey p)"
  have "find ?P (jobs d) = Some j"
    using assms(1,3,4)
  proof (induction "jobs d" arbitrary: d)
    case (Cons r rs)
    show ?case
    proof (cases "?P r")
      case True
      have "j = r"
      proof (rule ccontr)
        assume "j \<noteq> r"
        with Cons.prems(2) Cons.hyps(2) have "j \<in> set rs" by (metis set_ConsD)
        with Cons.prems(3) have "(p_TenantID p, p_IdempotencyKey p) \<in> set (idem_keys rs)"
          by (auto simp: set_idem_keys)
        with True Cons.prems(1) Cons.hyps(2) [symmetric] show False by simp
      qed
      with True Cons.hyps(2) [symmetric] show ?thesis by simp
    next
      case False
      with Cons.prems Cons.hyps(2) [symmetric] Cons.hyps(1) [of "d\<lparr>jobs := rs\<rparr>"] show ?thesis
        by (auto split: option.splits)
    qed
  qed simp
  with assms(2,5) show ?thesis
    by (auto simp: enqueue_insert_def thenE_Inr insert_job_idem_def Let_def split: option.splits if_splits)
qed

text \<open>
  C13: idempotent enqueue. Once a job with a tenant and an idempotency key exists, no later
  \<open>Enqueue\<close> with that tenant and key changes the table of jobs, whatever round trips fail
  and whatever else its parameters say; if it returns at all without an error it returns
  the existing job and reports that it was not created.
\<close>

theorem Enqueue_idempotent:
  assumes "working s = None" "db_ok (committed s)"
    and "run_state (Enqueue X gonow now i el p) s = (r, s')"
    and "p_IdempotencyKey p \<noteq> ''''"
    and "j \<in> set (jobs (committed s))"
    and "idem_key j = Some (p_TenantID (normalizeEnqueueParams gonow p), p_IdempotencyKey p)"
  shows "jobs (committed s') = jobs (committed s) \<and> (\<forall>x. r = Inr x \<longrightarrow> x = (j, False, el))"
proof -
  let ?p = "normalizeEnqueueParams gonow p"
  have key: "p_IdempotencyKey ?p = p_IdempotencyKey p"
    by (simp add: normalizeEnqueueParams_def Let_def)
  have insert: "d' = d1 \<and> x = (j, False, el)"
    if "insert_tenant a b (committed s) = Inr (u, d1)" "enqueue_insert X now i el ?p d1 = Inr (x, d')" for a b u d1 x d'
    using that(2) assms(4-6) insert_tenant_effect [OF that(1)] db_okD(4) [OF assms(2)]
    by (intro enqueue_insert_existing) (auto simp: key)
  have "jobs (committed s') = jobs (committed s)"
    using enqueue_outcomes [OF assms(1,3)] insert insert_tenant_effect(1) by metis
  moreover have "x = (j, False, el)" if "r = Inr x" for x
    using enqueue_success [OF assms(1) assms(3) [unfolded that]] insert
    unfolding enqueue_txn_def Let_def thenE_Inr by blast
  ultimately show ?thesis by blast
qed

lemma sample_idem_key:
  "idem_key (sample_job st) =
     Some (p_TenantID (normalizeEnqueueParams 0 sample_params), p_IdempotencyKey sample_params)"
  by (simp add: sample_params_def sample_job_def idem_key_def normalizeEnqueueParams_def
      DefaultTenantID_def Let_def)

lemma Enqueue_idempotent_witness:
  "jobs (committed (snd (run_state (Enqueue sample_ext 0 50 99 1 sample_params) (sample_pg (sample_db Ready))))) =
     [sample_job Ready]"
  using Enqueue_idempotent [OF _ _ prod.collapse [symmetric] _ _ sample_idem_key [of Ready],
      of "sample_pg (sample_db Ready)" sample_ext 50 99 1]
  by (simp add: sample_db_ok sample_params_def)

section \<open>Dequeue\<close>

text \<open>The jobs that \<open>Dequeue\<close> may hand out: ready ones, and running ones whose lease expired.\<close>

definition claimable :: "time \<Rightarrow> uuid list \<Rightarrow> string list \<Rightarrow> job \<Rightarrow> bool" where
  "claimable now locked queues j \<longleftrightarrow>
     (Status j = Ready \<or> expired now j) \<and> RunAt j \<le> now \<and> Queue j \<in> set queues \<and> ID j \<notin> set locked"

definition reclaim1 :: "time \<Rightarrow> job \<Rightarrow> job" where
  "reclaim1 now j = (if expired now j then reclaim_row now j else j)"

lemma jobs_reclaimed: "jobs (reclaimed now d) = map (reclaim1 now) (jobs d)"
  by (simp add: reclaimed_def sql_update_def reclaim1_def cong: map_cong)

lemma reclaim1_simps [simp]:
  "ID (reclaim1 now j) = ID j" "pick_order (reclaim1 now j) = pick_order j"
  "Attempts (reclaim1 now j) = Attempts j" "MaxAttempts (reclaim1 now j) = MaxAttempts j"
  "eligible now locked queues (reclaim1 now j) = claimable now locked queues j"
  by (auto simp: reclaim1_def reclaim_row_def pick_order_def eligible_def claimable_def expired_def)

lemma eligible_reclaimed:
  "filter (eligible now locked queues) (jobs (reclaimed now d)) =
   map (reclaim1 now) (filter (claimable now locked queues) (jobs d))"
  by (simp add: jobs_reclaimed filter_map comp_def)

lemma claim_row_simps [simp]:
  "ID (claim_row now w lease j) = ID j" "Status (claim_row now w lease j) = Running"
  "LockedBy (claim_row now w lease j) = Some w"
  "LockedUntil (claim_row now w lease j) = Some (now + intervalLiteral lease)"
  "Attempts (claim_row now w lease j) = Attempts j + 1"
  "MaxAttempts (claim_row now w lease j) = MaxAttempts j"
  "pick_order (claim_row now w lease j) = pick_order j"
  by (simp_all add: claim_row_def pick_order_def)

lemma map_ID_claimed_rows:
  assumes "distinct (map ID (jobs d))"
  shows "distinct (map ID (claimed_rows now w lease (picked now locked queues limit d) d)) \<and>
    set (claimed_rows now w lease (picked now locked queues limit d) d) =
      claim_row now w lease ` set (picked now locked queues limit d)"
proof
  let ?P = "picked now locked queues limit d"
  show "distinct (map ID (claimed_rows now w lease ?P d))"
    using assms by (simp add: claimed_rows_def comp_def distinct_map_filter)
  show "set (claimed_rows now w lease ?P d) = claim_row now w lease ` set ?P"
    using picked_ID [OF assms] picked_ready by (fastforce simp: claimed_rows_def)
qed

lemma length_claimed_rows:
  assumes "distinct (map ID (jobs d))"
  shows "length (claimed_rows now w lease (picked now locked queues limit d) d) =
    length (picked now locked queues limit d)"
proof -
  let ?P = "picked now locked queues limit d" and ?C = "claimed_rows now w lease (picked now locked queues limit d) d"
  have "distinct (map ID ?P)"
    unfolding picked_def using assms by (intro distinct_map_order_limit distinct_map_filter)
  then have "length ?P = card (set (map ID ?P))" by (metis distinct_card length_map)
  moreover have "length ?C = card (set (map ID ?C))"
    using map_ID_claimed_rows [OF assms] by (metis distinct_card length_map)
  moreover have "set (map ID ?C) = set (map ID ?P)"
    using map_ID_claimed_rows [OF assms, of now w lease] by (simp add: image_image)
  ultimately show ?thesis by simp
qed

text \<open>What a successful transaction hands out, in terms of the tables before it.\<close>

lemma dequeue_result:
  assumes ok: "db_ok d"
    and deq: "dequeue_txn now newids locked queues limit w lease d = Inr (js, d')"
  shows "distinct (map ID js)"
    and "\<And>j. j \<in> set js \<Longrightarrow> \<exists>j0 \<in> set (jobs d). claimable now locked (default_queues queues) j0 \<and>
      j = claim_row now w lease (reclaim1 now j0)"
    and "length js = min (nat (default_limit limit))
      (length (filter (claimable now locked (default_queues queues)) (jobs d)))"
    and "\<And>j j0. j \<in> set js \<Longrightarrow> j0 \<in> set (jobs d) \<Longrightarrow> claimable now locked (default_queues queues) j0 \<Longrightarrow>
      ID j0 \<notin> ID ` set js \<Longrightarrow> pick_order j \<le> pick_order j0"
    and "jobs d' = map (\<lambda>j. if ID j \<in> ID ` set js then claim_row now w lease (reclaim1 now j)
      else reclaim1 now j) (jobs d)"
proof -
  let ?d1 = "reclaimed now d" and ?q = "default_queues queues" and ?l = "default_limit limit"
  let ?P = "picked now locked ?q ?l ?d1"
  note eff = dequeue_effect [OF ok deq refl]
  have dist: "distinct (map ID (jobs ?d1))"
    using db_okD(1) [OF ok] by (simp add: jobs_reclaimed comp_def)
  note rows = map_ID_claimed_rows [OF dist, of now w lease locked ?q ?l, folded eff(1)]
  show "distinct (map ID js)" using rows by blast
  have ids: "ID ` set js = ID ` set ?P" using rows by (simp add: image_image)
  have origin: "\<exists>p \<in> set ?P. j = claim_row now w lease p" if "j \<in> set js" for j
    using that unfolding rows [THEN conjunct2] by (rule imageE) (rule bexI)
  show "\<exists>j0 \<in> set (jobs d). claimable now locked ?q j0 \<and> j = claim_row now w lease (reclaim1 now j0)"
    if j: "j \<in> set js" for j
  proof -
    obtain p where p: "p \<in> set ?P" "j = claim_row now w lease p" using origin [OF j] by (elim bexE)
    obtain j0 where "j0 \<in> set (jobs d)" "p = reclaim1 now j0"
      using picked_ready [OF p(1)] unfolding jobs_reclaimed by auto
    with p(2) picked_ready [OF p(1)] show ?thesis by auto
  qed
  show "length js = min (nat ?l) (length (filter (claimable now locked ?q) (jobs d)))"
    unfolding eff(1) length_claimed_rows [OF dist]
    by (simp add: picked_def length_sql_limit eligible_reclaimed)
  show "pick_order j \<le> pick_order j0"
    if j: "j \<in> set js" and "j0 \<in> set (jobs d)" "claimable now locked ?q j0" "ID j0 \<notin> ID ` set js" for j j0
  proof -
    obtain p where p: "p \<in> set ?P" "j = claim_row now w lease p" using origin [OF j] by (elim bexE)
    have "reclaim1 now j0 \<notin> set ?P" using that(4) unfolding ids by (metis imageI reclaim1_simps(1))
    moreover have "reclaim1 now j0 \<in> set (filter (eligible now locked ?q) (jobs ?d1))"
      using that(2,3) by (simp add: jobs_reclaimed)
    ultimately have "pick_order p \<le> pick_order (reclaim1 now j0)"
      using p(1) unfolding picked_def by (intro sql_limit_dominates)
    with p(2) show ?thesis by simp
  qed
  show "jobs d' = map (\<lambda>j. if ID j \<in> ID ` set js then claim_row now w lease (reclaim1 now j)
      else reclaim1 now j) (jobs d)"
    unfolding ids eff(2) by (simp add: claimed_def jobs_reclaimed sql_update_def cong: map_cong)
qed

text \<open>
  C4: a successful \<open>Dequeue\<close> hands out distinct jobs that were ready or had an expired lease,
  were due, in the requested queues and not locked by another transaction; as many as the
  limit and the number of such jobs allow; and none that is behind, in priority and then in
  due time, a job it left. Each returned job is the row now in the table, leased to the
  worker for the interval of the lease, with one more attempt.
\<close>

theorem Dequeue_best_first:
  assumes "working s = None" "db_ok (committed s)"
    and "run_state (Dequeue now newids locked queues limit w lease) s = (Inr js, s')"
  shows "distinct (map ID js) \<and>
    length js = min (nat (default_limit limit))
      (length (filter (claimable now locked (default_queues queues)) (jobs (committed s)))) \<and>
    (\<forall>j \<in> set js. find_job (ID j) (committed s') = Some j \<and> Status j = Running \<and> LockedBy j = Some w \<and>
       LockedUntil j = Some (now + intervalLiteral lease) \<and>
       (\<exists>j0 \<in> set (jobs (committed s)). ID j0 = ID j \<and> claimable now locked (default_queues queues) j0 \<and>
          Attempts j = Attempts j0 + 1) \<and>
       (\<forall>j0 \<in> set (jobs (committed s)). claimable now locked (default_queues queues) j0 \<longrightarrow>
          ID j0 \<in> ID ` set js \<or> - Priority j < - Priority j0 \<or>
          Priority j = Priority j0 \<and> RunAt j \<le> RunAt j0))"
proof -
  note txn = dequeue.success [OF assms(1,3)]
  note res = dequeue_result [OF assms(2) txn]
  have dist: "distinct (map ID (jobs (committed s')))"
    by (rule db_okD(1) [OF dequeue_preserves [OF assms(2) txn]])
  have row: "find_job (ID j) (committed s') = Some j \<and> Status j = Running \<and> LockedBy j = Some w \<and>
       LockedUntil j = Some (now + intervalLiteral lease) \<and>
       (\<exists>j0 \<in> set (jobs (committed s)). ID j0 = ID j \<and> claimable now locked (default_queues queues) j0 \<and>
          Attempts j = Attempts j0 + 1)" if j: "j \<in> set js" for j
  proof -
    obtain j0 where j0: "j0 \<in> set (jobs (committed s))" "claimable now locked (default_queues queues) j0"
        "j = claim_row now w lease (reclaim1 now j0)"
      using res(2) [OF j] by blast
    then have "j \<in> set (jobs (committed s'))"
      using j j0 imageI [OF j, of ID] unfolding res(5) set_map by (intro image_eqI [of _ _ j0]) simp_all
    with dist have "find_job (ID j) (committed s') = Some j" by (simp add: find_job_eq)
    with j0 show ?thesis by auto
  qed
  have "ID j0 \<in> ID ` set js \<or> - Priority j < - Priority j0 \<or> Priority j = Priority j0 \<and> RunAt j \<le> RunAt j0"
    if "j \<in> set js" "j0 \<in> set (jobs (committed s))" "claimable now locked (default_queues queues) j0" for j j0
    using res(4) [OF that] by (auto simp: pick_order_def)
  with res(1,3) row show ?thesis by blast
qed

text \<open>The sample job is handed out when it is ready, and when its lease is over.\<close>

lemma sample_dequeue_txn:
  "dequeue_txn 50 (\<lambda>_. 200) [] [] 0 w l (sample_db Ready) =
     Inr ([claim_row 50 w l (sample_job Ready)],
       claimed 50 (\<lambda>_. 200) w l [sample_job Ready] (sample_db Ready))"
  by (simp add: dequeue_txn_def thenE_def okE_def close_expired_runs_def reclaim_expired_def
      claim_ready_def picked_def sql_limit_def sql_order_by_def default_queues_def default_limit_def
      eligible_def expired_def insert_job_run_def claimed_def claimed_rows_def run_row_def
      sample_defs max_int32_def)

lemma sample_dequeue:
  "run_state (Dequeue 50 (\<lambda>_. 200) [] [] 0 w l) (sample_pg (sample_db Ready)) =
     (Inr [claim_row 50 w l (sample_job Ready)],
      sample_pg (claimed 50 (\<lambda>_. 200) w l [sample_job Ready] (sample_db Ready)))"
  using dequeue.fault_free [of "sample_pg (sample_db Ready)" 50 "\<lambda>_. 200" "[]" "[]" 0 w l]
  by (simp add: sample_dequeue_txn sample_pg_def)

lemma sample_dequeue_expired_txn:
  "dequeue_txn 500 (\<lambda>_. 200) [] [] 0 w l (sample_db Running) =
     Inr ([claim_row 500 w l (reclaim_row 500 (sample_job Running))],
       claimed 500 (\<lambda>_. 200) w l [reclaim_row 500 (sample_job Running)] (reclaimed 500 (sample_db Running)))"
  by (simp add: dequeue_txn_def thenE_def okE_def close_expired_runs_def reclaim_expired_def reclaim_row_def
      claim_ready_def picked_def sql_limit_def sql_order_by_def default_queues_def default_limit_def
      eligible_def expired_def insert_job_run_def claimed_def claimed_rows_def run_row_def
      reclaimed_def close_runs_def sample_defs max_int32_def)

lemma sample_dequeue_expired:
  "run_state (Dequeue 500 (\<lambda>_. 200) [] [] 0 w l) (sample_pg (sample_db Running)) =
     (Inr [claim_row 500 w l (reclaim_row 500 (sample_job Running))],
      sample_pg (claimed 500 (\<lambda>_. 200) w l [reclaim_row 500 (sample_job Running)]
        (reclaimed 500 (sample_db Running))))"
  using dequeue.fault_free [of "sample_pg (sample_db Running)" 500 "\<lambda>_. 200" "[]" "[]" 0 w l]
  by (simp add: sample_dequeue_expired_txn sample_pg_def)

lemma Dequeue_best_first_witness:
  "find_job 7 (claimed 50 (\<lambda>_. 200) ''w1'' Second [sample_job Ready] (sample_db Ready)) =
     Some (claim_row 50 ''w1'' Second (sample_job Ready))"
  using Dequeue_best_first [OF _ _ sample_dequeue [of "''w1''" Second]] by (simp add: sample_db_ok)

text \<open>What \<open>Dequeue\<close> may do to one job, whether it returns or fails.\<close>

lemma dequeue_job:
  assumes "working s = None" "db_ok (committed s)"
    and "run_state (Dequeue now newids locked queues limit w lease) s = (r, s')"
    and "j \<in> set (jobs (committed s))"
  shows "\<exists>j' \<in> set (jobs (committed s')). j' = j \<or> j' = reclaim1 now j \<or>
    claimable now locked (default_queues queues) j \<and> j' = claim_row now w lease (reclaim1 now j)"
  using dequeue.all_or_nothing [OF assms(1,3)]
proof
  assume "\<exists>js. dequeue_txn now newids locked queues limit w lease (committed s) = Inr (js, committed s')"
  then obtain js where txn: "dequeue_txn now newids locked queues limit w lease (committed s) = Inr (js, committed s')"
    by blast
  note res = dequeue_result [OF assms(2) txn]
  show ?thesis
  proof (cases "ID j \<in> ID ` set js")
    case True
    then obtain j0 where "j0 \<in> set (jobs (committed s))" "claimable now locked (default_queues queues) j0" "ID j = ID j0"
      using res(2) by force
    then have "claimable now locked (default_queues queues) j"
      using distinct_key_unique [OF db_okD(1) [OF assms(2)] assms(4)] by blast
    with True assms(4) show ?thesis unfolding res(5) by auto
  qed (use assms(4) res(5) in auto)
qed (use assms(4) in auto)

lemma dequeue_keeps_running:
  assumes "working s = None" "db_ok (committed s)"
    and "run_state (Dequeue now newids locked queues limit w lease) s = (r, s')"
    and "j \<in> set (jobs (committed s))" "Status j = Running" "\<not> expired now j"
  shows "j \<in> set (jobs (committed s'))" and "r = Inr js \<Longrightarrow> ID j \<notin> ID ` set js"
proof -
  have same: "reclaim1 now j = j" "\<not> claimable now locked q j" for q
    using assms(5,6) by (simp_all add: reclaim1_def claimable_def)
  show "j \<in> set (jobs (committed s'))"
    using dequeue_job [OF assms(1-4)] same by auto
  show "ID j \<notin> ID ` set js" if r: "r = Inr js"
  proof
    assume "ID j \<in> ID ` set js"
    then obtain j0 where "j0 \<in> set (jobs (committed s))" "claimable now locked (default_queues queues) j0" "ID j = ID j0"
      using dequeue_result(2) [OF assms(2) dequeue.success [OF assms(1) assms(3) [unfolded r]]] by force
    with distinct_key_unique [OF db_okD(1) [OF assms(2)] assms(4)] same(2) show False by blast
  qed
qed

text \<open>
  C2: leases are exclusive. The jobs that one \<open>Dequeue\<close> hands out at \<open>now\<close> are handed out to
  nobody else by a \<open>Dequeue\<close> that follows before the lease is over, whatever queues and limit
  it asks for and whatever round trips of it fail, and their rows stay as the first left them.
\<close>

theorem Dequeue_exclusive:
  assumes "working s = None" "db_ok (committed s)"
    and "run_state (Dequeue now1 newids1 locked1 queues1 limit1 w1 lease) s = (Inr js, s1)"
    and "run_state (Dequeue now2 newids2 locked2 queues2 limit2 w2 lease2) s1 = (r, s2)"
    and "now2 \<le> now1 + intervalLiteral lease"
  shows "set js \<subseteq> set (jobs (committed s2)) \<and> (\<forall>js2. r = Inr js2 \<longrightarrow> ID ` set js \<inter> ID ` set js2 = {})"
proof -
  note txn = dequeue.success [OF assms(1,3)]
  note res = dequeue_result [OF assms(2) txn]
  note ok1 = dequeue_preserves [OF assms(2) txn]
  note w1 = dequeue.closed [OF assms(1,3)]
  have here: "j \<in> set (jobs (committed s1)) \<and> Status j = Running \<and> \<not> expired now2 j" if j: "j \<in> set js" for j
  proof -
    obtain j0 where "j0 \<in> set (jobs (committed s))" "j = claim_row now1 w1 lease (reclaim1 now1 j0)"
      using res(2) [OF j] by blast
    with j assms(5) imageI [OF j, of ID] show ?thesis
      unfolding res(5) set_map by (auto simp: expired_def intro!: image_eqI [of _ _ j0])
  qed
  have "ID j \<notin> ID ` set js2" if "j \<in> set js" "r = Inr js2" for j js2
    using dequeue_keeps_running(2) [OF w1 ok1 assms(4)] here that by blast
  with here dequeue_keeps_running(1) [OF w1 ok1 assms(4)] show ?thesis by blast
qed

lemma Dequeue_exclusive_witness:
  "claim_row 50 ''w1'' Second (sample_job Ready) \<in> set (jobs (committed (snd (run_state
     (Dequeue 60 (\<lambda>_. 300) [] [] 5 ''w2'' Second)
     (sample_pg (claimed 50 (\<lambda>_. 200) ''w1'' Second [sample_job Ready] (sample_db Ready)))))))"
  using Dequeue_exclusive [OF _ _ sample_dequeue [of "''w1''" Second] prod.collapse [symmetric],
      of 60 "\<lambda>_. 300" "[]" "[]" 5 "''w2''" Second] intervalLiteral_exact [of 1000000]
  by (simp add: sample_db_ok Second_def)

lemma dequeue_recovers:
  assumes "working s = None" "db_ok (committed s)"
    and "run_state (Dequeue now newids locked queues limit w lease) s = (Inr js, s')"
    and "j \<in> set (jobs (committed s))" "expired now j"
  shows "(find_job (ID j) (committed s') = Some (reclaim_row now j) \<and> ID j \<notin> ID ` set js \<or>
      find_job (ID j) (committed s') = Some (claim_row now w lease (reclaim_row now j)) \<and>
        claim_row now w lease (reclaim_row now j) \<in> set js) \<and>
    (\<forall>r \<in> set (open_runs (ID j) (committed s)).
       r\<lparr>r_finished_at := Some now, r_status := Failed, r_error := Some lease_expired_msg\<rparr>
         \<in> set (job_runs (committed s')))"
proof -
  note txn = dequeue.success [OF assms(1,3)]
  note res = dequeue_result [OF assms(2) txn]
  note eff = dequeue_effect [OF assms(2) txn refl]
  have rec: "reclaim1 now j = reclaim_row now j" using assms(5) by (simp add: reclaim1_def)
  note find = find_job_eq [OF db_okD(1) [OF dequeue_preserves [OF assms(2) txn]]]
  have runs: "r\<lparr>r_finished_at := Some now, r_status := Failed, r_error := Some lease_expired_msg\<rparr>
      \<in> set (job_runs (committed s'))" if "r \<in> set (open_runs (ID j) (committed s))" for r
    using that expired_ID [OF assms(2,4)] assms(4,5)
    by (auto simp: eff(2) claimed_def reclaimed_def close_runs_def open_runs_def set_sql_update)
  show ?thesis
  proof (cases "ID j \<in> ID ` set js")
    case True
    then have "claim_row now w lease (reclaim_row now j) \<in> set (jobs (committed s'))"
      using assms(4) unfolding res(5) rec [symmetric] set_map by (intro image_eqI [of _ _ j]) simp_all
    moreover have "claim_row now w lease (reclaim_row now j) \<in> set js"
    proof -
      from True obtain x where x: "x \<in> set js" "ID x = ID j" by force
      obtain j0 where j0: "j0 \<in> set (jobs (committed s))" "x = claim_row now w lease (reclaim1 now j0)"
        using res(2) [OF x(1)] by blast
      with x(2) have "j0 = j"
        using distinct_key_unique [OF db_okD(1) [OF assms(2)] j0(1) assms(4)] by simp
      with j0 x(1) rec show ?thesis by simp
    qed
    ultimately show ?thesis using runs by (auto simp: find rec [symmetric])
  next
    case False
    then have "reclaim_row now j \<in> set (jobs (committed s'))"
      using assms(4) unfolding res(5) rec [symmetric] set_map by (intro image_eqI [of _ _ j]) simp_all
    with False runs show ?thesis by (auto simp: find rec [symmetric])
  qed
qed

text \<open>
  C18: recovery after a worker is lost, while retry budget remains. When a \<open>Dequeue\<close> succeeds,
  every job with attempts left whose lease had expired is out of the hands of its old worker: its
  row is ready again with the message of the expiry and the attempts it had, or is handed out
  anew, leased to the caller, with one more attempt, which is within the budget; and each run
  that was open for it is closed as failed at that moment.
\<close>

theorem Dequeue_recovers_expired:
  assumes "working s = None" "db_ok (committed s)"
    and "run_state (Dequeue now newids locked queues limit w lease) s = (Inr js, s')"
    and "j \<in> set (jobs (committed s))" "expired now j" "Attempts j < MaxAttempts j"
  shows "\<exists>j'. find_job (ID j) (committed s') = Some j' \<and> Attempts j' \<le> MaxAttempts j' \<and>
      (j' = reclaim_row now j \<and> Status j' = Ready \<and> LockedBy j' = None \<and> Attempts j' = Attempts j \<and> ID j \<notin> ID ` set js \<or>
       j' = claim_row now w lease (reclaim_row now j) \<and> Status j' = Running \<and> LockedBy j' = Some w \<and>
         Attempts j' = Attempts j + 1 \<and> j' \<in> set js) \<and>
    (\<forall>r \<in> set (open_runs (ID j) (committed s)).
       r\<lparr>r_finished_at := Some now, r_status := Failed, r_error := Some lease_expired_msg\<rparr>
         \<in> set (job_runs (committed s')))"
  using dequeue_recovers [OF assms(1-5)] assms(6) by (auto simp: claim_row_def reclaim_row_def)

lemma sample_expired: "expired 500 (sample_job Running)"
  by (simp add: expired_def sample_job_def)

text \<open>The sample job with budget left.\<close>

definition budget_job :: job where
  "budget_job = (sample_job Running)\<lparr>MaxAttempts := 5\<rparr>"

definition budget_db :: db where
  "budget_db = (sample_db Running)\<lparr>jobs := [budget_job]\<rparr>"

lemma budget_db_ok: "db_ok budget_db"
  by (simp add: budget_db_def budget_job_def sample_defs db_ok_defs jobs_check_def max_int32_def lease_ok_def
      runs_simps dead_ok_def run_closed_ok_def idem_key_def)

lemma budget_dequeue:
  "\<exists>d. dequeue_txn 500 (\<lambda>_. 200) [] [] 0 w l budget_db = Inr ([claim_row 500 w l (reclaim_row 500 budget_job)], d)"
  by (simp add: dequeue_txn_def thenE_def okE_def close_expired_runs_def reclaim_expired_def reclaim_row_def
      claim_ready_def picked_def sql_limit_def sql_order_by_def default_queues_def default_limit_def
      eligible_def expired_def insert_job_run_def claim_row_def run_row_def budget_db_def budget_job_def sample_defs max_int32_def)

lemma Dequeue_recovers_expired_witness:
  "\<exists>s'. run_state (Dequeue 500 (\<lambda>_. 200) [] [] 0 ''w2'' Second) (sample_pg budget_db) =
      (Inr [claim_row 500 ''w2'' Second (reclaim_row 500 budget_job)], s') \<and>
    (sample_run Running)\<lparr>r_finished_at := Some 500, r_status := Failed, r_error := Some lease_expired_msg\<rparr>
      \<in> set (job_runs (committed s'))"
proof -
  obtain d where "dequeue_txn 500 (\<lambda>_. 200) [] [] 0 ''w2'' Second budget_db =
      Inr ([claim_row 500 ''w2'' Second (reclaim_row 500 budget_job)], d)"
    using budget_dequeue by blast
  then have run: "\<exists>s'. run_state (Dequeue 500 (\<lambda>_. 200) [] [] 0 ''w2'' Second) (sample_pg budget_db) =
      (Inr [claim_row 500 ''w2'' Second (reclaim_row 500 budget_job)], s')"
    using dequeue.fault_free [of "sample_pg budget_db" 500 "\<lambda>_. 200" "[]" "[]" 0 "''w2''" Second] by simp
  then obtain s' where run: "run_state (Dequeue 500 (\<lambda>_. 200) [] [] 0 ''w2'' Second) (sample_pg budget_db) =
      (Inr [claim_row 500 ''w2'' Second (reclaim_row 500 budget_job)], s')" by blast
  have "sample_run Running \<in> set (open_runs (ID budget_job) budget_db)" "expired 500 budget_job" "budget_job \<in> set (jobs budget_db)"
      "Attempts budget_job < MaxAttempts budget_job"
    by (simp_all add: open_runs_def budget_db_def budget_job_def sample_db_def sample_run_def sample_job_def expired_def sql_less_def)
  with Dequeue_recovers_expired [OF _ _ run, of budget_job] run show ?thesis by (auto simp: budget_db_ok)
qed

text \<open>
  C19: the retry budget does not bind a worker that dies. \<open>docs/ARCHITECTURE.md\<close> says that an expired
  lease returns a job to ready while retry budget remains; the code has no such condition. A job
  on its last attempt (or beyond it) whose lease expired is reclaimed too and, when the \<open>Dequeue\<close>
  has room for it, handed out again, which starts an attempt beyond \<open>MaxAttempts\<close>; it is never
  buried: only \<open>Nack\<close> moves a job to the dead-letter queue.
\<close>

theorem Dequeue_expiry_exceeds_budget:
  assumes "working s = None" "db_ok (committed s)"
    and "run_state (Dequeue now newids locked queues limit w lease) s = (Inr js, s')"
    and "j \<in> set (jobs (committed s))" "expired now j" "MaxAttempts j \<le> Attempts j"
    and "claimable now locked (default_queues queues) j"
    and "length (filter (claimable now locked (default_queues queues)) (jobs (committed s)))
      \<le> nat (default_limit limit)"
  shows "\<exists>j' \<in> set js. ID j' = ID j \<and> Status j' = Running \<and> MaxAttempts j' < Attempts j'"
proof -
  note txn = dequeue.success [OF assms(1,3)]
  note res = dequeue_result [OF assms(2) txn]
  let ?C = "filter (claimable now locked (default_queues queues)) (jobs (committed s))"
  have "distinct (map ID ?C)"
    using db_okD(1) [OF assms(2)] by (rule distinct_map_filter)
  then have "card (ID ` set ?C) = length ?C" by (metis distinct_card length_map set_map)
  moreover have "card (ID ` set js) = length js" using res(1) by (metis distinct_card length_map set_map)
  moreover have "ID ` set js \<subseteq> ID ` set ?C" using res(2) by fastforce
  ultimately have "ID ` set js = ID ` set ?C"
    using res(3) assms(8) by (intro card_subset_eq) auto
  moreover have "ID j \<in> ID ` set ?C" using assms(4,7) by simp
  ultimately obtain x where x: "x \<in> set js" "ID x = ID j" by force
  obtain j0 where j0: "j0 \<in> set (jobs (committed s))" "x = claim_row now w lease (reclaim1 now j0)"
    using res(2) [OF x(1)] by blast
  with x(2) have "j0 = j"
    using distinct_key_unique [OF db_okD(1) [OF assms(2)] j0(1) assms(4)] by simp
  with x j0 assms(6) show ?thesis by (intro bexI [of _ x]) auto
qed

lemma Dequeue_expiry_exceeds_budget_witness:
  "MaxAttempts (claim_row 500 ''w2'' Second (reclaim_row 500 (sample_job Running))) <
   Attempts (claim_row 500 ''w2'' Second (reclaim_row 500 (sample_job Running)))"
proof -
  have "claimable 500 [] (default_queues []) (sample_job Running)"
    by (simp add: claimable_def default_queues_def sample_expired) (simp add: sample_job_def)
  with Dequeue_expiry_exceeds_budget [OF _ _ sample_dequeue_expired [of "''w2''" Second] _ sample_expired]
  show ?thesis by (simp add: sample_db_ok default_limit_def sample_job_def)
qed

text \<open>
  C9: the methods of the queue under failures. Each of the six methods that change existing jobs
  refines one transaction on the tables: whatever round trips fail, it leaves no transaction open; a
  result means that exactly the effect of the transaction was published; an error means that
  nothing was, unless the reply to the commit itself was lost; and without failures method and
  transaction agree. \<open>Enqueue\<close> is two statements that commit on their own, the tenant and the job:
  a result means that both took effect; after an error of another kind than a lost round trip no
  job has appeared, but the tenant may have; and in no case is anything else published than
  nothing, the tenant, or both.\<close>

theorem Methods_atomic:
  "atomic (Dequeue now newids locked queues limit w lease) (dequeue_txn now newids locked queues limit w lease) \<and>
   atomic (Ack now i w) (ack_txn now i w) \<and>
   atomic (Nack oob q now i w cause) (nack_txn oob q now i w cause) \<and>
   atomic (ExtendLease now i w lease) (extend_txn now i w lease) \<and>
   atomic (Cancel now i) (cancel_txn now i) \<and>
   atomic (RequeueDLQ now i) (requeue_txn now i) \<and>
   (\<forall>s r s' t. working s = None \<longrightarrow> run_state (Enqueue X gonow now i el p) s = (r, s') \<longrightarrow>
      t = p_TenantID (normalizeEnqueueParams gonow p) \<longrightarrow>
      working s' = None \<and>
      (\<forall>x. r = Inr x \<longrightarrow> enqueue_txn X gonow now i el p (committed s) = Inr (x, committed s')) \<and>
      (\<forall>e. r = Inl e \<longrightarrow> \<not> driver_error e \<longrightarrow> jobs (committed s') = jobs (committed s)) \<and>
      (committed s' = committed s \<or>
       insert_tenant t (tenant_name X t) (committed s) = Inr ((), committed s') \<or>
       (\<exists>x. enqueue_txn X gonow now i el p (committed s) = Inr (x, committed s'))))"
proof (intro conjI allI impI)
  fix s r s' t
  assume s: "working s = None" and run: "run_state (Enqueue X gonow now i el p) s = (r, s')"
    and t: "t = p_TenantID (normalizeEnqueueParams gonow p)"
  note out = enqueue_outcomes [OF s run, folded t]
  show "working s' = None" using out by simp
  show "enqueue_txn X gonow now i el p (committed s) = Inr (x, committed s')" if "r = Inr x" for x
    by (rule enqueue_success [OF s run [unfolded that]])
  show "jobs (committed s') = jobs (committed s)" if "r = Inl e" "\<not> driver_error e" for e
    using enqueue_error [OF s run [unfolded that(1)] that(2)] by simp
  show "committed s' = committed s \<or> insert_tenant t (tenant_name X t) (committed s) = Inr ((), committed s') \<or>
      (\<exists>x. enqueue_txn X gonow now i el p (committed s) = Inr (x, committed s'))"
    using out unfolding enqueue_txn_def Let_def thenE_Inr t [symmetric] by blast
qed (rule dequeue.atomic ack.atomic nack.atomic extend.atomic cancel.atomic requeue.atomic)+

lemma Methods_atomic_witness:
  "working (snd (run_state (Enqueue sample_ext 40 50 9 1 sample_params) (sample_pg (sample_db Ready)))) = None"
proof -
  obtain r s' where run: "run_state (Enqueue sample_ext 40 50 9 1 sample_params) (sample_pg (sample_db Ready)) = (r, s')" by force
  have "working (sample_pg (sample_db Ready)) = None" by simp
  with Methods_atomic [where X = sample_ext and gonow = 40 and now = 50 and i = 9 and el = 1 and p = sample_params] run
  have "working s' = None" by metis
  then show ?thesis by (simp add: run)
qed

end
