(* ===== verification/Job_Lifecycle.thy ===== *)
theory Job_Lifecycle
  imports Queue_Props
begin

text \<open>
  The life of one job after it was handed out: acknowledgement, failure with and without
  retry budget left, heartbeats, cancellation, and the way back from the dead-letter queue.
  Each method is described on every branch, and what it must not touch is part of the
  description.
\<close>

section \<open>Fencing\<close>

text \<open>
  C6: a worker that no longer holds the lease of a job (the job finished, went back to the
  queue, or is leased to somebody else) cannot change it: \<open>Ack\<close>, \<open>Nack\<close> and \<open>ExtendLease\<close>
  leave every table as it was, under every script of failures, and answer
  \<open>ErrInvalidTransition\<close> unless the connection failed.
\<close>

theorem Lost_lease_refused:
  assumes "working s = None" "w \<noteq> ''''" "\<forall>j \<in> set (jobs (committed s)). \<not> leased_to i w j"
    and "run_state (Ack now i w) s = (ra, sa)"
    and "run_state (Nack oob q now i w cause) s = (rn, sn)"
    and "run_state (ExtendLease now i w lease) s = (rx, sx)"
  shows "committed sa = committed s \<and> committed sn = committed s \<and> committed sx = committed s \<and>
    (\<exists>e. ra = Inl e \<and> (driver_error e \<or> e = ErrInvalidTransition)) \<and>
    (\<exists>e. rn = Inl e \<and> (driver_error e \<or> e = ErrInvalidTransition)) \<and>
    (\<exists>e. rx = Inl e \<and> (driver_error e \<or> e = ErrInvalidTransition))"
proof -
  have none: "\<forall>j \<in> set (jobs (committed s)). \<not> running_for i w j"
    using assms(2,3) by (simp add: running_for_def leased_to_def)

  have "committed sa = committed s \<and> (\<exists>e. ra = Inl e \<and> (driver_error e \<or> e = ErrInvalidTransition))"
    using atomicD(3,4,5) [OF ack.atomic assms(1,4)] ack_refused [OF none] by (cases ra) auto
  moreover have "committed sn = committed s \<and> (\<exists>e. rn = Inl e \<and> (driver_error e \<or> e = ErrInvalidTransition))"
    using atomicD(3,4,5) [OF nack.atomic assms(1,5)] nack_refused [OF none] by (cases rn) auto
  moreover have "committed sx = committed s \<and> (\<exists>e. rx = Inl e \<and> (driver_error e \<or> e = ErrInvalidTransition))"
    using atomicD(3,4,5) [OF extend.atomic assms(1,6)] extend_refused [OF assms(3)] by (cases rx) auto
  ultimately show ?thesis by blast
qed

lemma Lost_lease_refused_witness:
  "committed (snd (run_state (Ack 60 7 ''w2'') (sample_pg (sample_db Running)))) = sample_db Running"
  using Lost_lease_refused [OF _ _ _ prod.collapse [symmetric] prod.collapse [symmetric] prod.collapse [symmetric],
      of "sample_pg (sample_db Running)" "''w2''" 7 60]
  by (simp add: leased_to_def sample_job_def)

section \<open>The end of a run\<close>

lemma row_simps [simp]:
  "Status (ack_row now j) = Succeeded" "Status (dead_row now m j) = Dead"
  "Status (retry_row now dl m j) = Ready" "Status (cancel_row now j) = Failed"
  "Status (requeue_row now j) = Ready" "Status (extend_row now l j) = Status j"
  "Status (reclaim_row now j) = Ready"
  by (simp_all add: ack_row_def dead_row_def retry_row_def cancel_row_def requeue_row_def
      extend_row_def reclaim_row_def)

text \<open>
  The description that \<open>Ack\<close> and \<open>Nack\<close> share: the job becomes \<open>j'\<close>, the run of its
  current attempt is closed with the given status, and no other job, run or schedule changes.
\<close>

definition run_finished :: "time \<Rightarrow> status \<Rightarrow> string option \<Rightarrow> job \<Rightarrow> job \<Rightarrow> db \<Rightarrow> db \<Rightarrow> bool" where
  "run_finished now st err j j' d d' \<longleftrightarrow>
     find_job (ID j) d' = Some j' \<and>
     open_runs (ID j) d' = [] \<and>
     (\<exists>r \<in> set (runs_of (ID j) d'). r_attempt r = Attempts j \<and> r_status r = st \<and>
        r_finished_at r = Some now \<and> r_error r = err) \<and>
     length (job_runs d') = length (job_runs d) \<and>
     (\<forall>i. i \<noteq> ID j \<longrightarrow> find_job i d' = find_job i d \<and> runs_of i d' = runs_of i d) \<and>
     map ID (jobs d') = map ID (jobs d) \<and> tenants d' = tenants d \<and> schedules d' = schedules d"

lemma find_job_update:
  assumes "distinct (map ID (jobs d))" "keeps_key f" "jobs d' = sql_update (\<lambda>x. ID x = i) f (jobs d)"
  shows "find_job k d' = (if k = i then map_option f (find_job k d) else find_job k d)"
proof -
  have dist: "distinct (map ID (jobs d'))" using assms by (simp add: map_ID_update)
  show ?thesis
  proof (cases "find_job k d")
    case None
    moreover from this have "find_job k d' = None"
      unfolding find_job_None using assms by (simp add: image_ID_update)
    ultimately show ?thesis by auto
  next
    case (Some j)
    then have "j \<in> set (jobs d)" "ID j = k" by (auto dest: find_job_in)
    with assms have "find_job k d' = Some (if k = i then f j else j)"
      by (auto simp: find_job_eq [OF dist] set_sql_update keeps_keyD)
    with Some show ?thesis by auto
  qed
qed

lemma runs_of_close:
  "k \<notin> K \<Longrightarrow> filter (\<lambda>r. r_job_id r = k) (close_runs now st err K rs) = filter (\<lambda>r. r_job_id r = k) rs"
  unfolding close_runs_def by (subst filter_sql_update_keep) (auto intro: sql_update_none)

lemma run_finishedI:
  assumes ok: "db_ok d" and j: "j \<in> set (jobs d)" "Status j = Running" and st: "st \<noteq> Running"
    and f: "keeps_key f"
    and d': "jobs d' = sql_update (\<lambda>x. ID x = ID j) f (jobs d)"
      "job_runs d' = close_runs now st err {ID j} (job_runs d)"
      "tenants d' = tenants d" "schedules d' = schedules d"
  shows "run_finished now st err j (f j) d d'"
proof -
  have "map r_attempt (open_runs (ID j) d) = [Attempts j]"
    using db_ok_job(3) [OF ok j(1)] j(2) by (simp add: runs_ok_def)
  then obtain r where "open_runs (ID j) d = [r]" "r_attempt r = Attempts j" by auto
  then have r: "r \<in> set (job_runs d)" "r_job_id r = ID j" "r_status r = Running" "r_attempt r = Attempts j"
    unfolding open_runs_def filter_eq_Cons_iff by auto
  let ?r = "r\<lparr>r_finished_at := Some now, r_status := st, r_error := err\<rparr>"
  have "?r \<in> set (runs_of (ID j) d')"
    using r by (auto simp: runs_of_def d' close_runs_def set_sql_update)
  then have "\<exists>r \<in> set (runs_of (ID j) d'). r_attempt r = Attempts j \<and> r_status r = st \<and>
      r_finished_at r = Some now \<and> r_error r = err"
    using r(4) by (intro bexI [of _ ?r]) simp_all
  moreover have "open_runs (ID j) d' = []"
    using st by (simp add: open_runs_def d' table_simps)
  moreover have "find_job (ID j) d = Some j"
    using j(1) by (simp add: find_job_eq [OF db_okD(1) [OF ok]])
  moreover have "length (job_runs d') = length (job_runs d)" by (simp add: d' close_runs_def)
  ultimately show ?thesis
    using f by (simp add: run_finished_def find_job_update [OF db_okD(1) [OF ok] f d'(1)] d'
        map_ID_update runs_of_def runs_of_close)
qed

lemma ack_finishes:
  assumes "working s = None" "faults s = []" "db_ok (committed s)"
    and "j \<in> set (jobs (committed s))" "running_for i w j"
  shows "\<exists>s'. run_state (Ack now i w) s = (Inr (ack_row now j), s') \<and>
        Status (ack_row now j) = Succeeded \<and> dead_letters (committed s') = dead_letters (committed s) \<and>
        run_finished now Succeeded None j (ack_row now j) (committed s) (committed s')"
proof -
  from assms(5) have run: "Status j = Running" and i: "i = ID j" by (simp_all add: running_for_def)
  have "run_state (Ack now i w) s = (Inr (ack_row now j), s\<lparr>committed := (committed s)
      \<lparr>jobs := sql_update (\<lambda>x. ID x = i) (ack_row now) (jobs (committed s)),
       job_runs := close_runs now Succeeded None {i} (job_runs (committed s))\<rparr>\<rparr>)"
    using ack.fault_free [OF assms(1,2), of now i w] ack_effect [OF assms(3-5), of now] by simp
  moreover have "run_finished now Succeeded None j (ack_row now j) (committed s) ((committed s)
      \<lparr>jobs := sql_update (\<lambda>x. ID x = i) (ack_row now) (jobs (committed s)),
       job_runs := close_runs now Succeeded None {i} (job_runs (committed s))\<rparr>)"
    using run by (intro run_finishedI [OF assms(3,4)]) (simp_all add: i)
  ultimately show ?thesis by simp
qed

text \<open>
  C22: \<open>Ack\<close> without connection failures. If the job runs for the worker, it becomes succeeded
  and is released, the run of the current attempt is closed as succeeded, and nothing else
  changes; in every other case \<open>Ack\<close> answers \<open>ErrInvalidTransition\<close> and changes nothing.
\<close>

theorem Ack_completes:
  assumes "working s = None" "faults s = []" "db_ok (committed s)"
  shows "case find (running_for i w) (jobs (committed s)) of
      None \<Rightarrow> run_state (Ack now i w) s = (Inl ErrInvalidTransition, s)
    | Some j \<Rightarrow> \<exists>s'. run_state (Ack now i w) s = (Inr (ack_row now j), s') \<and>
        Status (ack_row now j) = Succeeded \<and> dead_letters (committed s') = dead_letters (committed s) \<and>
        run_finished now Succeeded None j (ack_row now j) (committed s) (committed s')"
proof (cases "find (running_for i w) (jobs (committed s))")
  case None
  then have "\<forall>j \<in> set (jobs (committed s)). \<not> running_for i w j" by (simp add: find_None_iff)
  then show ?thesis using ack.fault_free [OF assms(1,2)] None by (simp add: ack_refused)
next
  case (Some j)
  then have "j \<in> set (jobs (committed s))" "running_for i w j" by (auto simp: find_Some_iff)
  from ack_finishes [OF assms this] show ?thesis by (simp add: Some)
qed

lemma Ack_completes_witness:
  "fst (run_state (Ack 60 7 ''w1'') (sample_pg (sample_db Running))) = Inr (ack_row 60 (sample_job Running))"
  using Ack_completes [of "sample_pg (sample_db Running)" 60 7 "''w1''"]
  by (auto simp: sample_db_ok running_for_def sample_job_def split: if_splits)

lemma nack_finishes:
  assumes "working s = None" "faults s = []" "db_ok (committed s)"
    and "j \<in> set (jobs (committed s))" "running_for i w j"
  shows "\<exists>s'. (if Attempts j < MaxAttempts j
      then (let delay = backoff oob q (Attempts j); j' = retry_row now delay (errorString cause) j in
        run_state (Nack oob q now i w cause) s = (Inr (j', False, delay), s') \<and>
        Status j' = Ready \<and> RunAt j' = now + intervalLiteral delay \<and> Attempts j' = Attempts j \<and>
        run_finished now Failed (nullif (errorString cause) '''') j j' (committed s) (committed s') \<and>
        dead_letters (committed s') = dead_letters (committed s))
      else (let j' = dead_row now (errorString cause) j in
        run_state (Nack oob q now i w cause) s = (Inr (j', True, 0), s') \<and> Status j' = Dead \<and>
        run_finished now Dead (nullif (errorString cause) '''') j j' (committed s) (committed s') \<and>
        dead_letters (committed s') = dead_letters (committed s) @
          [\<lparr>d_job_id = i, d_dead_at = now, d_reason = Some (errorString cause)\<rparr>]))"
proof -
  let ?d = "committed s" and ?err = "nullif (errorString cause) ''''"
  have run: "Status j = Running" and i: "i = ID j" using assms(5) by (simp_all add: running_for_def)
  note ff = nack.fault_free [OF assms(1,2), of oob q now i w cause]
  note fin = run_finishedI [OF assms(3,4) run]
  show ?thesis
  proof (cases "Attempts j < MaxAttempts j")
    case True
    let ?f = "retry_row now (backoff oob q (Attempts j)) (errorString cause)"
    have "run_finished now Failed ?err j (?f j) ?d (?d\<lparr>jobs := sql_update (\<lambda>x. ID x = i) ?f (jobs ?d),
        job_runs := close_runs now Failed ?err {i} (job_runs ?d)\<rparr>)"
      by (intro fin) (simp_all add: i)
    moreover have "RunAt (?f j) = now + intervalLiteral (backoff oob q (Attempts j))" "Attempts (?f j) = Attempts j"
      by (simp_all add: retry_row_def)
    ultimately show ?thesis
      using ff True by (simp add: nack_effect_retry [OF assms(3-5) True] Let_def)
  next
    case False
    let ?f = "dead_row now (errorString cause)"
    have "run_finished now Dead ?err j (?f j) ?d (?d\<lparr>jobs := sql_update (\<lambda>x. ID x = i) ?f (jobs ?d),
        job_runs := close_runs now Dead ?err {i} (job_runs ?d),
        dead_letters := dead_letters ?d @ [\<lparr>d_job_id = i, d_dead_at = now, d_reason = Some (errorString cause)\<rparr>]\<rparr>)"
      by (intro fin) (simp_all add: i)
    then show ?thesis
      using ff False by (simp add: nack_effect_dead [OF assms(3-5)] not_less)
  qed
qed

text \<open>
  C21: \<open>Nack\<close> without connection failures, for a job that runs for the worker. With budget
  left the job is ready again, due after the backoff of its attempt count, and keeps its
  count; without, it is dead and exactly its dead letter, with the cause as the reason, is
  added. Either way the run is closed with the cause and nothing else changes.
\<close>

theorem Nack_outcome:
  assumes "working s = None" "faults s = []" "db_ok (committed s)"
    and "j \<in> set (jobs (committed s))" "running_for i w j"
  shows "\<exists>s'. (if Attempts j < MaxAttempts j
      then (let delay = backoff oob q (Attempts j); j' = retry_row now delay (errorString cause) j in
        run_state (Nack oob q now i w cause) s = (Inr (j', False, delay), s') \<and>
        Status j' = Ready \<and> RunAt j' = now + intervalLiteral delay \<and> Attempts j' = Attempts j \<and>
        run_finished now Failed (nullif (errorString cause) '''') j j' (committed s) (committed s') \<and>
        dead_letters (committed s') = dead_letters (committed s))
      else (let j' = dead_row now (errorString cause) j in
        run_state (Nack oob q now i w cause) s = (Inr (j', True, 0), s') \<and> Status j' = Dead \<and>
        run_finished now Dead (nullif (errorString cause) '''') j j' (committed s) (committed s') \<and>
        dead_letters (committed s') = dead_letters (committed s) @
          [\<lparr>d_job_id = i, d_dead_at = now, d_reason = Some (errorString cause)\<rparr>]))"
  using assms by (rule nack_finishes)

lemma Nack_outcome_witness:
  "fst (run_state (Nack (\<lambda>_. 0) (New (\<lambda>_. 0)) 60 7 ''w1'' (Some ''boom'')) (sample_pg (sample_db Running))) =
     Inr (dead_row 60 ''boom'' (sample_job Running), True, 0)"
proof -
  have "running_for 7 ''w1'' (sample_job Running)" "\<not> Attempts (sample_job Running) < MaxAttempts (sample_job Running)"
    by (simp_all add: running_for_def sample_job_def)
  with Nack_outcome [of "sample_pg (sample_db Running)" "sample_job Running" 7 "''w1''" "\<lambda>_. 0" "New (\<lambda>_. 0)" 60 "Some ''boom''"]
  show ?thesis by (auto simp: sample_db_ok errorString_def Let_def)
qed

section \<open>Heartbeats, cancellation, and back from the dead-letter queue\<close>

text \<open>
  A heartbeat of the worker that holds the lease moves the end of the lease to one lease
  from now and changes nothing else of the job, and a \<open>Dequeue\<close> that runs before the new end
  leaves the job where it is.
\<close>

theorem ExtendLease_keeps_job:
  assumes "working s = None" "db_ok (committed s)"
    and "run_state (ExtendLease now i w lease) s = (Inr u, s1)"
    and "run_state (Dequeue now2 newids locked queues limit w2 lease2) s1 = (r, s2)"
    and "now2 \<le> now + intervalLiteral lease"
  shows "\<exists>j. find_job i (committed s) = Some j \<and> LockedBy j = Some w \<and>
    find_job i (committed s1) = Some (j\<lparr>LockedUntil := Some (now + intervalLiteral lease), UpdatedAt := now\<rparr>) \<and>
    find_job i (committed s2) = find_job i (committed s1) \<and>
    (\<forall>k. k \<noteq> i \<longrightarrow> find_job k (committed s1) = find_job k (committed s)) \<and>
    (\<forall>js. r = Inr js \<longrightarrow> i \<notin> ID ` set js)"
proof -
  note txn = extend.success [OF assms(1,3)]
  obtain j where j: "j \<in> set (jobs (committed s))" "leased_to i w j"
    using txn extend_refused [of "committed s" i w now lease] by auto
  then have i: "i = ID j" "LockedBy j = Some w" "Status j = Running" by (simp_all add: leased_to_def)
  let ?j = "extend_row now lease j"
  note ok1 = extend_preserves [OF assms(2) txn]
  have find0: "find_job i (committed s) = Some j"
    using j i by (simp add: find_job_eq [OF db_okD(1) [OF assms(2)]])
  have d1: "jobs (committed s1) = sql_update (\<lambda>x. ID x = i) (extend_row now lease) (jobs (committed s))"
    using txn extend_effect [OF assms(2) j, of now lease] by (auto dest: arg_cong [where f = jobs])
  note find1 = find_job_update [OF db_okD(1) [OF assms(2)] _ d1]
  have "find_job i (committed s1) = Some ?j" using find0 by (simp add: find1)
  then have in1: "?j \<in> set (jobs (committed s1))" "ID ?j = i" by (auto dest: find_job_in)
  have "\<not> expired now2 ?j" using assms(5) by (simp add: expired_def extend_row_def)
  note keep = dequeue_keeps_running [OF extend.closed [OF assms(1,3)] ok1 assms(4) in1(1) _ this]
  have "db_ok (committed s2)"
    using dequeue_run_preserves [OF extend.closed [OF assms(1,3)] assms(4) ok1] by simp
  with keep(1) in1(2) i have "find_job i (committed s2) = Some ?j"
    by (simp add: find_job_eq [OF db_okD(1)])
  with find0 find1 keep(2) in1(2) i show ?thesis by (auto simp: extend_row_def)
qed

lemma sample_extend:
  "run_state (ExtendLease 60 7 ''w1'' l) (sample_pg (sample_db Running)) =
     (Inr (), sample_pg ((sample_db Running)\<lparr>jobs := [extend_row 60 l (sample_job Running)]\<rparr>))"
  using extend.fault_free [of "sample_pg (sample_db Running)" 60 7 "''w1''" l]
    extend_effect [OF sample_db_ok, of "sample_job Running" Running 7 "''w1''" 60 l]
  by (simp add: sample_pg_def leased_to_def) (simp add: sample_defs)

lemma ExtendLease_keeps_job_witness:
  "find_job 7 (committed (snd (run_state (Dequeue 70 (\<lambda>_. 200) [] [] 5 ''w2'' Second)
      (sample_pg ((sample_db Running)\<lparr>jobs := [extend_row 60 Second (sample_job Running)]\<rparr>))))) \<noteq> None"
  using ExtendLease_keeps_job [OF _ _ sample_extend prod.collapse [symmetric],
      of 70 Second "\<lambda>_. 200" "[]" "[]" 5 "''w2''" Second] intervalLiteral_exact [of 1000000]
  by (auto simp: sample_db_ok Second_def)

text \<open>
  What \<open>docs/ARCHITECTURE.md\<close> and \<open>docs/API.md\<close> say of a requeued job: the lifetime attempt count is
  preserved and the retry budget is extended by one.
\<close>

definition documented_requeue_row :: "time \<Rightarrow> job \<Rightarrow> job" where
  "documented_requeue_row now j =
     j\<lparr>Status := Ready, MaxAttempts := MaxAttempts j + 1, LockedBy := None, LockedUntil := None,
       RunAt := now, LastError := None, UpdatedAt := now\<rparr>"

text \<open>
  C24: \<open>RequeueDLQ\<close> against its documentation. Without connection failures it puts a dead job back at
  once and removes its dead letter, for any other job it answers \<open>ErrInvalidTransition\<close> and changes
  nothing, and runs are never touched: so far as documented. But the row that it writes is not the
  documented one, for any dead job: it sets the attempts to 0 instead of preserving them, and leaves
  the budget as it is instead of extending it by one, so that the job has its whole budget of
  attempts again where the documents give it one more.
\<close>

theorem RequeueDLQ_forgets_attempts:
  assumes "working s = None" "faults s = []" "db_ok (committed s)"
  shows "case find (requeueable i) (jobs (committed s)) of
      None \<Rightarrow> run_state (RequeueDLQ now i) s = (Inl ErrInvalidTransition, s)
    | Some j \<Rightarrow> (\<exists>s' j'. run_state (RequeueDLQ now i) s = (Inr j', s') \<and>
        j' \<noteq> documented_requeue_row now j \<and> Attempts j' = 0 \<and> MaxAttempts j' = MaxAttempts j \<and>
        j' = (documented_requeue_row now j)\<lparr>Attempts := 0, MaxAttempts := MaxAttempts j\<rparr> \<and>
        i \<in> d_job_id ` set (dead_letters (committed s)) \<and>
        d_job_id ` set (dead_letters (committed s')) = d_job_id ` set (dead_letters (committed s)) - {i} \<and>
        job_runs (committed s') = job_runs (committed s) \<and>
        (\<forall>k. find_job k (committed s') = (if k = i then Some j' else find_job k (committed s))))"
proof (cases "find (requeueable i) (jobs (committed s))")
  case None
  then have "\<forall>j \<in> set (jobs (committed s)). \<not> requeueable i j" by (simp add: find_None_iff)
  then show ?thesis using requeue.fault_free [OF assms(1,2)] None by (simp add: requeue_refused)
next
  case (Some j)
  then have j: "j \<in> set (jobs (committed s))" "requeueable i j" by (auto simp: find_Some_iff)
  let ?d = "(committed s)\<lparr>jobs := sql_update (\<lambda>x. ID x = i) (requeue_row now) (jobs (committed s)),
      dead_letters := sql_delete (\<lambda>x. d_job_id x = i) (dead_letters (committed s))\<rparr>"
  have run: "run_state (RequeueDLQ now i) s = (Inr (requeue_row now j), s\<lparr>committed := ?d\<rparr>)"
    using requeue.fault_free [OF assms(1,2)] requeue_effect [OF assms(3) j] by simp
  have i: "i \<in> d_job_id ` set (dead_letters (committed s))" "find_job i (committed s) = Some j"
    using j db_ok_job(4) [OF assms(3) j(1)]
    by (simp_all add: requeueable_def dead_ok_def find_job_eq [OF db_okD(1) [OF assms(3)]])
  have "find_job k ?d = (if k = i then Some (requeue_row now j) else find_job k (committed s))" for k
    using find_job_update [OF db_okD(1) [OF assms(3)], of "requeue_row now" ?d i k] i(2) by auto
  moreover have "requeue_row now j \<noteq> documented_requeue_row now j"
  proof
    assume "requeue_row now j = documented_requeue_row now j"
    then have "MaxAttempts (requeue_row now j) = MaxAttempts (documented_requeue_row now j)" by simp
    then show False by (simp add: requeue_row_def documented_requeue_row_def)
  qed
  ultimately show ?thesis unfolding Some option.case
    using run i by (auto simp: requeue_row_def documented_requeue_row_def sql_delete_def)
qed

lemma RequeueDLQ_forgets_attempts_witness:
  "\<exists>j. fst (run_state (RequeueDLQ 60 7) (sample_pg (sample_db Dead))) = Inr j \<and> Attempts j = 0 \<and>
     Attempts (documented_requeue_row 60 (sample_job Dead)) = 1"
  using RequeueDLQ_forgets_attempts [of "sample_pg (sample_db Dead)" 60 7]
  by (auto simp: sample_db_ok requeueable_def documented_requeue_row_def sample_job_def)



end
