(* ===== verification/Go_Time.thy ===== *)
theory Go_Time
  imports Prelude
begin

text \<open>
  What the repository uses of Go's package \<open>time\<close> to print a point in time: the calendar
  date of a day count in the proleptic Gregorian calendar, computed by cycles of 400, 100
  and 4 years, and the layout \<open>time.RFC3339\<close> in UTC. A point in time is a number of
  microseconds since 0001-01-01T00:00:00Z.

  The text is shown to determine the second: two times with the same text lie in the same
  second. Idempotency keys of scheduled jobs rest on this.
\<close>

section \<open>Calendar\<close>

definition daysBefore :: "nat list" where
  "daysBefore = [0, 31, 59, 90, 120, 151, 181, 212, 243, 273, 304, 334, 365]"

definition isLeap :: "nat \<Rightarrow> bool" where
  "isLeap year \<longleftrightarrow> year mod 4 = 0 \<and> (year mod 100 \<noteq> 0 \<or> year mod 400 = 0)"

text \<open>Year (counted from 0 for the year 1) and day of the year of a day count.\<close>

definition year_yday :: "nat \<Rightarrow> nat \<times> nat" where
  "year_yday d =
     (let n400 = d div 146097; d = d - 146097 * n400;
          n100 = d div 36524; n100 = n100 - n100 div 4; d = d - 36524 * n100;
          n4 = d div 1461; d = d - 1461 * n4;
          n = d div 365; n = n - n div 4; d = d - 365 * n
      in (400 * n400 + 100 * n100 + 4 * n4 + n, d))"

text \<open>Month and day of the month of a day of the year.\<close>

definition month_day :: "bool \<Rightarrow> nat \<Rightarrow> nat \<times> nat" where
  "month_day leap yday =
     (if leap \<and> yday = 59 then (2, 29)
      else
        (let day = (if leap \<and> yday > 59 then yday - 1 else yday);
             month = day div 31;
             m_end = daysBefore ! (month + 1)
         in if day \<ge> m_end then (month + 2, day - m_end + 1)
            else (month + 1, day - daysBefore ! month + 1)))"

definition date :: "nat \<Rightarrow> nat \<times> nat \<times> nat" where
  "date d =
     (let (year, yday) = year_yday d; (month, day) = month_day (isLeap (year + 1)) yday
      in (year + 1, month, day))"

section \<open>Text\<close>

definition digit :: "nat \<Rightarrow> char" where
  "digit n = char_of (48 + n mod 10)"

fun decimal :: "nat \<Rightarrow> string" where
  "decimal n = (if n < 10 then [digit n] else decimal (n div 10) @ [digit n])"

declare decimal.simps [simp del]

text \<open>\<open>appendInt\<close>: at least \<open>width\<close> digits, padded with zeros.\<close>

definition appendInt :: "nat \<Rightarrow> nat \<Rightarrow> string" where
  "appendInt width n = replicate (width - length (decimal n)) CHR ''0'' @ decimal n"

definition RFC3339 :: "time \<Rightarrow> string" where
  "RFC3339 t =
     (let sec = nat (t div 1000000); (year, month, day) = date (sec div 86400); abs = sec mod 86400
      in appendInt 4 year @ ''-'' @ appendInt 2 month @ ''-'' @ appendInt 2 day @ ''T'' @
         appendInt 2 (abs div 3600) @ '':'' @ appendInt 2 (abs mod 3600 div 60) @ '':'' @
         appendInt 2 (abs mod 60) @ ''Z'')"

section \<open>A date determines the day\<close>

lemma year_yday_bounds:
  assumes "year_yday d = (y, yd)"
  shows "\<exists>n400 n100 n4 n. y = 400 * n400 + 100 * n100 + 4 * n4 + n \<and> n100 < 4 \<and> n4 < 25 \<and> n < 4 \<and>
    d = 146097 * n400 + 36524 * n100 + 1461 * n4 + 365 * n + yd \<and> yd < 366 \<and>
    (yd = 365 \<longrightarrow> n = 3 \<and> (n4 \<noteq> 24 \<or> n100 = 3))"
proof -
  define n400 d1 where "n400 = d div 146097" and "d1 = d - 146097 * n400"
  define n100 d2 where "n100 = d1 div 36524 - d1 div 36524 div 4" and "d2 = d1 - 36524 * n100"
  define n4 d3 where "n4 = d2 div 1461" and "d3 = d2 - 1461 * n4"
  define n d4 where "n = d3 div 365 - d3 div 365 div 4" and "d4 = d3 - 365 * n"
  have y: "y = 400 * n400 + 100 * n100 + 4 * n4 + n" "yd = d4"
    using assms [unfolded year_yday_def Let_def, folded n400_def, folded d1_def, folded n100_def,
        folded d2_def, folded n4_def, folded d3_def, folded n_def, folded d4_def] by simp_all
  have d1: "d = 146097 * n400 + d1" "d1 < 146097"
    unfolding d1_def n400_def by (simp_all add: minus_mult_div_eq_mod)
  define q where "q = d1 div 36524"
  have "d1 = 36524 * q + d1 mod 36524" "d1 mod 36524 < 36524" "n100 = q - q div 4"
    by (simp_all add: q_def n100_def)
  moreover from this d1(2) have "q \<in> {0, 1, 2, 3, 4}" by simp linarith
  ultimately have n100: "n100 < 4" "d1 = 36524 * n100 + d2" "d2 < 36525" "d2 = 36524 \<longrightarrow> n100 = 3"
    using d1(2) unfolding d2_def by auto
  have split4: "d2 = 1461 * n4 + d3" "d3 < 1461"
    unfolding d3_def n4_def by (simp_all add: minus_mult_div_eq_mod)
  then have n4: "n4 < 25" "n4 = 24 \<longrightarrow> d3 = 1460 \<longrightarrow> n100 = 3"
    using n100(3,4) by linarith+
  define p where "p = d3 div 365"
  have "d3 = 365 * p + d3 mod 365" "d3 mod 365 < 365" "n = p - p div 4"
    by (simp_all add: p_def n_def)
  moreover from this split4(2) have "p \<in> {0, 1, 2, 3, 4}" by simp linarith
  ultimately have n: "n < 4" "d3 = 365 * n + d4" "d4 < 366" "d4 = 365 \<longrightarrow> n = 3 \<and> d3 = 1460"
    using split4(2) unfolding d4_def by auto
  have "d = 146097 * n400 + 36524 * n100 + 1461 * n4 + 365 * n + yd"
    using d1(1) n100(2) split4(1) n(2) y(2) by linarith
  with y n100 n4 n show ?thesis by blast
qed

lemma year_yday_inj:
  assumes "year_yday d = year_yday e"
  shows "d = e"
proof -
  obtain y yd where d: "year_yday d = (y, yd)" by fastforce
  with assms have e: "year_yday e = (y, yd)" by simp
  obtain a b c n where 1: "y = 400 * a + 100 * b + 4 * c + n" "b < 4" "c < 25" "n < 4"
      "d = 146097 * a + 36524 * b + 1461 * c + 365 * n + yd"
    using year_yday_bounds [OF d] by blast
  obtain a' b' c' n' where 2: "y = 400 * a' + 100 * b' + 4 * c' + n'" "b' < 4" "c' < 25" "n' < 4"
      "e = 146097 * a' + 36524 * b' + 1461 * c' + 365 * n' + yd"
    using year_yday_bounds [OF e] by blast
  have "a = a'" using 1(1-4) 2(1-4) by linarith
  moreover from this have "b = b'" using 1(1-4) 2(1-4) by linarith
  moreover from calculation have "c = c'" using 1(1-4) 2(1-4) by linarith
  ultimately show ?thesis using 1(1,5) 2(1,5) by simp
qed

definition yday_of :: "bool \<Rightarrow> nat \<times> nat \<Rightarrow> nat" where
  "yday_of leap md = daysBefore ! (fst md - 1) + snd md - 1 + (if leap \<and> fst md > 2 then 1 else 0)"

lemma daysBefore_bounds:
  assumes "m < 12"
  shows "daysBefore ! m \<le> 31 * m \<and> daysBefore ! (m + 1) \<le> daysBefore ! m + 31 \<and>
    31 * m \<le> daysBefore ! (m + 1) \<and> (m = 0 \<longrightarrow> daysBefore ! (m + 1) = 31) \<and>
    (1 \<le> m \<longrightarrow> 59 \<le> daysBefore ! (m + 1)) \<and> (m \<le> 1 \<longrightarrow> daysBefore ! (m + 1) \<le> 59) \<and>
    (m = 11 \<longrightarrow> daysBefore ! (m + 1) = 365)"
proof -
  have "m = 0 \<or> m = 1 \<or> m = 2 \<or> m = 3 \<or> m = 4 \<or> m = 5 \<or> m = 6 \<or> m = 7 \<or> m = 8 \<or> m = 9 \<or> m = 10 \<or> m = 11"
    using assms by presburger
  then show ?thesis by (elim disjE) (simp_all add: daysBefore_def)
qed

lemma month_day_inverse:
  assumes "yd < (if leap then 366 else 365)"
  shows "yday_of leap (month_day leap yd) = yd \<and> fst (month_day leap yd) < 13 \<and> snd (month_day leap yd) < 32"
proof (cases "leap \<and> yd = 59")
  case True
  then show ?thesis by (simp add: month_day_def yday_of_def daysBefore_def)
next
  case False
  define day where "day = (if leap \<and> yd > 59 then yd - 1 else yd)"
  with False assms have day: "day < 365" "yd = day + (if leap \<and> day \<ge> 59 then 1 else 0)"
    by (auto split: if_splits)
  define m where "m = day div 31"
  have "day = 31 * m + day mod 31" "day mod 31 < 31" by (simp_all add: m_def)
  then have m: "31 * m \<le> day" "day < 31 * m + 31" by linarith+
  then have "m < 12" using day(1) by linarith
  note tab = daysBefore_bounds [OF this]
  define b e where "b = daysBefore ! m" and "e = daysBefore ! (m + 1)"
  note tab = tab [folded b_def e_def]
  have md: "month_day leap yd = (if day \<ge> e then (m + 2, day - e + 1) else (m + 1, day - b + 1))"
    unfolding month_day_def Let_def m_def day_def b_def e_def if_not_P [OF False] by (rule refl)
  show ?thesis
  proof (cases "day \<ge> e")
    case True
    with md have "month_day leap yd = (m + 2, day - e + 1)" by simp
    moreover have "1 \<le> m" "59 \<le> day" "m \<noteq> 11" using True tab m day(1) by auto
    moreover from this \<open>m < 12\<close> have "m < 11" by simp
    moreover have "day - e < 31" using True tab m by linarith
    ultimately show ?thesis using True tab m day(2) by (simp add: yday_of_def e_def)
  next
    case False
    with md have "month_day leap yd = (m + 1, day - b + 1)" by simp
    moreover have "m + 1 > 2 \<longleftrightarrow> day \<ge> 59" using False tab m by linarith
    moreover have "day - b < 31" "b \<le> day" using False tab m by linarith+
    ultimately show ?thesis using False tab m day(2) \<open>m < 12\<close> by (simp add: yday_of_def b_def)
  qed
qed

lemma date_inj:
  assumes "date d = date e"
  shows "d = e"
proof -
  obtain y yd where d: "year_yday d = (y, yd)" by fastforce
  obtain y' yd' where e: "year_yday e = (y', yd')" by fastforce
  let ?l = "isLeap (y + 1)"
  from assms d e have y: "y = y'" and md: "month_day ?l yd = month_day ?l yd'"
    by (auto simp: date_def Let_def split: prod.splits)
  have bound: "yd < (if ?l then 366 else 365)" if yy: "year_yday d = (y, yd)" for d yd
  proof -
    obtain a b c n where 1: "y = 400 * a + 100 * b + 4 * c + n" "b < 4" "c < 25" "n < 4" "yd < 366"
        "yd = 365 \<longrightarrow> n = 3 \<and> (c \<noteq> 24 \<or> b = 3)"
      using year_yday_bounds [OF yy] by blast
    have "?l" if "yd = 365"
    proof -
      from that 1 have n: "n = 3" "c \<noteq> 24 \<or> b = 3" by auto
      have y4: "y + 1 = 4 * (100 * a + 25 * b + c + 1)" using 1(1) n(1) by simp
      show ?thesis
      proof (cases "c = 24")
        case True
        with n 1(1) have "y + 1 = 400 * (a + 1)" by simp
        then show ?thesis by (simp add: isLeap_def)
      next
        case False
        with 1(3) have "c + 1 < 25" by simp
        moreover have "(y + 1) mod 100 = 4 * (c + 1)"
        proof -
          have "y + 1 = 4 * (c + 1) + 100 * (4 * a + b)" using 1(1) n(1) by simp
          then have "(y + 1) mod 100 = 4 * (c + 1) mod 100" by (simp only: mod_mult_self2)
          with \<open>c + 1 < 25\<close> show ?thesis by simp
        qed
        ultimately show ?thesis using y4 by (simp add: isLeap_def)
      qed
    qed
    with 1(5) show ?thesis by (cases "yd = 365") auto
  qed
  have "yd = yd'"
    using month_day_inverse [OF bound [OF d]] month_day_inverse [OF bound [OF e [folded y]]] md by metis
  with d e y show ?thesis by (intro year_yday_inj) simp
qed

section \<open>The text determines the second\<close>

definition digits_value :: "string \<Rightarrow> nat" where
  "digits_value = foldl (\<lambda>a c. 10 * a + (of_char c - 48)) 0"

lemma of_char_digit [simp]: "of_char (digit n) = 48 + n mod 10"
proof -
  have "48 + n mod 10 < 256" using mod_less_divisor [of 10 n] by linarith
  then show ?thesis by (simp add: digit_def)
qed

lemma digits_value_decimal: "foldl (\<lambda>a c. 10 * a + (of_char c - 48)) 0 (decimal n) = n"
  by (induction n rule: decimal.induct) (subst decimal.simps, simp)

lemma digits_value_zeros: "foldl (\<lambda>a c. 10 * a + (of_char c - 48)) 0 (replicate k CHR ''0'') = (0::nat)"
  by (induction k) (simp_all flip: replicate_append_same)

lemma digits_value_appendInt: "digits_value (appendInt w n) = n"
  by (simp add: digits_value_def appendInt_def digits_value_zeros digits_value_decimal)

lemma appendInt_inj: "appendInt w m = appendInt w n \<Longrightarrow> m = n"
  by (metis digits_value_appendInt)

lemma decimal_digits: "c \<in> set (decimal n) \<Longrightarrow> \<exists>k. c = digit k"
proof (induction n rule: decimal.induct)
  case (1 n)
  then show ?case by (subst (asm) (2) decimal.simps) (auto split: if_splits)
qed

lemma digit_not_dash: "digit k \<noteq> CHR ''-''"
proof
  assume "digit k = CHR ''-''"
  then have "of_char (digit k) = (of_char CHR ''-'' :: nat)" by simp
  then show False by simp
qed

lemma appendInt_no_dash: "CHR ''-'' \<notin> set (appendInt w n)"
  using digit_not_dash decimal_digits by (fastforce simp: appendInt_def)

lemma length_appendInt2: "n < 100 \<Longrightarrow> length (appendInt 2 n) = 2"
proof (cases "n < 10")
  assume "n < 100" "\<not> n < 10"
  then have "n div 10 < 10" by simp
  with \<open>\<not> n < 10\<close> show ?thesis
    by (simp add: appendInt_def decimal.simps [of n] decimal.simps [of "n div 10"])
qed (simp add: appendInt_def decimal.simps [of n])

lemma split_at_dash:
  assumes "xs @ CHR ''-'' # us = ys @ CHR ''-'' # vs" "CHR ''-'' \<notin> set xs" "CHR ''-'' \<notin> set ys"
  shows "xs = ys \<and> us = vs"
proof -
  have "takeWhile (\<lambda>c. c \<noteq> CHR ''-'') (xs @ CHR ''-'' # us) = xs" "takeWhile (\<lambda>c. c \<noteq> CHR ''-'') (ys @ CHR ''-'' # vs) = ys"
    using assms(2,3) by (auto simp: takeWhile_append takeWhile_eq_all_conv)
  with assms(1) have "xs = ys" by simp
  with assms(1) show ?thesis by simp
qed

lemma month_day_bounds:
  assumes "date d = (y, m, dy)"
  shows "m < 100 \<and> dy < 100"
proof -
  obtain z yd where d: "year_yday d = (z, yd)" by fastforce
  then have "yd < 366" using year_yday_bounds by blast
  have "fst (month_day l yd) < 100 \<and> snd (month_day l yd) < 100" for l
  proof (cases "l \<or> yd < 365")
    case True
    then have "yd < (if l then 366 else 365)" using \<open>yd < 366\<close> by auto
    from month_day_inverse [OF this] show ?thesis by simp
  next
    case False
    with \<open>yd < 366\<close> have "yd = 365" "\<not> l" by auto
    then show ?thesis by (simp add: month_day_def daysBefore_def)
  qed
  from this [of "isLeap (z + 1)"] assms d show ?thesis by (auto simp: date_def split: prod.splits)
qed

theorem RFC3339_second:
  assumes "RFC3339 s = RFC3339 t" "0 \<le> s" "0 \<le> t"
  shows "s div 1000000 = t div 1000000"
proof -
  define a b where "a = nat (s div 1000000)" and "b = nat (t div 1000000)"
  obtain y m d where da: "date (a div 86400) = (y, m, d)" by (cases "date (a div 86400)") auto
  obtain y' m' d' where db: "date (b div 86400) = (y', m', d')" by (cases "date (b div 86400)") auto
  let ?r = "\<lambda>m d abs. appendInt 2 m @ ''-'' @ appendInt 2 d @ ''T'' @ appendInt 2 (abs div 3600) @ '':'' @
    appendInt 2 (abs mod 3600 div 60) @ '':'' @ appendInt 2 (abs mod 60) @ ''Z''"
  have "appendInt 4 y @ CHR ''-'' # ?r m d (a mod 86400) = appendInt 4 y' @ CHR ''-'' # ?r m' d' (b mod 86400)"
    using assms(1) by (simp add: RFC3339_def Let_def da db flip: a_def b_def)
  from split_at_dash [OF this appendInt_no_dash appendInt_no_dash]
  have y: "y = y'" and rest: "?r m d (a mod 86400) = ?r m' d' (b mod 86400)"
    by (auto dest: appendInt_inj)
  have two: "k mod 86400 div 3600 < 100" "k mod 86400 mod 3600 div 60 < 100" "k mod 86400 mod 60 < 100" for k :: nat
  proof -
    have "k mod 86400 < 86400" "k mod 86400 mod 3600 < 3600" "k mod 86400 mod 60 < 60" by simp_all
    then show "k mod 86400 div 3600 < 100" "k mod 86400 mod 3600 div 60 < 100" "k mod 86400 mod 60 < 100"
      by (simp_all add: div_less_iff_less_mult)
  qed
  note len = length_appendInt2 [OF two(1)] length_appendInt2 [OF two(2)] length_appendInt2 [OF two(3)]
    length_appendInt2 [OF month_day_bounds [OF da, THEN conjunct1]] length_appendInt2 [OF month_day_bounds [OF da, THEN conjunct2]]
    length_appendInt2 [OF month_day_bounds [OF db, THEN conjunct1]] length_appendInt2 [OF month_day_bounds [OF db, THEN conjunct2]]
  from rest have parts: "m = m'" "d = d'" "a mod 86400 div 3600 = b mod 86400 div 3600"
      "a mod 86400 mod 3600 div 60 = b mod 86400 mod 3600 div 60" "a mod 86400 mod 60 = b mod 86400 mod 60"
    by (auto simp: len dest: appendInt_inj)
  have day: "a div 86400 = b div 86400" using date_inj da db y parts(1,2) by metis
  have hms: "k mod 86400 = 3600 * (k mod 86400 div 3600) + 60 * (k mod 86400 mod 3600 div 60) + k mod 86400 mod 60" for k :: nat
  proof -
    let ?k = "k mod 86400"
    have "?k = 3600 * (?k div 3600) + ?k mod 3600" "?k mod 3600 = 60 * (?k mod 3600 div 60) + ?k mod 3600 mod 60"
      by simp_all
    moreover have "?k mod 3600 mod 60 = ?k mod 60" by (intro mod_mod_cancel) simp
    ultimately show ?thesis by linarith
  qed
  have "a mod 86400 = b mod 86400" using hms [of a] hms [of b] parts by linarith
  with day have "a = b" by (metis div_mod_decomp)
  with assms(2,3) show ?thesis by (simp add: a_def b_def eq_nat_nat_iff)
qed

end
