(* ===== verification/Go_Text.thy ===== *)
theory Go_Text
  imports Prelude
begin

text \<open>
  What the repository uses of Go's packages \<open>strings\<close> and \<open>encoding/json\<close> on byte
  strings: \<open>strings.TrimSpace\<close> and \<open>json.Valid\<close>. The validity check is the push-down
  automaton of the library: a state, a stack of open objects and arrays, one step per byte.
\<close>

section \<open>TrimSpace\<close>

text \<open>The UTF-8 encodings of the runes with the property White_Space.\<close>

definition space_runes :: "string list" where
  "space_runes =
     [[CHR 0x09], [CHR 0x0A], [CHR 0x0B], [CHR 0x0C], [CHR 0x0D], [CHR 0x20],
      [CHR 0xC2, CHR 0x85], [CHR 0xC2, CHR 0xA0], [CHR 0xE1, CHR 0x9A, CHR 0x80],
      [CHR 0xE2, CHR 0x80, CHR 0x80], [CHR 0xE2, CHR 0x80, CHR 0x81], [CHR 0xE2, CHR 0x80, CHR 0x82],
      [CHR 0xE2, CHR 0x80, CHR 0x83], [CHR 0xE2, CHR 0x80, CHR 0x84], [CHR 0xE2, CHR 0x80, CHR 0x85],
      [CHR 0xE2, CHR 0x80, CHR 0x86], [CHR 0xE2, CHR 0x80, CHR 0x87], [CHR 0xE2, CHR 0x80, CHR 0x88],
      [CHR 0xE2, CHR 0x80, CHR 0x89], [CHR 0xE2, CHR 0x80, CHR 0x8A], [CHR 0xE2, CHR 0x80, CHR 0xA8],
      [CHR 0xE2, CHR 0x80, CHR 0xA9], [CHR 0xE2, CHR 0x80, CHR 0xAF], [CHR 0xE2, CHR 0x81, CHR 0x9F],
      [CHR 0xE3, CHR 0x80, CHR 0x80]]"

definition strip_one :: "string list \<Rightarrow> string \<Rightarrow> string option" where
  "strip_one rs s = (case find (\<lambda>r. take (length r) s = r) rs of
     None \<Rightarrow> None | Some r \<Rightarrow> Some (drop (length r) s))"

text \<open>Each round removes at least one byte, so the length is fuel enough.\<close>

fun strip_all :: "string list \<Rightarrow> nat \<Rightarrow> string \<Rightarrow> string" where
  "strip_all rs 0 s = s"
| "strip_all rs (Suc n) s = (case strip_one rs s of None \<Rightarrow> s | Some s' \<Rightarrow> strip_all rs n s')"

definition TrimSpace :: "string \<Rightarrow> string" where
  "TrimSpace s =
     (let s = strip_all space_runes (length s) s in
      rev (strip_all (map rev space_runes) (length s) (rev s)))"

lemma strip_one_shorter:
  assumes "[] \<notin> set rs" "strip_one rs s = Some s'"
  shows "length s' < length s"
  using assms by (auto simp: strip_one_def find_Some_iff split: option.splits)
    (metis diff_less length_0_conv length_drop length_greater_0_conv nth_mem take_eq_Nil)

lemma strip_all_done:
  assumes "[] \<notin> set rs" "length s \<le> n"
  shows "strip_one rs (strip_all rs n s) = None"
  using assms(2)
proof (induction n arbitrary: s)
  case 0
  then have "find (\<lambda>r. take (length r) s = r) rs = None"
    using assms(1) by (simp add: find_None_iff)
  then show ?case by (simp add: strip_one_def)
next
  case (Suc n)
  then show ?case
    using strip_one_shorter [OF assms(1), of s] by (cases "strip_one rs s") fastforce+
qed

lemma strip_all_id: "strip_one rs s = None \<Longrightarrow> strip_all rs n s = s"
  by (cases n) simp_all

section \<open>JSON\<close>

datatype scan_state =
    BeginValue | BeginValueOrEmpty | BeginStringOrEmpty | BeginString | EndValue | EndTop
  | InString | InStringEsc | InStringEscU | InStringEscU1 | InStringEscU12 | InStringEscU123
  | StNeg | St1 | St0 | StDot | StDot0 | StE | StESign | StE0
  | StT | StTr | StTru | StF | StFa | StFal | StFals | StN | StNu | StNul | StError

datatype parse_state = ParseObjectKey | ParseObjectValue | ParseArrayValue

type_synonym scanner = "scan_state \<times> parse_state list"

definition maxNestingDepth :: nat where
  "maxNestingDepth = 10000"

definition isSpace :: "char \<Rightarrow> bool" where
  "isSpace c \<longleftrightarrow> c \<in> set [CHR 0x20, CHR 0x09, CHR 0x0D, CHR 0x0A]"

definition isDigit :: "char \<Rightarrow> bool" where
  "isDigit c \<longleftrightarrow> (48::nat) \<le> of_char c \<and> of_char c \<le> (57::nat)"

definition isHex :: "char \<Rightarrow> bool" where
  "isHex c \<longleftrightarrow> isDigit c \<or> ((97::nat) \<le> of_char c \<and> of_char c \<le> (102::nat)) \<or>
     ((65::nat) \<le> of_char c \<and> of_char c \<le> (70::nat))"

definition pushParseState :: "scan_state \<Rightarrow> parse_state \<Rightarrow> parse_state list \<Rightarrow> scanner" where
  "pushParseState st p ps = (if length (p # ps) \<le> maxNestingDepth then (st, p # ps) else (StError, p # ps))"

definition popParseState :: "parse_state list \<Rightarrow> scanner" where
  "popParseState ps = (case tl ps of [] \<Rightarrow> (EndTop, []) | ps' \<Rightarrow> (EndValue, ps'))"

fun stateEndValue :: "parse_state list \<Rightarrow> char \<Rightarrow> scanner" where
  "stateEndValue [] c = (if isSpace c then (EndTop, []) else (StError, []))"
| "stateEndValue (p # ps) c =
     (if isSpace c then (EndValue, p # ps)
      else case p of
        ParseObjectKey \<Rightarrow> if c = CHR '':'' then (BeginValue, ParseObjectValue # ps) else (StError, p # ps)
      | ParseObjectValue \<Rightarrow> if c = CHR '','' then (BeginString, ParseObjectKey # ps)
          else if c = CHR ''}'' then popParseState (p # ps) else (StError, p # ps)
      | ParseArrayValue \<Rightarrow> if c = CHR '','' then (BeginValue, p # ps)
          else if c = CHR '']'' then popParseState (p # ps) else (StError, p # ps))"

definition stateBeginValue :: "parse_state list \<Rightarrow> char \<Rightarrow> scanner" where
  "stateBeginValue ps c =
     (if isSpace c then (BeginValue, ps)
      else if c = CHR ''{'' then pushParseState BeginStringOrEmpty ParseObjectKey ps
      else if c = CHR ''['' then pushParseState BeginValueOrEmpty ParseArrayValue ps
      else if c = CHR 0x22 then (InString, ps)
      else if c = CHR ''-'' then (StNeg, ps)
      else if c = CHR ''0'' then (St0, ps)
      else if c = CHR ''t'' then (StT, ps)
      else if c = CHR ''f'' then (StF, ps)
      else if c = CHR ''n'' then (StN, ps)
      else if isDigit c then (St1, ps)
      else (StError, ps))"

definition stateBeginString :: "parse_state list \<Rightarrow> char \<Rightarrow> scanner" where
  "stateBeginString ps c =
     (if isSpace c then (BeginString, ps) else if c = CHR 0x22 then (InString, ps) else (StError, ps))"

definition state0 :: "parse_state list \<Rightarrow> char \<Rightarrow> scanner" where
  "state0 ps c =
     (if c = CHR ''.'' then (StDot, ps)
      else if c = CHR ''e'' \<or> c = CHR ''E'' then (StE, ps) else stateEndValue ps c)"

definition stateESign :: "parse_state list \<Rightarrow> char \<Rightarrow> scanner" where
  "stateESign ps c = (if isDigit c then (StE0, ps) else (StError, ps))"

definition expect :: "char \<Rightarrow> scan_state \<Rightarrow> parse_state list \<Rightarrow> char \<Rightarrow> scanner" where
  "expect e st ps c = (if c = e then (st, ps) else (StError, ps))"

fun json_step :: "scanner \<Rightarrow> char \<Rightarrow> scanner" where
  "json_step (BeginValue, ps) c = stateBeginValue ps c"
| "json_step (BeginValueOrEmpty, ps) c =
     (if isSpace c then (BeginValueOrEmpty, ps)
      else if c = CHR '']'' then stateEndValue ps c else stateBeginValue ps c)"
| "json_step (BeginStringOrEmpty, ps) c =
     (if isSpace c then (BeginStringOrEmpty, ps)
      else if c = CHR ''}'' then stateEndValue (ParseObjectValue # tl ps) c
      else stateBeginString ps c)"
| "json_step (BeginString, ps) c = stateBeginString ps c"
| "json_step (EndValue, ps) c = stateEndValue ps c"
| "json_step (EndTop, ps) c = (if isSpace c then (EndTop, ps) else (StError, ps))"
| "json_step (InString, ps) c =
     (if c = CHR 0x22 then (EndValue, ps)
      else if c = CHR 0x5C then (InStringEsc, ps)
      else if of_char c < (32::nat) then (StError, ps)
      else (InString, ps))"
| "json_step (InStringEsc, ps) c =
     (if c \<in> set [CHR ''b'', CHR ''f'', CHR ''n'', CHR ''r'', CHR ''t'', CHR 0x5C, CHR ''/'', CHR 0x22]
      then (InString, ps) else if c = CHR ''u'' then (InStringEscU, ps) else (StError, ps))"
| "json_step (InStringEscU, ps) c = (if isHex c then (InStringEscU1, ps) else (StError, ps))"
| "json_step (InStringEscU1, ps) c = (if isHex c then (InStringEscU12, ps) else (StError, ps))"
| "json_step (InStringEscU12, ps) c = (if isHex c then (InStringEscU123, ps) else (StError, ps))"
| "json_step (InStringEscU123, ps) c = (if isHex c then (InString, ps) else (StError, ps))"
| "json_step (StNeg, ps) c =
     (if c = CHR ''0'' then (St0, ps) else if isDigit c then (St1, ps) else (StError, ps))"
| "json_step (St1, ps) c = (if isDigit c then (St1, ps) else state0 ps c)"
| "json_step (St0, ps) c = state0 ps c"
| "json_step (StDot, ps) c = (if isDigit c then (StDot0, ps) else (StError, ps))"
| "json_step (StDot0, ps) c =
     (if isDigit c then (StDot0, ps)
      else if c = CHR ''e'' \<or> c = CHR ''E'' then (StE, ps) else stateEndValue ps c)"
| "json_step (StE, ps) c = (if c = CHR ''+'' \<or> c = CHR ''-'' then (StESign, ps) else stateESign ps c)"
| "json_step (StESign, ps) c = stateESign ps c"
| "json_step (StE0, ps) c = (if isDigit c then (StE0, ps) else stateEndValue ps c)"
| "json_step (StT, ps) c = expect CHR ''r'' StTr ps c"
| "json_step (StTr, ps) c = expect CHR ''u'' StTru ps c"
| "json_step (StTru, ps) c = expect CHR ''e'' EndValue ps c"
| "json_step (StF, ps) c = expect CHR ''a'' StFa ps c"
| "json_step (StFa, ps) c = expect CHR ''l'' StFal ps c"
| "json_step (StFal, ps) c = expect CHR ''s'' StFals ps c"
| "json_step (StFals, ps) c = expect CHR ''e'' EndValue ps c"
| "json_step (StN, ps) c = expect CHR ''u'' StNu ps c"
| "json_step (StNu, ps) c = expect CHR ''l'' StNul ps c"
| "json_step (StNul, ps) c = expect CHR ''l'' EndValue ps c"
| "json_step (StError, ps) c = (StError, ps)"

text \<open>At the end of the input the scanner is fed one space unless the value is complete.\<close>

definition json_Valid :: "string \<Rightarrow> bool" where
  "json_Valid s =
     (let sc = foldl json_step (BeginValue, []) s in
      fst sc = EndTop \<or> fst sc \<noteq> StError \<and> fst (json_step sc CHR '' '') = EndTop)"

lemma json_Valid_empty_object: "json_Valid ''{}''"
  by (simp add: json_Valid_def stateBeginValue_def isSpace_def pushParseState_def maxNestingDepth_def
      popParseState_def)

end
