(* ===== verification/Scheduler.thy ===== *)
theory Scheduler
  imports Queue_Ops Go_Time Go_Text
begin

text \<open>
  The cron scheduler: \<open>src/internal/scheduler/scheduler.go\<close> (leadership by an advisory
  lock, the tick, firing an occurrence) and \<open>src/internal/scheduler/store.go\<close> (the API's
  schedule store). The queue that the scheduler enqueues into is an argument \<open>enq\<close> of the
  operations, as it is a field of the struct; the locale \<open>enqueuer\<close> states what the
  scheduler relies on, and its interpretation discharges it for \<open>Queue.Enqueue\<close>.

  Time reaches the operations as an argument: \<open>now\<close> of \<open>Tick\<close> as in the code, and per call
  the record \<open>call_env\<close> of what one \<open>Enqueue\<close> reads from its surroundings.
\<close>

section \<open>Schedules\<close>

record Schedule =
  s_ID :: uuid
  s_TenantID :: uuid
  s_Name :: string
  s_CronExpr :: string
  s_Payload :: string
  s_Queue :: string
  s_Handler :: string
  s_NextRunAt :: time
  s_Enabled :: bool

definition Next :: "ext \<Rightarrow> string \<Rightarrow> time \<Rightarrow> error + time" where
  "Next X expr from =
     (case cron_Parse X expr of Inl e \<Rightarrow> Inl e | Inr schedule \<Rightarrow> Inr (schedule from))"

definition IdempotencyKey_of :: "ext \<Rightarrow> uuid \<Rightarrow> time \<Rightarrow> string" where
  "IdempotencyKey_of X scheduleID runAt =
     ''schedule:'' @ uuid_String X scheduleID @ '':'' @ RFC3339 runAt"

text \<open>A row with its \<open>NULL\<close>s replaced as the queries do, and the time of its next run.\<close>

definition schedule_of :: "schedule_row \<Rightarrow> time \<Rightarrow> Schedule" where
  "schedule_of r next =
     \<lparr>s_ID = sc_id r, s_TenantID = sc_tenant_id r, s_Name = coalesce (sc_name r) '''',
      s_CronExpr = sc_cron_expr r, s_Payload = coalesce (sc_payload r) ''{}'',
      s_Queue = coalesce (sc_queue r) ''default'', s_Handler = sc_handler r,
      s_NextRunAt = next, s_Enabled = sc_enabled r\<rparr>"

text \<open>A \<open>NULL\<close> cannot be scanned into a \<open>time.Time\<close>.\<close>

definition scan_row :: "schedule_row \<Rightarrow> error + Schedule" where
  "scan_row r = (case sc_next_run_at r of None \<Rightarrow> Inl ErrNullScan | Some t \<Rightarrow> Inr (schedule_of r t))"

section \<open>The tick\<close>

record call_env =
  e_gonow :: time
  e_now :: time
  e_newid :: uuid
  e_elapsed :: duration

type_synonym 'r enqueue_fn = "call_env \<Rightarrow> EnqueueParams \<Rightarrow> 'r prog"

definition queue_enqueue :: "ext \<Rightarrow> (job \<times> bool \<times> duration) enqueue_fn" where
  "queue_enqueue X e p = Enqueue X (e_gonow e) (e_now e) (e_newid e) (e_elapsed e) p"

text \<open>
  The lock belongs to a session of the server. A session whose connection fails is closed
  by the driver, and the server then releases its locks.
\<close>

definition close_session :: "nat \<Rightarrow> pg \<Rightarrow> pg" where
  "close_session sess s = (if advisory s = Some sess then s\<lparr>advisory := None\<rparr> else s)"

definition lock_act :: "nat \<Rightarrow> pg \<Rightarrow> (error + bool) \<times> pg" where
  "lock_act sess s =
     (if advisory s = None \<or> advisory s = Some sess then (Inr True, s\<lparr>advisory := Some sess\<rparr>)
      else (Inr False, s))"

definition tryLock :: "nat \<Rightarrow> bool prog" where
  "tryLock sess = State (\<lambda>s.
     (let s' = s\<lparr>faults := tl (faults s)\<rparr> in
      case faults s of
        [] \<Rightarrow> lock_act sess s
      | NoFault # _ \<Rightarrow> lock_act sess s'
      | Refused m # _ \<Rightarrow> (Inl (ErrDriver m), close_session sess s')
      | ReplyLost m # _ \<Rightarrow> (Inl (ErrDriver m), close_session sess s')))"

text \<open>
  \<open>SELECT pg_advisory_unlock($1)\<close> releases the lock if this session has it. The deferred call of \<open>Tick\<close>
  takes the connection out of the pool and closes it when that fails, and the server then
  releases the locks of the session.
\<close>

definition unlock_stmt :: "nat \<Rightarrow> unit prog" where
  "unlock_stmt sess = round_trip (\<lambda>s. (Inr (), if advisory s = Some sess then s\<lparr>advisory := None\<rparr> else s))"

definition unlock :: "nat \<Rightarrow> (pg, unit) state" where
  "unlock sess = do {
     r \<leftarrow> unlock_stmt sess;
     case r of
       Inl err \<Rightarrow> State (\<lambda>s. ((), close_session sess s))
     | Inr _ \<Rightarrow> State_Monad.return () }"

text \<open>On every path the lock is given back.\<close>

lemma run_unlock: "run_state (unlock sess) s = ((), close_session sess (s\<lparr>faults := tl (faults s)\<rparr>))"
  by (cases "faults s"; cases "hd (faults s)")
    (auto simp: unlock_def unlock_stmt_def round_trip_def close_session_def Let_def)

definition acquire :: "unit prog" where
  "acquire = round_trip (\<lambda>s. (Inr (), s))"

definition missing_next :: "db \<Rightarrow> (uuid \<times> string) list" where
  "missing_next d = map (\<lambda>r. (sc_id r, sc_cron_expr r))
     (filter (\<lambda>r. sc_enabled r \<and> sc_next_run_at r = None) (schedules d))"

definition set_next_run :: "uuid \<Rightarrow> time \<Rightarrow> unit txn" where
  "set_next_run i next d =
     Inr ((), d\<lparr>schedules := sql_update (\<lambda>r. sc_id r = i) (\<lambda>r. r\<lparr>sc_next_run_at := Some next\<rparr>) (schedules d)\<rparr>)"

fun init_all :: "ext \<Rightarrow> time \<Rightarrow> (uuid \<times> string) list \<Rightarrow> unit prog" where
  "init_all X now [] = ok ()"
| "init_all X now ((i, expr) # rest) =
     (case Next X expr now of
        Inl e \<Rightarrow> fail e
      | Inr next \<Rightarrow> tryM (stmt (set_next_run i next)) (\<lambda>_. init_all X now rest))"

definition initializeNextRuns :: "ext \<Rightarrow> time \<Rightarrow> unit prog" where
  "initializeNextRuns X now = tryM (stmt (\<lambda>d. Inr (missing_next d, d))) (init_all X now)"

definition due :: "time \<Rightarrow> schedule_row \<Rightarrow> bool" where
  "due now r \<longleftrightarrow> sc_enabled r \<and> (case sc_next_run_at r of None \<Rightarrow> False | Some t \<Rightarrow> t \<le> now)"

definition due_schedules :: "time \<Rightarrow> db \<Rightarrow> Schedule list" where
  "due_schedules now d =
     map (\<lambda>r. schedule_of r (the (sc_next_run_at r)))
       (sql_order_by (\<lambda>r. the (sc_next_run_at r)) (filter (due now) (schedules d)))"

definition schedule_params :: "ext \<Rightarrow> Schedule \<Rightarrow> EnqueueParams" where
  "schedule_params X schedule =
     \<lparr>p_TenantID = s_TenantID schedule, p_Queue = s_Queue schedule, p_Handler = s_Handler schedule,
      p_Payload = s_Payload schedule, p_Priority = 0, p_MaxAttempts = 0, p_RunAt = zero_time,
      p_IdempotencyKey = IdempotencyKey_of X (s_ID schedule) (s_NextRunAt schedule)\<rparr>"

definition advance_schedule :: "uuid \<Rightarrow> time \<Rightarrow> time \<Rightarrow> unit txn" where
  "advance_schedule i runAt next d =
     Inr ((), d\<lparr>schedules := sql_update (\<lambda>r. sc_id r = i)
       (\<lambda>r. r\<lparr>sc_last_run_at := Some runAt, sc_next_run_at := Some next\<rparr>) (schedules d)\<rparr>)"

definition fire :: "'r enqueue_fn \<Rightarrow> ext \<Rightarrow> call_env \<Rightarrow> Schedule \<Rightarrow> unit prog" where
  "fire enq X e schedule =
     (case Next X (s_CronExpr schedule) (s_NextRunAt schedule) of
        Inl err \<Rightarrow> fail err
      | Inr next \<Rightarrow>
          tryM (enq e (schedule_params X schedule)) (\<lambda>_.
          stmt (advance_schedule (s_ID schedule) (s_NextRunAt schedule) next)))"

text \<open>An error of \<open>fire\<close> is logged and the loop goes on.\<close>

fun fire_all :: "'r enqueue_fn \<Rightarrow> ext \<Rightarrow> (nat \<Rightarrow> call_env) \<Rightarrow> nat \<Rightarrow> Schedule list \<Rightarrow> (pg, unit) state" where
  "fire_all enq X env i [] = State_Monad.return ()"
| "fire_all enq X env i (schedule # rest) =
     do { _ \<leftarrow> fire enq X (env i) schedule; fire_all enq X env (Suc i) rest }"

text \<open>
  The rows arrive while the loop runs: \<open>brk\<close> is \<open>None\<close> if all of them do, else the number
  of rows before the connection broke and its message.
\<close>

definition received :: "(nat \<times> string) option \<Rightarrow> 'a list \<Rightarrow> 'a list" where
  "received brk rows = (case brk of None \<Rightarrow> rows | Some (n, _) \<Rightarrow> take n rows)"

definition rows_Err :: "(nat \<times> string) option \<Rightarrow> unit prog" where
  "rows_Err brk = (case brk of None \<Rightarrow> ok () | Some (_, m) \<Rightarrow> fail (ErrDriver m))"

definition tick_body ::
  "'r enqueue_fn \<Rightarrow> ext \<Rightarrow> time \<Rightarrow> (nat \<Rightarrow> call_env) \<Rightarrow> (nat \<times> string) option \<Rightarrow> unit prog" where
  "tick_body enq X now env brk =
     tryM (initializeNextRuns X now) (\<lambda>_.
     tryM (stmt (\<lambda>d. Inr (due_schedules now d, d))) (\<lambda>rows.
     do { _ \<leftarrow> fire_all enq X env 0 (received brk rows); rows_Err brk }))"

definition Tick ::
  "'r enqueue_fn \<Rightarrow> ext \<Rightarrow> nat \<Rightarrow> time \<Rightarrow> (nat \<Rightarrow> call_env) \<Rightarrow> (nat \<times> string) option \<Rightarrow> unit prog" where
  "Tick enq X sess now env brk =
     tryM acquire (\<lambda>_.
     tryM (tryLock sess) (\<lambda>locked.
     if \<not> locked then ok ()
     else do { r \<leftarrow> tick_body enq X now env brk; _ \<leftarrow> unlock sess; State_Monad.return r }))"

section \<open>The schedule store\<close>

record CreateParams =
  cp_TenantID :: uuid
  cp_Name :: string
  cp_CronExpr :: string
  cp_Payload :: string
  cp_Queue :: string
  cp_Handler :: string

definition normalizeCreate :: "CreateParams \<Rightarrow> CreateParams" where
  "normalizeCreate p =
     p\<lparr>cp_Name := TrimSpace (cp_Name p), cp_CronExpr := TrimSpace (cp_CronExpr p),
       cp_Queue := (if TrimSpace (cp_Queue p) = '''' then ''default'' else TrimSpace (cp_Queue p)),
       cp_Handler := TrimSpace (cp_Handler p),
       cp_Payload := (if length (cp_Payload p) = 0 then ''{}'' else cp_Payload p)\<rparr>"

text \<open>The \<open>CHECK\<close> constraints of \<open>schedules\<close>; \<open>trim\<close> of SQL removes spaces only.\<close>

definition sql_trim :: "string \<Rightarrow> string" where
  "sql_trim s = rev (dropWhile (\<lambda>c. c = CHR '' '') (rev (dropWhile (\<lambda>c. c = CHR '' '') s)))"

definition schedules_check :: "schedule_row \<Rightarrow> bool" where
  "schedules_check r \<longleftrightarrow> length (sql_trim (sc_cron_expr r)) > 0 \<and> length (sql_trim (sc_handler r)) > 0"

definition new_schedule :: "uuid \<Rightarrow> string \<Rightarrow> CreateParams \<Rightarrow> time \<Rightarrow> schedule_row" where
  "new_schedule i payload p next =
     \<lparr>sc_id = i, sc_tenant_id = cp_TenantID p, sc_name = Some (cp_Name p), sc_cron_expr = cp_CronExpr p,
      sc_payload = Some payload, sc_queue = Some (cp_Queue p), sc_handler = cp_Handler p,
      sc_enabled = True, sc_last_run_at = None, sc_next_run_at = Some next\<rparr>"

definition insert_schedule :: "ext \<Rightarrow> uuid \<Rightarrow> CreateParams \<Rightarrow> time \<Rightarrow> schedule_row txn" where
  "insert_schedule X i p next d =
     (case jsonb_in X (cp_Payload p) of
        None \<Rightarrow> Inl (ErrConstraint ''jsonb'')
      | Some payload \<Rightarrow>
          (let r = new_schedule i payload p next in
           if \<not> schedules_check r then Inl (ErrConstraint ''schedules_check'')
           else if i \<in> sc_id ` set (schedules d) then Inl (ErrConstraint ''schedules_pkey'')
           else if cp_TenantID p \<notin> t_id ` set (tenants d) then Inl (ErrConstraint ''schedules_tenant_id_fkey'')
           else Inr (r, d\<lparr>schedules := schedules d @ [r]\<rparr>)))"

text \<open>Scanning happens in the client, after the statement took effect.\<close>

definition scanSchedule :: "schedule_row prog \<Rightarrow> Schedule prog" where
  "scanSchedule row =
     tryM (norows ErrScheduleNotFound row) (\<lambda>r. case scan_row r of Inl e \<Rightarrow> fail e | Inr schedule \<Rightarrow> ok schedule)"

definition Create :: "ext \<Rightarrow> time \<Rightarrow> uuid \<Rightarrow> CreateParams \<Rightarrow> Schedule prog" where
  "Create X gonow newid p =
     (let p = normalizeCreate p in
      if cp_Name p = '''' \<or> cp_CronExpr p = '''' \<or> cp_Handler p = ''''
      then fail (ErrMessage ''name, cron_expr, and handler are required'')
      else if \<not> json_Valid (cp_Payload p) then fail (ErrMessage ''payload must be valid JSON'')
      else case Next X (cp_CronExpr p) gonow of
        Inl e \<Rightarrow> fail e
      | Inr next \<Rightarrow>
          tryM (stmt (insert_tenant (cp_TenantID p) (uuid_String X (cp_TenantID p)))) (\<lambda>_.
          scanSchedule (stmt (insert_schedule X newid p next))))"

fun scan_all :: "schedule_row list \<Rightarrow> error + Schedule list" where
  "scan_all [] = Inr []"
| "scan_all (r # rs) =
     (case scan_row r of Inl e \<Rightarrow> Inl e
      | Inr s \<Rightarrow> (case scan_all rs of Inl e \<Rightarrow> Inl e | Inr out \<Rightarrow> Inr (s # out)))"

text \<open>\<open>coll\<close> is the collation of the database; \<open>NULL\<close> names come last.\<close>

definition list_order :: "(string \<Rightarrow> 'k::linorder) \<Rightarrow> schedule_row \<Rightarrow> nat \<times> 'k \<times> uuid" where
  "list_order coll r = (case sc_name r of None \<Rightarrow> (1, coll '''', sc_id r) | Some n \<Rightarrow> (0, coll n, sc_id r))"

definition ListSchedules :: "(string \<Rightarrow> 'k::linorder) \<Rightarrow> Schedule list prog" where
  "ListSchedules coll =
     tryM (stmt (\<lambda>d. Inr (sql_order_by (list_order coll) (schedules d), d))) (\<lambda>rows.
     case scan_all rows of Inl e \<Rightarrow> fail e | Inr out \<Rightarrow> ok out)"

definition set_enabled :: "uuid \<Rightarrow> bool \<Rightarrow> schedule_row txn" where
  "set_enabled i enabled d =
     (case filter (\<lambda>r. sc_id r = i) (schedules d) of
        [] \<Rightarrow> Inl ErrNoRows
      | r # _ \<Rightarrow> Inr (r\<lparr>sc_enabled := enabled\<rparr>,
          d\<lparr>schedules := sql_update (\<lambda>r. sc_id r = i) (\<lambda>r. r\<lparr>sc_enabled := enabled\<rparr>) (schedules d)\<rparr>))"

definition SetEnabled :: "uuid \<Rightarrow> bool \<Rightarrow> Schedule prog" where
  "SetEnabled i enabled = scanSchedule (stmt (set_enabled i enabled))"

definition delete_schedule :: "uuid \<Rightarrow> nat txn" where
  "delete_schedule i d =
     Inr (length (filter (\<lambda>r. sc_id r = i) (schedules d)),
          d\<lparr>schedules := sql_delete (\<lambda>r. sc_id r = i) (schedules d)\<rparr>)"

definition Delete :: "uuid \<Rightarrow> unit prog" where
  "Delete i =
     tryM (stmt (delete_schedule i)) (\<lambda>rowsAffected.
     if rowsAffected = 0 then fail ErrScheduleNotFound else ok ())"

end
