(* ===== verification/Scheduler_Props.thy ===== *)
theory Scheduler_Props
  imports Queue_Props Scheduler
begin

text \<open>
  What the scheduler guarantees: only the holder of the advisory lock works and the lock is
  always given back; an occurrence of a schedule is enqueued at most once, whatever fails
  and however often the tick is repeated; a tick without failures fires everything that is
  due and advances it; and the cases in which the code does not do what it means to.
\<close>

section \<open>What the scheduler relies on\<close>

locale enqueuer =
  fixes enq :: "'r enqueue_fn" and key_of :: "EnqueueParams \<Rightarrow> uuid \<times> string"
  assumes frame: "working s = None \<Longrightarrow> run_state (enq e p) s = (r, s') \<Longrightarrow>
      working s' = None \<and> advisory s' = advisory s \<and> schedules (committed s') = schedules (committed s) \<and>
      job_runs (committed s') = job_runs (committed s)"
    and keeps: "working s = None \<Longrightarrow> run_state (enq e p) s = (r, s') \<Longrightarrow> db_ok (committed s) \<Longrightarrow>
      db_ok (committed s')"
    and adds: "working s = None \<Longrightarrow> run_state (enq e p) s = (r, s') \<Longrightarrow> p_IdempotencyKey p \<noteq> '''' \<Longrightarrow>
      \<exists>new. jobs (committed s') = jobs (committed s) @ new \<and> (\<forall>j \<in> set new. idem_key j = Some (key_of p))"
    and delivers: "working s = None \<Longrightarrow> run_state (enq e p) s = (Inr x, s') \<Longrightarrow> p_IdempotencyKey p \<noteq> '''' \<Longrightarrow>
      \<exists>j \<in> set (jobs (committed s')). idem_key j = Some (key_of p)"

section \<open>The queue provides it\<close>

definition tenant_key :: "EnqueueParams \<Rightarrow> uuid \<times> string" where
  "tenant_key p = (if p_TenantID p = uuid_Nil then DefaultTenantID else p_TenantID p, p_IdempotencyKey p)"

lemma normalize_key:
  "(p_TenantID (normalizeEnqueueParams gonow p), p_IdempotencyKey (normalizeEnqueueParams gonow p)) = tenant_key p"
  by (simp add: normalizeEnqueueParams_def Let_def tenant_key_def)

lemma enqueue_insert_grows:
  assumes "enqueue_insert X now i el p d = Inr (x, d')"
  shows "schedules d' = schedules d \<and> job_runs d' = job_runs d \<and> (\<exists>new. jobs d' = jobs d @ new \<and>
    (p_IdempotencyKey p \<noteq> '''' \<longrightarrow> (\<forall>j \<in> set new. idem_key j = Some (p_TenantID p, p_IdempotencyKey p)) \<and>
       (\<exists>j \<in> set (jobs d'). idem_key j = Some (p_TenantID p, p_IdempotencyKey p))))"
proof (cases "p_IdempotencyKey p = ''''")
  case True
  with assms show ?thesis
    by (auto simp: enqueue_insert_def thenE_Inr insert_job_def insert_job_row_def Let_def split: option.splits if_splits)
next
  case False
  with assms obtain jc where ins: "insert_job_idem X now i p d = Inr (jc, d')"
    by (auto simp: enqueue_insert_def thenE_Inr)
  then obtain payload where payload: "jsonb_in X (p_Payload p) = Some payload"
    by (auto simp: insert_job_idem_def split: option.splits)
  let ?j = "new_job now i payload (Some (p_IdempotencyKey p)) p"
  show ?thesis
  proof (cases "find (\<lambda>r. idem_key r = idem_key ?j) (jobs d)")
    case None
    with ins payload show ?thesis
      by (auto simp: insert_job_idem_def thenE_Inr insert_job_row_def Let_def split: if_splits)
  next
    case (Some r)
    with ins payload have "d' = d" by (auto simp: insert_job_idem_def Let_def split: if_splits)
    moreover have "r \<in> set (jobs d)" "idem_key r = Some (p_TenantID p, p_IdempotencyKey p)"
      using Some by (auto simp: find_Some_iff)
    ultimately show ?thesis by auto
  qed
qed

lemma enqueue_run_grows:
  assumes "working s = None" "run_state (queue_enqueue X e p) s = (r, s')"
  shows "schedules (committed s') = schedules (committed s) \<and> job_runs (committed s') = job_runs (committed s) \<and>
    (\<exists>new. jobs (committed s') = jobs (committed s) @ new \<and>
    (p_IdempotencyKey p \<noteq> '''' \<longrightarrow> (\<forall>j \<in> set new. idem_key j = Some (tenant_key p))))"
proof -
  let ?p = "normalizeEnqueueParams (e_gonow e) p"
  have key: "p_IdempotencyKey ?p = p_IdempotencyKey p" "(p_TenantID ?p, p_IdempotencyKey ?p) = tenant_key p"
    using normalize_key [of "e_gonow e" p] by (auto simp: tenant_key_def)
  consider "committed s' = committed s"
    | u d1 where "insert_tenant (p_TenantID ?p) (tenant_name X (p_TenantID ?p)) (committed s) = Inr (u, d1)" "committed s' = d1"
    | u d1 b where "insert_tenant (p_TenantID ?p) (tenant_name X (p_TenantID ?p)) (committed s) = Inr (u, d1)"
        "enqueue_insert X (e_now e) (e_newid e) (e_elapsed e) ?p d1 = Inr (b, committed s')"
    using enqueue_outcomes [OF assms(1) assms(2) [unfolded queue_enqueue_def]] by blast
  then show ?thesis
  proof cases
    case (2 u d1)
    then show ?thesis using insert_tenant_effect [OF 2(1)] by simp
  next
    case (3 u d1 b)
    from enqueue_insert_grows [OF 3(2)] insert_tenant_effect [OF 3(1)] key show ?thesis by (metis (no_types))
  qed simp
qed

interpretation queue_enq: enqueuer "queue_enqueue X" tenant_key for X
proof
  fix s e p r s'
  assume w: "working s = None" and run: "run_state (queue_enqueue X e p) s = (r, s')"
  note run' = run [unfolded queue_enqueue_def]
  show "working s' = None \<and> advisory s' = advisory s \<and> schedules (committed s') = schedules (committed s) \<and>
      job_runs (committed s') = job_runs (committed s)"
    using enqueue_outcomes [OF w run'] enqueue_run_grows [OF w run] by blast
  show "db_ok (committed s')" if "db_ok (committed s)"
    using enqueue_prog_preserves [OF w run' that] .
  show "\<exists>new. jobs (committed s') = jobs (committed s) @ new \<and> (\<forall>j \<in> set new. idem_key j = Some (tenant_key p))"
    if "p_IdempotencyKey p \<noteq> ''''"
    using enqueue_run_grows [OF w run] that by blast
next
  fix s e p x s'
  assume w: "working s = None" and run: "run_state (queue_enqueue X e p) s = (Inr x, s')"
    and key: "p_IdempotencyKey p \<noteq> ''''"
  let ?p = "normalizeEnqueueParams (e_gonow e) p"
  have "p_IdempotencyKey ?p \<noteq> ''''" using key by (simp add: normalizeEnqueueParams_def Let_def)
  then show "\<exists>j \<in> set (jobs (committed s')). idem_key j = Some (tenant_key p)"
    using enqueue_success [OF w run [unfolded queue_enqueue_def]] enqueue_insert_grows normalize_key [of "e_gonow e" p]
    unfolding enqueue_txn_def Let_def thenE_Inr by metis
qed

section \<open>Firing\<close>

lemma db_ok_schedules:
  assumes "db_ok d" "map sc_id (schedules d') = map sc_id (schedules d)"
    and "sc_tenant_id ` set (schedules d') \<subseteq> sc_tenant_id ` set (schedules d)"
    and "tenants d' = tenants d" "jobs d' = jobs d" "job_runs d' = job_runs d" "dead_letters d' = dead_letters d"
  shows "db_ok d'"
proof -
  have "\<forall>s \<in> set (schedules d'). sc_tenant_id s \<in> t_id ` set (tenants d)"
    using assms(1,3) by (auto simp: db_ok_defs image_subset_iff)
  with assms show ?thesis by (simp add: db_ok_defs runs_simps dead_ok_def)
qed

lemma db_ok_schedule_update:
  assumes "db_ok d" "\<And>r. sc_id (f r) = sc_id r \<and> sc_tenant_id (f r) = sc_tenant_id r"
  shows "db_ok (d\<lparr>schedules := sql_update p f (schedules d)\<rparr>)"
proof (rule db_ok_schedules [OF assms(1)])
  show "sc_tenant_id ` set (schedules (d\<lparr>schedules := sql_update p f (schedules d)\<rparr>)) \<subseteq> sc_tenant_id ` set (schedules d)"
    using assms(2) by (auto simp: set_sql_update)
qed (simp_all add: assms(2) map_sql_update)

text \<open>One statement outside a transaction: no effect, or its effect.\<close>

lemma stmt_cases:
  assumes "working s = None" "run_state (stmt f) s = (r, s')"
  obtains (none) e where "r = Inl e" "committed s' = committed s" "working s' = None" "advisory s' = advisory s"
    | (lost) e a where "r = Inl e" "driver_error e" "f (committed s) = Inr (a, committed s')" "working s' = None" "advisory s' = advisory s"
    | (got) a where "r = Inr a" "f (committed s) = Inr (a, committed s')" "working s' = None" "advisory s' = advisory s"
proof (cases r)
  case (Inl e)
  then show ?thesis using atomicD [OF atomic_stmt assms] none lost by blast
next
  case (Inr a)
  then show ?thesis using atomicD [OF atomic_stmt assms] that by blast
qed

lemma IdempotencyKey_of_nonempty [simp]: "IdempotencyKey_of X i t \<noteq> ''''"
  by (simp add: IdempotencyKey_of_def)

lemma schedule_params_key [simp]:
  "p_IdempotencyKey (schedule_params X sc) = IdempotencyKey_of X (s_ID sc) (s_NextRunAt sc)"
  by (simp add: schedule_params_def)

text \<open>
  The steps that a scheduler takes between two states of the database: it may add jobs with
  the given keys and change the times of schedules, nothing else that matters to others.
\<close>

definition sched_step :: "(uuid \<times> string) set \<Rightarrow> pg \<Rightarrow> pg \<Rightarrow> bool" where
  "sched_step K s s' \<longleftrightarrow> working s' = None \<and> advisory s' = advisory s \<and>
     (db_ok (committed s) \<longrightarrow> db_ok (committed s')) \<and> job_runs (committed s') = job_runs (committed s) \<and>
     (\<exists>new. jobs (committed s') = jobs (committed s) @ new \<and> (\<forall>j \<in> set new. idem_key j \<in> Some ` K))"

lemma sched_step_refl: "working s = None \<Longrightarrow> sched_step K s s"
  by (simp add: sched_step_def)

lemma sched_step_trans: "sched_step K s s1 \<Longrightarrow> sched_step K s1 s2 \<Longrightarrow> sched_step K s s2"
  by (auto simp: sched_step_def)

lemma sched_step_mono: "sched_step K s s' \<Longrightarrow> K \<subseteq> L \<Longrightarrow> sched_step L s s'"
  unfolding sched_step_def by (meson image_mono subsetD)

lemma sched_step_stmt:
  assumes "working s = None" "run_state (stmt f) s = (r, s')"
    and "\<And>a d'. f (committed s) = Inr (a, d') \<Longrightarrow> jobs d' = jobs (committed s) \<and>
      job_runs d' = job_runs (committed s) \<and> (db_ok (committed s) \<longrightarrow> db_ok d')"
  shows "sched_step K s s'"
  using assms(1,2) by (cases rule: stmt_cases) (auto simp: sched_step_def dest: assms(3))

lemma sched_step_advance:
  "working s = None \<Longrightarrow> run_state (stmt (advance_schedule i t nx)) s = (r, s') \<Longrightarrow> sched_step K s s'"
  by (erule sched_step_stmt, assumption) (auto simp: advance_schedule_def intro: db_ok_schedule_update)

lemma sched_step_set_next:
  "working s = None \<Longrightarrow> run_state (stmt (set_next_run i nx)) s = (r, s') \<Longrightarrow> sched_step K s s'"
  by (erule sched_step_stmt, assumption) (auto simp: set_next_run_def intro: db_ok_schedule_update)

lemma init_all_step:
  "working s = None \<Longrightarrow> run_state (init_all X now ms) s = (r, s') \<Longrightarrow> sched_step {} s s'"
proof (induction ms arbitrary: s)
  case (Cons m ms)
  obtain i expr where m: "m = (i, expr)" by fastforce
  show ?case
  proof (cases "Next X expr now")
    case (Inl e)
    with Cons.prems m show ?thesis by (auto intro: sched_step_refl)
  next
    case (Inr nx)
    with Cons.prems(2) m have "run_state (tryM (stmt (set_next_run i nx)) (\<lambda>_. init_all X now ms)) s = (r, s')"
      by simp
    then show ?thesis
    proof (cases rule: run_tryM_cases)
      case (err e)
      then show ?thesis using sched_step_set_next [OF Cons.prems(1) err(1)] by simp
    next
      case (val a s1)
      have "sched_step {} s s1" by (rule sched_step_set_next [OF Cons.prems(1) val(1)])
      with Cons.IH [of s1, OF _ val(2)] show ?thesis
        by (auto intro: sched_step_trans simp: sched_step_def)
    qed
  qed
qed (auto intro: sched_step_refl)

lemma initializeNextRuns_step:
  assumes "working s = None" "run_state (initializeNextRuns X now) s = (r, s')"
  shows "sched_step {} s s'"
  using assms(2) unfolding initializeNextRuns_def
proof (cases rule: run_tryM_cases)
  case (err e)
  then show ?thesis using sched_step_stmt [OF assms(1) err(1)] by auto
next
  case (val ms s1)
  have 1: "sched_step {} s s1" using sched_step_stmt [OF assms(1) val(1)] by auto
  then have "working s1 = None" by (simp add: sched_step_def)
  from sched_step_trans [OF 1 init_all_step [OF this val(2)]] show ?thesis .
qed

definition occurrence_keys ::
  "(EnqueueParams \<Rightarrow> uuid \<times> string) \<Rightarrow> ext \<Rightarrow> Schedule list \<Rightarrow> (uuid \<times> string) set" where
  "occurrence_keys key_of X scs = (\<lambda>sc. key_of (schedule_params X sc)) ` set scs"

context enqueuer
begin

lemma enq_step:
  assumes "working s = None" "run_state (enq e (schedule_params X sc)) s = (r, s')"
  shows "sched_step {key_of (schedule_params X sc)} s s'"
  using frame [OF assms] keeps [OF assms] adds [OF assms] by (auto simp: sched_step_def)

lemma fire_step:
  assumes "working s = None" "run_state (fire enq X e sc) s = (r, s')"
  shows "sched_step {key_of (schedule_params X sc)} s s'"
proof (cases "Next X (s_CronExpr sc) (s_NextRunAt sc)")
  case (Inl err)
  with assms show ?thesis by (auto simp: fire_def intro: sched_step_refl)
next
  case (Inr nx)
  with assms(2) have "run_state (tryM (enq e (schedule_params X sc))
      (\<lambda>_. stmt (advance_schedule (s_ID sc) (s_NextRunAt sc) nx))) s = (r, s')"
    by (simp add: fire_def)
  then show ?thesis
  proof (cases rule: run_tryM_cases)
    case (err e)
    then show ?thesis using enq_step [OF assms(1) err(1)] by simp
  next
    case (val a s1)
    have 1: "sched_step {key_of (schedule_params X sc)} s s1" by (rule enq_step [OF assms(1) val(1)])
    then have "working s1 = None" by (simp add: sched_step_def)
    from sched_step_trans [OF 1 sched_step_advance [OF this val(2)]] show ?thesis .
  qed
qed

text \<open>A successful firing delivered the occurrence and moved the schedule on.\<close>

lemma fire_success:
  assumes "working s = None" "run_state (fire enq X e sc) s = (Inr u, s')"
  shows "(\<exists>j \<in> set (jobs (committed s')). idem_key j = Some (key_of (schedule_params X sc))) \<and>
    (\<exists>next. Next X (s_CronExpr sc) (s_NextRunAt sc) = Inr next \<and>
      schedules (committed s') = sql_update (\<lambda>r. sc_id r = s_ID sc)
        (\<lambda>r. r\<lparr>sc_last_run_at := Some (s_NextRunAt sc), sc_next_run_at := Some next\<rparr>) (schedules (committed s)))"
proof -
  obtain nx where nx: "Next X (s_CronExpr sc) (s_NextRunAt sc) = Inr nx"
    and run: "run_state (tryM (enq e (schedule_params X sc))
      (\<lambda>_. stmt (advance_schedule (s_ID sc) (s_NextRunAt sc) nx))) s = (Inr u, s')"
    using assms(2) by (cases "Next X (s_CronExpr sc) (s_NextRunAt sc)") (auto simp: fire_def)
  obtain a s1 where enq: "run_state (enq e (schedule_params X sc)) s = (Inr a, s1)"
    and adv: "run_state (stmt (advance_schedule (s_ID sc) (s_NextRunAt sc) nx)) s1 = (Inr u, s')"
    using run by (cases rule: run_tryM_cases) auto
  note f = frame [OF assms(1) enq]
  have "advance_schedule (s_ID sc) (s_NextRunAt sc) nx (committed s1) = Inr (u, committed s')"
    using atomicD(3) [OF atomic_stmt _ adv] f by blast
  then have "committed s' = (committed s1)\<lparr>schedules := sql_update (\<lambda>r. sc_id r = s_ID sc)
      (\<lambda>r. r\<lparr>sc_last_run_at := Some (s_NextRunAt sc), sc_next_run_at := Some nx\<rparr>) (schedules (committed s1))\<rparr>"
    by (simp add: advance_schedule_def)
  with nx f delivers [OF assms(1) enq] show ?thesis by simp
qed

lemma fire_all_step:
  "working s = None \<Longrightarrow> run_state (fire_all enq X env i scs) s = (u, s') \<Longrightarrow> sched_step (occurrence_keys key_of X scs) s s'"
proof (induction scs arbitrary: s i)
  case (Cons sc scs)
  obtain r s1 where fire: "run_state (fire enq X (env i) sc) s = (r, s1)" by fastforce
  with Cons.prems(2) have rest: "run_state (fire_all enq X env (Suc i) scs) s1 = (u, s')" by simp
  have 1: "sched_step {key_of (schedule_params X sc)} s s1" by (rule fire_step [OF Cons.prems(1) fire])
  then have "working s1 = None" by (simp add: sched_step_def)
  from Cons.IH [OF this rest] have 2: "sched_step (occurrence_keys key_of X scs) s1 s'" .
  show ?case
    by (rule sched_step_trans [OF sched_step_mono [OF 1] sched_step_mono [OF 2]]) (auto simp: occurrence_keys_def)
qed (auto intro: sched_step_refl)

end

section \<open>The tick\<close>

text \<open>What initialisation makes of the rows: the listed ones may get their next run.\<close>

definition next_set :: "ext \<Rightarrow> time \<Rightarrow> (uuid \<times> string) list \<Rightarrow> schedule_row \<Rightarrow> schedule_row \<Rightarrow> bool" where
  "next_set X now ms x x' \<longleftrightarrow> x' = x \<or>
     (\<exists>t expr. (sc_id x, expr) \<in> set ms \<and> Next X expr now = Inr t \<and> x' = x\<lparr>sc_next_run_at := Some t\<rparr>)"

lemma next_set_trans:
  "next_set X now ms x y \<Longrightarrow> next_set X now ms y z \<Longrightarrow> next_set X now ms x z"
  by (auto simp: next_set_def) blast

lemma set_next_run_effect:
  "set_next_run i nx d = Inr (a, d') \<Longrightarrow>
   schedules d' = sql_update (\<lambda>r. sc_id r = i) (\<lambda>r. r\<lparr>sc_next_run_at := Some nx\<rparr>) (schedules d)"
  by (auto simp: set_next_run_def)

lemma next_set_mono: "next_set X now ms x y \<Longrightarrow> set ms \<subseteq> set ms' \<Longrightarrow> next_set X now ms' x y"
  by (auto simp: next_set_def)

lemma next_set_update:
  assumes "y \<in> set (sql_update (\<lambda>r. sc_id r = i) (\<lambda>r. r\<lparr>sc_next_run_at := Some nx\<rparr>) rows)"
    and "Next X expr now = Inr nx"
  shows "\<exists>x \<in> set rows. next_set X now ((i, expr) # ms) x y"
  using assms(1)
proof (cases rule: in_sql_updateE)
  case (hit x)
  with assms(2) show ?thesis by (intro bexI [of _ x]) (auto simp: next_set_def)
next
  case miss
  then show ?thesis by (intro bexI [of _ y]) (auto simp: next_set_def)
qed

lemma init_all_rows:
  "working s = None \<Longrightarrow> run_state (init_all X now ms) s = (r, s') \<Longrightarrow> x' \<in> set (schedules (committed s')) \<Longrightarrow>
   \<exists>x \<in> set (schedules (committed s)). next_set X now ms x x'"
proof (induction ms arbitrary: s)
  case (Cons m ms)
  obtain i expr where m: "m = (i, expr)" by fastforce
  show ?case
  proof (cases "Next X expr now")
    case (Inl e)
    with Cons.prems m show ?thesis by (auto simp: next_set_def)
  next
    case (Inr nx)
    have one: "\<exists>x \<in> set (schedules (committed s)). next_set X now (m # ms) x y"
      if "working s1 = None" "run_state (stmt (set_next_run i nx)) s = (q, s1)" "y \<in> set (schedules (committed s1))" for q s1 y
      using Cons.prems(1) that(2)
    proof (cases rule: stmt_cases)
      case (none e)
      with that(3) show ?thesis by (auto simp: next_set_def)
    qed (use that(3) next_set_update [OF _ Inr] in \<open>auto dest!: set_next_run_effect simp: m\<close>)
    from Inr Cons.prems(2) m have "run_state (tryM (stmt (set_next_run i nx)) (\<lambda>_. init_all X now ms)) s = (r, s')"
      by simp
    then show ?thesis
    proof (cases rule: run_tryM_cases)
      case (err e)
      moreover have "working s' = None" using sched_step_set_next [OF Cons.prems(1) err(1)] by (simp add: sched_step_def)
      ultimately show ?thesis using one Cons.prems(3) by blast
    next
      case (val a s1)
      have w: "working s1 = None" using sched_step_set_next [OF Cons.prems(1) val(1)] by (simp add: sched_step_def)
      obtain y where y: "y \<in> set (schedules (committed s1))" "next_set X now ms y x'"
        using Cons.IH [OF w val(2) Cons.prems(3)] by blast
      obtain x where "x \<in> set (schedules (committed s))" "next_set X now (m # ms) x y"
        using one [OF w val(1) y(1)] by blast
      moreover have "next_set X now (m # ms) y x'" using y(2) by (rule next_set_mono) auto
      ultimately show ?thesis using next_set_trans by blast
    qed
  qed
qed (auto simp: next_set_def)

text \<open>The occurrences that a tick at \<open>now\<close> may fire.\<close>

definition occurrence :: "ext \<Rightarrow> time \<Rightarrow> db \<Rightarrow> schedule_row \<Rightarrow> time \<Rightarrow> bool" where
  "occurrence X now d row t \<longleftrightarrow> row \<in> set (schedules d) \<and> sc_enabled row \<and> t \<le> now \<and>
     (sc_next_run_at row = Some t \<or>
      sc_next_run_at row = None \<and> Next X (sc_cron_expr row) now = Inr t)"

lemma schedule_of_next [simp]: "schedule_of (r\<lparr>sc_next_run_at := x\<rparr>) t = schedule_of r t"
  by (simp add: schedule_of_def)

lemma initialised_occurrence:
  assumes "working s = None" "db_ok (committed s)" "run_state (initializeNextRuns X now) s = (r, s1)"
    and "sc \<in> set (due_schedules now (committed s1))"
  shows "\<exists>row t. occurrence X now (committed s) row t \<and> sc = schedule_of row t"
proof -
  let ?ms = "missing_next (committed s)"
  obtain x' where x': "x' \<in> set (schedules (committed s1))" "due now x'" "sc = schedule_of x' (the (sc_next_run_at x'))"
    using assms(4) by (auto simp: due_schedules_def)
  have "\<exists>x \<in> set (schedules (committed s)). next_set X now ?ms x x'"
    using assms(3) unfolding initializeNextRuns_def
  proof (cases rule: run_tryM_cases)
    case (err e)
    with assms(1) have "committed s1 = committed s"
      by (auto elim: stmt_cases)
    with x'(1) show ?thesis by (auto simp: next_set_def)
  next
    case (val ms s0)
    with assms(1) have "committed s0 = committed s" "ms = ?ms" "working s0 = None"
      by (auto elim: stmt_cases)
    with init_all_rows [OF _ val(2) x'(1)] show ?thesis by simp
  qed
  then obtain x where x: "x \<in> set (schedules (committed s))" "next_set X now ?ms x x'" by blast
  have "x' = x \<or> sc_enabled x \<and> sc_next_run_at x = None \<and> (\<exists>t. Next X (sc_cron_expr x) now = Inr t \<and> x' = x\<lparr>sc_next_run_at := Some t\<rparr>)"
  proof -
    have "sc_enabled x \<and> sc_next_run_at x = None \<and> sc_cron_expr x = expr" if "(sc_id x, expr) \<in> set ?ms" for expr
    proof -
      obtain y where "y \<in> set (schedules (committed s))" "sc_id y = sc_id x" "sc_enabled y" "sc_next_run_at y = None" "sc_cron_expr y = expr"
        using \<open>(sc_id x, expr) \<in> set ?ms\<close> by (auto simp: missing_next_def)
      moreover have "distinct (map sc_id (schedules (committed s)))" using assms(2) by (simp add: db_ok_defs)
      ultimately show ?thesis using distinct_key_unique x(1) by metis
    qed
    with x(2) show ?thesis by (auto simp: next_set_def)
  qed
  with x(1) x'(2,3) show ?thesis
    by (auto simp: occurrence_def due_def split: option.splits)
qed

lemma run_tryLock:
  assumes "run_state (tryLock sess) s = (r, s')"
  obtains (fails) m where "r = Inl (ErrDriver m)" "committed s' = committed s" "working s' = working s"
      "advisory s' = (if advisory s = Some sess then None else advisory s)" "faults s \<noteq> []"
    | (taken) other where "r = Inr False" "advisory s = Some other" "other \<noteq> sess" "committed s' = committed s"
      "working s' = working s" "advisory s' = advisory s"
    | (granted) "r = Inr True" "advisory s = None \<or> advisory s = Some sess" "committed s' = committed s"
      "working s' = working s" "advisory s' = Some sess" "faults s = [] \<Longrightarrow> faults s' = []"
  using assms
  by (auto simp: tryLock_def lock_act_def close_session_def Let_def split: list.splits fault.splits if_splits)

lemma run_acquire:
  assumes "run_state acquire s = (r, s')"
  shows "committed s' = committed s \<and> working s' = working s \<and> advisory s' = advisory s \<and>
    (faults s = [] \<longrightarrow> r = Inr () \<and> faults s' = []) \<and> (\<forall>e. r = Inl e \<longrightarrow> driver_error e)"
  using assms by (auto simp: acquire_def run_round_trip split: list.splits fault.splits)

lemma Tick_cases:
  assumes "run_state (Tick enq X sess now env brk) s = (r, s')"
  obtains (idle) "committed s' = committed s" "working s' = working s"
      "advisory s \<noteq> Some sess \<Longrightarrow> advisory s' = advisory s" "r = Inr () \<or> (\<exists>e. r = Inl e \<and> driver_error e)"
      "faults s = [] \<Longrightarrow> advisory s \<noteq> None"
    | (leader) s1 s2 where "committed s1 = committed s" "working s1 = working s" "advisory s1 = Some sess"
      "advisory s = None \<or> advisory s = Some sess" "faults s = [] \<Longrightarrow> faults s1 = []"
      "run_state (tick_body enq X now env brk) s1 = (r, s2)" "s' = snd (run_state (unlock sess) s2)"
  using assms unfolding Tick_def
proof (cases rule: run_tryM_cases)
  case (err e)
  with run_acquire [OF err(1)] show ?thesis by (intro idle) auto
next
  case (val u s0)
  note acq = run_acquire [OF val(1)]
  from val(2) show ?thesis
  proof (cases rule: run_tryM_cases)
    case (err e)
    from err(1) show ?thesis
    proof (cases rule: run_tryLock)
      case (fails m)
      with acq err show ?thesis by (intro idle) auto
    qed (use err in auto)
  next
    case (val locked s1)
    from val(1) show ?thesis
    proof (cases rule: run_tryLock)
      case (taken other)
      moreover from this acq have "advisory s = Some other" by simp
      ultimately show ?thesis using acq val(2) by (intro idle) auto
    next
      case granted
      obtain q s2 where body: "run_state (tick_body enq X now env brk) s1 = (q, s2)" by fastforce
      have "r = q \<and> s' = snd (run_state (unlock sess) s2)"
        using val(2) granted(1) body by (auto split: prod.splits)
      with granted acq body show ?thesis by (intro leader [of s1 s2]) auto
    qed (use val in auto)
  qed
qed

lemma unlock_effect:
  "committed (snd (run_state (unlock sess) s)) = committed s"
  "working (snd (run_state (unlock sess) s)) = working s"
  "advisory (snd (run_state (unlock sess) s)) = (if advisory s = Some sess then None else advisory s)"
  by (simp_all add: run_unlock close_session_def)

context enqueuer
begin

lemma tick_body_step:
  assumes "working s = None" "db_ok (committed s)" "run_state (tick_body enq X now env brk) s = (r, s')"
  shows "sched_step {key_of (schedule_params X (schedule_of row t)) | row t. occurrence X now (committed s) row t} s s'"
    (is "sched_step ?K s s'")
  using assms(3) unfolding tick_body_def
proof (cases rule: run_tryM_cases)
  case (err e)
  then show ?thesis using sched_step_mono [OF initializeNextRuns_step [OF assms(1) err(1)]] by simp
next
  case (val u s1)
  have 1: "sched_step ?K s s1" using sched_step_mono [OF initializeNextRuns_step [OF assms(1) val(1)]] by simp
  then have w1: "working s1 = None" by (simp add: sched_step_def)
  from val(2) show ?thesis
  proof (cases rule: run_tryM_cases)
    case (err e)
    have "sched_step ?K s1 s'" using sched_step_stmt [OF w1 err(1)] by auto
    with 1 show ?thesis by (rule sched_step_trans)
  next
    case (val rows s2)
    from w1 val(1) have rows: "rows = due_schedules now (committed s1)" and w2: "working s2 = None"
      by (auto elim: stmt_cases)
    have 2: "sched_step ?K s1 s2" using sched_step_stmt [OF w1 val(1)] by auto
    have "run_state (fire_all enq X env 0 (received brk rows)) s2 = ((), s')"
      using val(2) by (auto simp: rows_Err_def split: prod.splits option.splits)
    from fire_all_step [OF w2 this] have "sched_step (occurrence_keys key_of X (received brk rows)) s2 s'" .
    moreover have "occurrence_keys key_of X (received brk rows) \<subseteq> ?K"
    proof -
      have "set (received brk rows) \<subseteq> set rows"
        by (auto simp: received_def split: option.splits dest: in_set_takeD)
      then show ?thesis
        using initialised_occurrence [OF assms(1,2) \<open>run_state (initializeNextRuns X now) s = (Inr u, s1)\<close>]
        unfolding occurrence_keys_def rows by fastforce
    qed
    ultimately have "sched_step ?K s2 s'" by (rule sched_step_mono)
    with 1 2 show ?thesis by (blast intro: sched_step_trans)
  qed
qed

lemma Tick_step:
  assumes "working s = None" "db_ok (committed s)" "advisory s \<noteq> Some sess"
    and "run_state (Tick enq X sess now env brk) s = (r, s')"
  shows "sched_step {key_of (schedule_params X (schedule_of row t)) | row t. occurrence X now (committed s) row t} s s'"
  using assms(4)
proof (cases rule: Tick_cases)
  case idle
  with assms show ?thesis by (simp add: sched_step_def)
next
  case (leader s1 s2)
  with tick_body_step [OF _ _ leader(6)] assms show ?thesis
    by (auto simp: sched_step_def unlock_effect)
qed

end

text \<open>
  C16: leadership. While another session holds the advisory lock a tick changes nothing; and
  a tick that started without the lock always ends without it, whatever fails in between,
  including the unlock itself.
\<close>

theorem Tick_leadership:
  assumes "working s = None" "db_ok (committed s)" "advisory s \<noteq> Some sess"
    and "run_state (Tick (queue_enqueue X) X sess now env brk) s = (r, s')"
  shows "advisory s' = advisory s \<and> working s' = None \<and>
    (advisory s \<noteq> None \<longrightarrow> committed s' = committed s \<and> (r = Inr () \<or> (\<exists>e. r = Inl e \<and> driver_error e)))"
proof -
  have "sched_step {tenant_key (schedule_params X (schedule_of row t)) | row t. occurrence X now (committed s) row t} s s'"
    by (rule queue_enq.Tick_step [OF assms])
  moreover have "committed s' = committed s \<and> (r = Inr () \<or> (\<exists>e. r = Inl e \<and> driver_error e))" if "advisory s \<noteq> None"
    using assms(4) by (cases rule: Tick_cases) (use that assms(3) in auto)
  ultimately show ?thesis by (auto simp: sched_step_def)
qed

text \<open>
  C14: at most once. Whatever fails during a tick, it only adds jobs, each for an occurrence
  of an enabled schedule that is due, no two for the same occurrence, and none for an
  occurrence that already has its job: repeating a tick after a failure cannot enqueue an
  occurrence twice.
\<close>

theorem Tick_at_most_once:
  assumes "working s = None" "db_ok (committed s)" "advisory s \<noteq> Some sess"
    and "run_state (Tick (queue_enqueue X) X sess now env brk) s = (r, s')"
  shows "db_ok (committed s') \<and> (\<exists>new. jobs (committed s') = jobs (committed s) @ new \<and>
    distinct (map idem_key new) \<and> idem_key ` set new \<inter> idem_key ` set (jobs (committed s)) = {} \<and>
    (\<forall>j \<in> set new. \<exists>row t. occurrence X now (committed s) row t \<and>
       idem_key j = Some (tenant_key (schedule_params X (schedule_of row t)))))"
proof -
  let ?K = "{tenant_key (schedule_params X (schedule_of row t)) | row t. occurrence X now (committed s) row t}"
  have "sched_step ?K s s'" by (rule queue_enq.Tick_step [OF assms])
  then obtain new where ok: "db_ok (committed s')" and new: "jobs (committed s') = jobs (committed s) @ new"
      "\<forall>j \<in> set new. idem_key j \<in> Some ` ?K"
    using assms(2) by (auto simp: sched_step_def)
  have split: "map Some (idem_keys js) = map idem_key js" if "\<forall>j \<in> set js. idem_key j \<noteq> None" for js
    using that by (induction js) auto
  have some: "\<forall>j \<in> set new. idem_key j \<noteq> None" using new(2) by auto
  have dist: "distinct (idem_keys (jobs (committed s)) @ idem_keys new)"
    using db_okD(4) [OF ok] by (simp add: new(1))
  have "distinct (map idem_key new)"
    unfolding split [OF some, symmetric] using dist by (simp add: distinct_map)
  moreover have "idem_key ` set new \<inter> idem_key ` set (jobs (committed s)) = {}"
  proof -
    have "False" if j: "j \<in> set new" "j' \<in> set (jobs (committed s))" "idem_key j = idem_key j'" for j j'
    proof -
      obtain k where "idem_key j = Some k" using some j(1) by auto
      with j have "k \<in> set (idem_keys new)" "k \<in> set (idem_keys (jobs (committed s)))"
        by (auto simp: set_idem_keys)
      with dist show False by auto
    qed
    then show ?thesis by blast
  qed
  moreover have "\<forall>j \<in> set new. \<exists>row t. occurrence X now (committed s) row t \<and>
      idem_key j = Some (tenant_key (schedule_params X (schedule_of row t)))"
    using new(2) by blast
  ultimately show ?thesis using ok new(1) by blast
qed

definition sample_env :: "nat \<Rightarrow> call_env" where
  "sample_env i = \<lparr>e_gonow = 50, e_now = 50, e_newid = 100 + of_nat i, e_elapsed = 1\<rparr>"

lemma Tick_leadership_witness:
  "committed (snd (run_state (Tick (queue_enqueue sample_ext) sample_ext 4 50 sample_env None)
     ((sample_pg sample_sched_db)\<lparr>advisory := Some 3\<rparr>))) = sample_sched_db"
  using Tick_leadership [OF _ _ _ prod.collapse [symmetric],
      of "(sample_pg sample_sched_db)\<lparr>advisory := Some 3\<rparr>" 4 sample_ext 50 sample_env None]
  by (simp add: sample_sched_ok)

lemma Tick_at_most_once_witness:
  "db_ok (committed (snd (run_state (Tick (queue_enqueue sample_ext) sample_ext 4 50 sample_env None)
     ((sample_pg sample_sched_db)\<lparr>faults := [NoFault, NoFault, NoFault, NoFault, NoFault, ReplyLost ''eof'']\<rparr>))))"
  using Tick_at_most_once [OF _ _ _ prod.collapse [symmetric],
      of "(sample_pg sample_sched_db)\<lparr>faults := [NoFault, NoFault, NoFault, NoFault, NoFault, ReplyLost ''eof'']\<rparr>" 4 sample_ext 50 sample_env None]
  by (simp add: sample_sched_ok)

section \<open>A tick without failures fires everything that is due\<close>

text \<open>A queue that, without failures, accepts what it can accept.\<close>

locale live_enqueuer = enqueuer enq key_of for enq :: "'r enqueue_fn" and key_of +
  fixes accepts :: "call_env \<Rightarrow> EnqueueParams \<Rightarrow> db \<Rightarrow> bool"
  assumes succeeds: "working s = None \<Longrightarrow> faults s = [] \<Longrightarrow> accepts e p (committed s) \<Longrightarrow>
      \<exists>x s'. run_state (enq e p) s = (Inr x, s') \<and> faults s' = []"
    and stable: "working s = None \<Longrightarrow> run_state (enq e p) s = (r, s') \<Longrightarrow> e_newid e' \<noteq> e_newid e \<Longrightarrow>
      accepts e' p' (committed s) \<Longrightarrow> accepts e' p' (committed s')"
    and schedules_irrelevant: "accepts e p (d\<lparr>schedules := x\<rparr>) = accepts e p d"

definition enqueue_accepts :: "ext \<Rightarrow> call_env \<Rightarrow> EnqueueParams \<Rightarrow> db \<Rightarrow> bool" where
  "enqueue_accepts X e p d \<longleftrightarrow>
     (let p' = normalizeEnqueueParams (e_gonow e) p in
      p_TenantID p' \<in> t_id ` set (tenants d) \<and> jsonb_in X (p_Payload p') \<noteq> None \<and>
      0 \<le> p_Priority p' \<and> p_Priority p' \<le> 32767 \<and> 0 < p_MaxAttempts p' \<and> p_MaxAttempts p' \<le> max_int32 \<and>
      e_newid e \<notin> ID ` set (jobs d))"

lemma enqueue_txn_accepts:
  assumes "enqueue_accepts X e p d"
  shows "\<exists>x d'. enqueue_txn X (e_gonow e) (e_now e) (e_newid e) (e_elapsed e) p d = Inr (x, d')"
proof -
  let ?p = "normalizeEnqueueParams (e_gonow e) p"
  have tenant: "insert_tenant (p_TenantID ?p) name d = Inr ((), d)" for name
    using assms by (simp add: enqueue_accepts_def insert_tenant_def Let_def)
  obtain payload where payload: "jsonb_in X (p_Payload ?p) = Some payload"
    using assms by (auto simp: enqueue_accepts_def Let_def)
  have check: "jobs_check (new_job (e_now e) (e_newid e) payload key ?p)" for key
    using assms by (simp add: enqueue_accepts_def Let_def jobs_check_def max_int32_def)
  have row: "insert_job_row (new_job (e_now e) (e_newid e) payload key ?p) d =
      Inr (new_job (e_now e) (e_newid e) payload key ?p, d\<lparr>jobs := jobs d @ [new_job (e_now e) (e_newid e) payload key ?p]\<rparr>)" for key
    using assms by (simp add: enqueue_accepts_def Let_def insert_job_row_def)
  show ?thesis
    unfolding enqueue_txn_def Let_def thenE_def tenant enqueue_insert_def
    by (auto simp: insert_job_def insert_job_idem_def payload check row Let_def thenE_def okE_def
        split: option.splits)
qed

interpretation queue_live: live_enqueuer "queue_enqueue X" tenant_key "enqueue_accepts X" for X
proof
  fix s :: pg and e p
  assume w: "working s = None" "faults s = []" and acc: "enqueue_accepts X e p (committed s)"
  obtain r s' where run: "run_state (queue_enqueue X e p) s = (r, s')" by fastforce
  note sim = simD [OF sim_enqueue run [unfolded queue_enqueue_def]]
  have "view s = committed s" using w(1) by simp
  with enqueue_txn_accepts [OF acc] sim(7) [OF w(2)] obtain x where "r = Inr x"
    by (cases r) auto
  with run sim(6) [OF w(2)] show "\<exists>x s'. run_state (queue_enqueue X e p) s = (Inr x, s') \<and> faults s' = []" by blast
next
  fix s e p r s' e' p'
  assume w: "working s = None" and run: "run_state (queue_enqueue X e p) s = (r, s')"
    and ne: "e_newid e' \<noteq> e_newid e" and acc: "enqueue_accepts X e' p' (committed s)"
  have grow: "t_id ` set (tenants d) \<subseteq> t_id ` set (tenants d') \<and> ID ` set (jobs d') \<subseteq> insert (e_newid e) (ID ` set (jobs d))"
    if "enqueue_insert X (e_now e) (e_newid e) (e_elapsed e) q d = Inr (b, d')" for q d b d'
    using that
    by (auto simp: enqueue_insert_def thenE_Inr insert_job_def insert_job_idem_def insert_job_row_def Let_def
        split: option.splits if_splits)
  have ten: "jobs d1 = jobs d \<and> t_id ` set (tenants d1) = insert i (t_id ` set (tenants d))"
    if "insert_tenant i name d = Inr (u, d1)" for i name d u d1
    using insert_tenant_effect [OF that] by simp
  have "t_id ` set (tenants (committed s)) \<subseteq> t_id ` set (tenants (committed s')) \<and>
      ID ` set (jobs (committed s')) \<subseteq> insert (e_newid e) (ID ` set (jobs (committed s)))"
    using enqueue_outcomes [OF w run [unfolded queue_enqueue_def]]
    by (elim conjE disjE exE) (auto dest!: grow ten simp: subset_iff)
  with acc ne show "enqueue_accepts X e' p' (committed s')"
    by (auto simp: enqueue_accepts_def Let_def)
qed (simp add: enqueue_accepts_def)

lemma run_stmt_fault_free:
  assumes "working s = None" "faults s = []" "f (committed s) = Inr (a, d)"
  shows "run_state (stmt f) s = (Inr a, s\<lparr>committed := d\<rparr>)"
  using assms by (simp add: stmt_def run_round_trip apply_txn_def view_def put_view_def)

text \<open>The occurrence of a schedule was delivered and the schedule moved on.\<close>

definition fired :: "(EnqueueParams \<Rightarrow> uuid \<times> string) \<Rightarrow> ext \<Rightarrow> Schedule \<Rightarrow> db \<Rightarrow> bool" where
  "fired key_of X sc d \<longleftrightarrow>
     (\<exists>j \<in> set (jobs d). idem_key j = Some (key_of (schedule_params X sc))) \<and>
     (\<forall>row \<in> set (schedules d). sc_id row = s_ID sc \<longrightarrow>
        sc_last_run_at row = Some (s_NextRunAt sc) \<and>
        Inr (the (sc_next_run_at row)) = Next X (s_CronExpr sc) (s_NextRunAt sc) \<and> sc_next_run_at row \<noteq> None)"

context live_enqueuer
begin

lemma fire_live:
  assumes "working s = None" "faults s = []" "accepts e (schedule_params X sc) (committed s)"
    and "Next X (s_CronExpr sc) (s_NextRunAt sc) = Inr nx"
  obtains s' where "run_state (fire enq X e sc) s = (Inr (), s')" "faults s' = []" "working s' = None"
    "\<And>e' p. e_newid e' \<noteq> e_newid e \<Longrightarrow> accepts e' p (committed s) \<Longrightarrow> accepts e' p (committed s')"
proof -
  obtain x s1 where enq: "run_state (enq e (schedule_params X sc)) s = (Inr x, s1)" "faults s1 = []"
    using succeeds [OF assms(1-3)] by blast
  have w1: "working s1 = None" using frame [OF assms(1) enq(1)] by simp
  let ?adv = "advance_schedule (s_ID sc) (s_NextRunAt sc) nx"
  obtain d2 where d2: "?adv (committed s1) = Inr ((), d2)" "\<exists>rows. d2 = (committed s1)\<lparr>schedules := rows\<rparr>"
    by (auto simp: advance_schedule_def)
  have "run_state (fire enq X e sc) s = (Inr (), s1\<lparr>committed := d2\<rparr>)"
    using assms(4) enq(1) run_stmt_fault_free [where f = ?adv, OF w1 enq(2) d2(1)] by (simp add: fire_def run_tryM)
  moreover have "accepts e' p d2" if "e_newid e' \<noteq> e_newid e" "accepts e' p (committed s)" for e' p
    using stable [OF assms(1) enq(1) that] d2(2) schedules_irrelevant by auto
  ultimately show thesis using enq(2) w1 by (intro that [of "s1\<lparr>committed := d2\<rparr>"]) auto
qed

lemma fire_fired:
  assumes "working s = None" "run_state (fire enq X e sc) s = (Inr u, s')"
  shows "fired key_of X sc (committed s')"
    and "\<And>row. row \<in> set (schedules (committed s')) \<Longrightarrow> sc_id row \<noteq> s_ID sc \<Longrightarrow> row \<in> set (schedules (committed s))"
  using fire_success [OF assms] by (auto simp: fired_def set_sql_update)

lemma fire_all_live:
  assumes "working s = None" "faults s = []" "distinct (map s_ID scs)"
    and "inj_on (\<lambda>k. e_newid (env k)) {i..<i + length scs}"
    and "\<forall>sc \<in> set scs. \<forall>k \<in> {i..<i + length scs}. accepts (env k) (schedule_params X sc) (committed s)"
    and "\<forall>sc \<in> set scs. \<exists>nx. Next X (s_CronExpr sc) (s_NextRunAt sc) = Inr nx"
  shows "\<exists>s'. run_state (fire_all enq X env i scs) s = ((), s') \<and> faults s' = [] \<and>
    (\<forall>sc \<in> set scs. fired key_of X sc (committed s')) \<and>
    (\<forall>row \<in> set (schedules (committed s')). sc_id row \<notin> s_ID ` set scs \<longrightarrow> row \<in> set (schedules (committed s)))"
  using assms
proof (induction scs arbitrary: s i)
  case (Cons sc scs)
  obtain nx where nx: "Next X (s_CronExpr sc) (s_NextRunAt sc) = Inr nx" using Cons.prems(6) by auto
  have "accepts (env i) (schedule_params X sc) (committed s)" using Cons.prems(5) by simp
  from fire_live [OF Cons.prems(1,2) this nx] obtain s1 where
      fire: "run_state (fire enq X (env i) sc) s = (Inr (), s1)" and s1: "faults s1 = []" "working s1 = None"
      and acc: "\<And>e' p. e_newid e' \<noteq> e_newid (env i) \<Longrightarrow> accepts e' p (committed s) \<Longrightarrow> accepts e' p (committed s1)"
    by blast
  note one = fire_fired [OF Cons.prems(1) fire]
  have fresh: "e_newid (env k) \<noteq> e_newid (env i)" if "k \<in> {Suc i..<Suc i + length scs}" for k
    using inj_onD [OF Cons.prems(4), of k i] that by auto
  have "\<forall>sc \<in> set scs. \<forall>k \<in> {Suc i..<Suc i + length scs}. accepts (env k) (schedule_params X sc) (committed s1)"
    using Cons.prems(5) acc fresh by simp
  moreover have "inj_on (\<lambda>k. e_newid (env k)) {Suc i..<Suc i + length scs}"
    by (rule inj_on_subset [OF Cons.prems(4)]) auto
  ultimately obtain s' where run: "run_state (fire_all enq X env (Suc i) scs) s1 = ((), s')" and s': "faults s' = []"
      and all: "\<forall>sc \<in> set scs. fired key_of X sc (committed s')"
      and other: "\<forall>row \<in> set (schedules (committed s')). sc_id row \<notin> s_ID ` set scs \<longrightarrow> row \<in> set (schedules (committed s1))"
    using Cons.IH [OF s1(2,1), of "Suc i"] Cons.prems(3,6) by auto
  have "\<exists>new. jobs (committed s') = jobs (committed s1) @ new"
    using fire_all_step [OF s1(2) run] by (auto simp: sched_step_def)
  moreover have "s_ID sc \<notin> s_ID ` set scs" using Cons.prems(3) by simp
  ultimately have "fired key_of X sc (committed s')"
    using one(1) other unfolding fired_def by (metis UnCI set_append)
  moreover have "run_state (fire_all enq X env i (sc # scs)) s = ((), s')"
    using fire run by simp
  ultimately show ?case using s' all other one(2) by auto
qed simp

end

lemma s_ID_due: "s_ID ` set (due_schedules now d) = sc_id ` set (filter (due now) (schedules d))"
  by (simp add: due_schedules_def image_image schedule_of_def)

lemma distinct_due:
  assumes "db_ok d"
  shows "distinct (map s_ID (due_schedules now d))"
proof -
  let ?rows = "filter (due now) (schedules d)"
  have "distinct (map sc_id ?rows)" using assms by (intro distinct_map_filter) (simp add: db_ok_defs)
  then have "distinct (map sc_id (sort_key (\<lambda>r. the (sc_next_run_at r)) ?rows))"
    by (metis mset_map mset_sort mset_eq_imp_distinct_iff)
  then show ?thesis by (simp add: due_schedules_def schedule_of_def sql_order_by_def comp_def)
qed

lemma schedule_accepts:
  assumes "jsonb_in X ''{}'' \<noteq> None" "jsonb_in X (s_Payload sc) \<noteq> None"
    and "s_TenantID sc \<noteq> uuid_Nil" "s_TenantID sc \<in> t_id ` set (tenants d)" "e_newid e \<notin> ID ` set (jobs d)"
  shows "enqueue_accepts X e (schedule_params X sc) d"
  using assms by (simp add: enqueue_accepts_def normalizeEnqueueParams_def Let_def schedule_params_def max_int32_def)

text \<open>Every due row of a well-formed database is accepted by the queue, and its cron expression parses.\<close>

lemma due_accepted:
  assumes "db_ok d" "sc \<in> set (due_schedules now d)" "e_newid e \<notin> ID ` set (jobs d)" "jsonb_in X ''{}'' \<noteq> None"
    and "\<forall>row \<in> set (schedules d). due now row \<longrightarrow> sc_tenant_id row \<noteq> uuid_Nil \<and>
      jsonb_in X (coalesce (sc_payload row) ''{}'') \<noteq> None \<and> (\<exists>f. cron_Parse X (sc_cron_expr row) = Inr f)"
  shows "enqueue_accepts X e (schedule_params X sc) d \<and> (\<exists>nx. Next X (s_CronExpr sc) (s_NextRunAt sc) = Inr nx)"
proof -
  obtain r where r: "r \<in> set (schedules d)" "due now r" "sc = schedule_of r (the (sc_next_run_at r))"
    using assms(2) by (auto simp: due_schedules_def)
  moreover have "sc_tenant_id r \<in> t_id ` set (tenants d)" using assms(1) r(1) by (simp add: db_ok_defs)
  ultimately have "enqueue_accepts X e (schedule_params X sc) d"
    using assms(3-5) by (intro schedule_accepts) (auto simp: schedule_of_def)
  with assms(5) r show ?thesis by (auto simp: Next_def schedule_of_def)
qed

text \<open>A tick with the lock free, no failure and nothing to initialise is the firing loop between lock and unlock.\<close>

lemma Tick_run:
  assumes "working s = None" "faults s = []" "advisory s = None" "missing_next (committed s) = []"
    and "run_state (fire_all enq X env 0 (due_schedules now (committed s))) (s\<lparr>advisory := Some sess\<rparr>) = ((), s2)"
  shows "run_state (Tick enq X sess now env None) s = (Inr (), snd (run_state (unlock sess) s2))"
proof -
  let ?s1 = "s\<lparr>advisory := Some sess\<rparr>"
  have "run_state (initializeNextRuns X now) ?s1 = (Inr (), ?s1)"
    using run_stmt_fault_free [of ?s1 "\<lambda>d. Inr (missing_next d, d)"] assms(1,2,4)
    by (simp add: initializeNextRuns_def run_tryM)
  then have "run_state (tick_body enq X now env None) ?s1 = (Inr (), s2)"
    using run_stmt_fault_free [of ?s1 "\<lambda>d. Inr (due_schedules now d, d)"] assms(1,2,5)
    by (simp add: tick_body_def run_tryM received_def rows_Err_def)
  moreover have "run_state acquire s = (Inr (), s)" "run_state (tryLock sess) s = (Inr True, ?s1)"
    using assms(2,3) by (simp_all add: acquire_def run_round_trip tryLock_def lock_act_def)
  ultimately show ?thesis by (simp add: Tick_def run_tryM split: prod.splits)
qed

text \<open>
  C15: progress. A tick that gets the lock, meets no failure and finds every enabled schedule
  initialised fires every schedule that is due and acceptable: afterwards the occurrence has
  its job, the last run is the occurrence, and the next run is the one that the cron
  expression gives after the occurrence. All of that holds for every such schedule, in
  whatever order they are due.
\<close>

theorem Tick_fires_due:
  assumes "working s = None" "faults s = []" "advisory s = None" "db_ok (committed s)"
    and "\<forall>row \<in> set (schedules (committed s)). sc_enabled row \<longrightarrow> sc_next_run_at row \<noteq> None"
    and "inj_on (\<lambda>k. e_newid (env k)) {..<length (schedules (committed s))}"
    and "\<forall>k < length (schedules (committed s)). e_newid (env k) \<notin> ID ` set (jobs (committed s))"
    and "jsonb_in X ''{}'' \<noteq> None"
    and "\<forall>row \<in> set (schedules (committed s)). due now row \<longrightarrow> sc_tenant_id row \<noteq> uuid_Nil \<and>
      jsonb_in X (coalesce (sc_payload row) ''{}'') \<noteq> None \<and> (\<exists>f. cron_Parse X (sc_cron_expr row) = Inr f)"
  shows "\<exists>s'. run_state (Tick (queue_enqueue X) X sess now env None) s = (Inr (), s') \<and> advisory s' = None \<and>
    (\<forall>row \<in> set (schedules (committed s)). due now row \<longrightarrow>
       fired tenant_key X (schedule_of row (the (sc_next_run_at row))) (committed s'))"
proof -
  let ?rows = "due_schedules now (committed s)" and ?s1 = "s\<lparr>advisory := Some sess\<rparr>"
  have len: "length ?rows \<le> length (schedules (committed s))"
    by (simp add: due_schedules_def)
  then have ids: "inj_on (\<lambda>k. e_newid (env k)) {0..<0 + length ?rows}"
    by (intro inj_on_subset [OF assms(6)]) auto
  have ok: "enqueue_accepts X (env k) (schedule_params X sc) (committed s) \<and>
      (\<exists>nx. Next X (s_CronExpr sc) (s_NextRunAt sc) = Inr nx)"
    if "sc \<in> set ?rows" "k < length ?rows" for sc k
    using due_accepted [OF assms(4) that(1) _ assms(8,9), of "env k"] assms(7) len that(2) by simp
  then have acc: "\<forall>sc \<in> set ?rows. \<forall>k \<in> {0..<0 + length ?rows}. enqueue_accepts X (env k) (schedule_params X sc) (committed ?s1)"
    by simp
  have parse: "\<forall>sc \<in> set ?rows. \<exists>nx. Next X (s_CronExpr sc) (s_NextRunAt sc) = Inr nx"
    using ok [of _ 0] length_pos_if_in_set [of _ ?rows] by simp
  from queue_live.fire_all_live [OF _ _ distinct_due [OF assms(4)] ids acc parse]
  obtain s2 where fire: "run_state (fire_all (queue_enqueue X) X env 0 ?rows) ?s1 = ((), s2)"
      and all: "\<forall>sc \<in> set ?rows. fired tenant_key X sc (committed s2)"
    using assms(1,2) by auto
  have adv: "advisory s2 = Some sess"
    using queue_enq.fire_all_step [OF _ fire] assms(1) by (simp add: sched_step_def)
  have "missing_next (committed s) = []"
    using assms(5) by (auto simp: missing_next_def filter_empty_conv)
  note run = Tick_run [OF assms(1-3) this fire]
  have "fired tenant_key X (schedule_of r (the (sc_next_run_at r))) (committed s2)"
    if "r \<in> set (schedules (committed s))" "due now r" for r
    using all that by (auto simp: due_schedules_def)
  with run show ?thesis using adv by (intro exI conjI) (auto simp: unlock_effect)
qed

lemma Tick_fires_due_witness:
  "\<exists>s'. run_state (Tick (queue_enqueue sample_ext) sample_ext 4 50 sample_env None) (sample_pg sample_sched_db) = (Inr (), s') \<and>
     fired tenant_key sample_ext (schedule_of sample_row 10) (committed s')"
proof -
  have "inj_on (\<lambda>k. e_newid (sample_env k)) {..<1}" by (auto intro!: inj_onI)
  with Tick_fires_due [of "sample_pg sample_sched_db" sample_env sample_ext 50 4] show ?thesis
    by (auto simp: sample_sched_ok due_def sample_env_def coalesce_def)
qed

section \<open>Distinct occurrences have distinct keys\<close>

text \<open>
  Idempotency keys identify occurrences. If the text form of UUIDs is injective and of
  fixed length, two occurrences with the same key belong to the same schedule and to the
  same second, so a job is never withheld because another schedule, or another run of the
  same schedule a second or more apart, used its key.
\<close>

theorem IdempotencyKey_identifies:
  assumes "inj (uuid_String X)" "\<forall>u v. length (uuid_String X u) = length (uuid_String X v)"
    and "0 \<le> s" "0 \<le> t" "IdempotencyKey_of X i s = IdempotencyKey_of X j t"
  shows "i = j \<and> s div 1000000 = t div 1000000"
proof -
  have "uuid_String X i @ '':'' @ RFC3339 s = uuid_String X j @ '':'' @ RFC3339 t"
    using assms(5) by (simp add: IdempotencyKey_of_def)
  then have "uuid_String X i = uuid_String X j" "RFC3339 s = RFC3339 t"
    using assms(2) by (auto simp: append_eq_append_conv)
  with assms(1,3,4) show ?thesis by (auto dest: injD intro: RFC3339_second)
qed

text \<open>A text form of fixed length: the bits of the UUID.\<close>

definition bits_ext :: ext where
  "bits_ext = sample_ext\<lparr>uuid_String := (\<lambda>u. map (\<lambda>n. if bit u n then CHR ''1'' else CHR ''0'') [0..<128])\<rparr>"

lemma bits_ext_ok:
  "inj (uuid_String bits_ext)" "length (uuid_String bits_ext u) = length (uuid_String bits_ext v)"
proof -
  show "inj (uuid_String bits_ext)"
  proof (rule injI)
    fix u v assume "uuid_String bits_ext u = uuid_String bits_ext v"
    then have "(bit u n = bit v n)" if "n < 128" for n
      using that by (auto simp: bits_ext_def split: if_splits)
    then show "u = v" by (auto intro!: bit_word_eqI)
  qed
qed (simp add: bits_ext_def)

lemma IdempotencyKey_identifies_witness:
  "IdempotencyKey_of bits_ext 3 1000000 \<noteq> IdempotencyKey_of bits_ext 3 2000000"
  using IdempotencyKey_identifies [OF bits_ext_ok(1), of 1000000 2000000 3 3] bits_ext_ok(2) by auto

section \<open>Where the tick falls short\<close>

text \<open>
  One bad row stops everybody. If an enabled schedule without a next run has an expression
  that does not parse, a tick without failures ends with that error before any schedule is
  fired, however many are due, and so does every later tick until the row is changed.
\<close>

theorem Tick_bad_cron_blocks_all:
  assumes "working s = None" "faults s = []" "advisory s = None"
    and "filter (\<lambda>r. sc_enabled r \<and> sc_next_run_at r = None) (schedules (committed s)) = row # rest"
    and "cron_Parse X (sc_cron_expr row) = Inl err"
  shows "run_state (Tick enq X sess now env brk) s = (Inl err, s)"
proof -
  let ?s1 = "s\<lparr>advisory := Some sess\<rparr>"
  have "missing_next (committed s) = (sc_id row, sc_cron_expr row) # map (\<lambda>r. (sc_id r, sc_cron_expr r)) rest"
    by (simp add: missing_next_def assms(4))
  then have "run_state (initializeNextRuns X now) ?s1 = (Inl err, ?s1)"
    using run_stmt_fault_free [of ?s1 "\<lambda>d. Inr (missing_next d, d)"] assms(1,2,5)
    by (simp add: initializeNextRuns_def run_tryM Next_def)
  then have "run_state (tick_body enq X now env brk) ?s1 = (Inl err, ?s1)"
    by (simp add: tick_body_def run_tryM)
  moreover have "run_state acquire s = (Inr (), s)" "run_state (tryLock sess) s = (Inr True, ?s1)"
    using assms(2,3) by (simp_all add: acquire_def run_round_trip tryLock_def lock_act_def)
  ultimately show ?thesis
    using assms(2,3) by (simp add: Tick_def run_tryM run_unlock close_session_def)
qed

lemma Tick_bad_cron_blocks_all_witness:
  "run_state (Tick (queue_enqueue sample_ext) sample_ext 4 50 sample_env None)
     (sample_pg (sample_sched_db\<lparr>schedules := [sample_row, sample_row\<lparr>sc_id := 10, sc_cron_expr := '''', sc_next_run_at := None\<rparr>]\<rparr>)) =
   (Inl (ErrMessage ''empty spec string''),
    sample_pg (sample_sched_db\<lparr>schedules := [sample_row, sample_row\<lparr>sc_id := 10, sc_cron_expr := '''', sc_next_run_at := None\<rparr>]\<rparr>))"
  by (rule Tick_bad_cron_blocks_all [where row = "sample_row\<lparr>sc_id := 10, sc_cron_expr := '''', sc_next_run_at := None\<rparr>" and rest = "[]"])
    (simp_all add: sample_row_def sample_ext_def)

end
