(* ===== verification/Schedule_Store.thy ===== *)
theory Schedule_Store
  imports Scheduler_Props
begin

text \<open>
  The schedule store of \<open>src/internal/scheduler/store.go\<close>: what creating, pausing, resuming
  and deleting a schedule does to the tables and to the ticks that follow.
\<close>

section \<open>Create\<close>

lemma insert_schedule_effect:
  assumes "insert_schedule X i p nx d = Inr (r, d')"
  shows "\<exists>payload. jsonb_in X (cp_Payload p) = Some payload \<and> r = new_schedule i payload p nx"
    and "d' = d\<lparr>schedules := schedules d @ [r]\<rparr>"
    and "sc_id r \<notin> sc_id ` set (schedules d)" "sc_tenant_id r \<in> t_id ` set (tenants d)" "sc_next_run_at r = Some nx"
  using assms by (auto simp: insert_schedule_def new_schedule_def Let_def split: option.splits if_splits)

lemma db_ok_add_schedule:
  assumes "db_ok d" "sc_id r \<notin> sc_id ` set (schedules d)" "sc_tenant_id r \<in> t_id ` set (tenants d)"
  shows "db_ok (d\<lparr>schedules := schedules d @ [r]\<rparr>)"
  using assms by (simp add: db_ok_defs runs_simps dead_ok_def)

lemma scanSchedule_cases:
  assumes "working s = None" "run_state (scanSchedule (stmt f)) s = (r, s')"
  obtains (none) e where "r = Inl e" "committed s' = committed s" "working s' = None" "advisory s' = advisory s"
    | (lost) e row where "r = Inl e" "driver_error e" "f (committed s) = Inr (row, committed s')" "working s' = None" "advisory s' = advisory s"
    | (unscanned) row where "r = Inl ErrNullScan" "f (committed s) = Inr (row, committed s')" "working s' = None" "advisory s' = advisory s"
        "sc_next_run_at row = None"
    | (got) row sc where "r = Inr sc" "f (committed s) = Inr (row, committed s')" "scan_row row = Inr sc" "working s' = None" "advisory s' = advisory s"
proof -
  have at: "atomic (norows ErrScheduleNotFound (stmt f)) (norowsE ErrScheduleNotFound f)"
    by (intro sim_intros)
  from assms(2) [unfolded scanSchedule_def] show ?thesis
  proof (cases rule: run_tryM_cases)
    case (err e)
    from atomicD [OF at assms(1) err(1)] err(2) none lost show ?thesis by auto
  next
    case (val row s1)
    note facts = atomicD [OF at assms(1) val(1)]
    show ?thesis
    proof (cases "scan_row row")
      case (Inl e)
      then have "e = ErrNullScan" "sc_next_run_at row = None" by (auto simp: scan_row_def split: option.splits)
      with val(2) Inl facts unscanned show ?thesis by auto
    next
      case (Inr sc)
      with val(2) have "r = Inr sc" "s1 = s'" by simp_all
      with facts Inr show ?thesis by (intro got [of sc row]) auto
    qed
  qed
qed

text \<open>
  The row that a request asks for: enabled, with the trimmed name, expression and handler, none of
  them empty, and due first at the time that the expression gives after the moment of creation.
\<close>

definition created_row :: "ext \<Rightarrow> time \<Rightarrow> uuid \<Rightarrow> CreateParams \<Rightarrow> schedule_row \<Rightarrow> time \<Rightarrow> bool" where
  "created_row X gonow i p row nx \<longleftrightarrow>
     Next X (TrimSpace (cp_CronExpr p)) gonow = Inr nx \<and>
     sc_id row = i \<and> sc_enabled row \<and> sc_next_run_at row = Some nx \<and> sc_last_run_at row = None \<and>
     sc_name row = Some (TrimSpace (cp_Name p)) \<and> sc_cron_expr row = TrimSpace (cp_CronExpr p) \<and>
     sc_handler row = TrimSpace (cp_Handler p) \<and>
     TrimSpace (cp_Name p) \<noteq> '''' \<and> TrimSpace (cp_CronExpr p) \<noteq> '''' \<and> TrimSpace (cp_Handler p) \<noteq> ''''"

lemma Create_cases:
  assumes "working s = None" "db_ok (committed s)" "run_state (Create X gonow i p) s = (r, s')"
  shows "db_ok (committed s') \<and> jobs (committed s') = jobs (committed s) \<and>
    job_runs (committed s') = job_runs (committed s) \<and>
    (\<forall>sc. r = Inr sc \<longrightarrow> (\<exists>row nx. created_row X gonow i p row nx \<and> sc = schedule_of row nx \<and>
       schedules (committed s') = schedules (committed s) @ [row])) \<and>
    (\<forall>e. r = Inl e \<longrightarrow> schedules (committed s') = schedules (committed s) \<or>
       driver_error e \<and> (\<exists>row nx. created_row X gonow i p row nx \<and>
         schedules (committed s') = schedules (committed s) @ [row]))"
proof -
  let ?p = "normalizeCreate p"
  consider (reject) e where "run_state (Create X gonow i p) s = (Inl e, s)"
    | (go) nx where "Next X (cp_CronExpr ?p) gonow = Inr nx" "cp_Name ?p \<noteq> ''''" "cp_CronExpr ?p \<noteq> ''''" "cp_Handler ?p \<noteq> ''''"
        "run_state (tryM (stmt (insert_tenant (cp_TenantID ?p) (uuid_String X (cp_TenantID ?p)))) (\<lambda>_.
          scanSchedule (stmt (insert_schedule X i ?p nx)))) s = (r, s')"
    using assms(3) unfolding Create_def Let_def by (auto split: if_splits sum.splits)
  then show ?thesis
  proof cases
    case reject
    with assms show ?thesis by auto
  next
    case (go nx)
    have tenant: "db_ok d \<and> jobs d = jobs (committed s) \<and> job_runs d = job_runs (committed s) \<and>
        schedules d = schedules (committed s)" if "insert_tenant a b (committed s) = Inr (u, d)" for a b u d
      using insert_tenant_effect [OF that] insert_tenant_preserves [OF assms(2) that] by simp
    from go(5) show ?thesis
    proof (cases rule: run_tryM_cases)
      case (err e)
      from assms(1) err(1) show ?thesis
        by (cases rule: stmt_cases) (use err(2) assms(2) in \<open>auto dest!: tenant\<close>)
    next
      case (val u s1)
      from atomicD [OF atomic_stmt assms(1) val(1)] have s1: "db_ok (committed s1)" "jobs (committed s1) = jobs (committed s)"
          "job_runs (committed s1) = job_runs (committed s)" "schedules (committed s1) = schedules (committed s)" "working s1 = None"
        by (auto dest!: tenant)
      have added: "db_ok (committed s') \<and> jobs (committed s') = jobs (committed s) \<and> job_runs (committed s') = job_runs (committed s) \<and>
          schedules (committed s') = schedules (committed s) @ [row]"
        if "insert_schedule X i ?p nx (committed s1) = Inr (row, committed s')" for row
        using insert_schedule_effect [OF that] db_ok_add_schedule [OF s1(1)] s1 by auto
      have new: "created_row X gonow i p row nx" if ins: "insert_schedule X i ?p nx (committed s1) = Inr (row, committed s')" for row
        using insert_schedule_effect(1) [OF ins] go(1-4) by (auto simp: created_row_def new_schedule_def normalizeCreate_def)
      from s1(5) val(2) show ?thesis
      proof (cases rule: scanSchedule_cases)
        case (unscanned row)
        then show ?thesis using insert_schedule_effect(5) by fastforce
      next
        case (got row sc)
        obtain payload where row: "row = new_schedule i payload ?p nx"
          using insert_schedule_effect(1) [OF got(2)] by blast
        then have "sc = schedule_of row nx" using got(3) by (simp add: scan_row_def new_schedule_def)
        with added [OF got(2)] new [OF got(2)] got(1) show ?thesis by auto
      next
        case (lost e row)
        with added [OF lost(3)] new [OF lost(3)] show ?thesis by auto
      qed (use s1 in auto)
    qed
  qed
qed

lemma Create_added:
  assumes "working s = None" "db_ok (committed s)" "run_state (Create X gonow i p) s = (Inr sc, s')"
  shows "\<exists>row nx. schedules (committed s') = schedules (committed s) @ [row] \<and>
    Next X (TrimSpace (cp_CronExpr p)) gonow = Inr nx \<and> sc = schedule_of row nx \<and>
    sc_enabled row \<and> sc_next_run_at row = Some nx"
  using Create_cases [OF assms] unfolding created_row_def by blast


definition sample_create :: CreateParams where
  "sample_create = \<lparr>cp_TenantID = 1, cp_Name = '' n '', cp_CronExpr = ''* * * * *'', cp_Payload = '''',
     cp_Queue = '''', cp_Handler = ''echo''\<rparr>"


text \<open>
  A schedule that never runs is run at once. The cron library answers the zero time for
  an expression that no date satisfies (such as the thirtieth of February). \<open>Create\<close> accepts
  it and stores that time as the next run, which lies in the past, so every later tick
  finds the schedule due and fires it.
\<close>

theorem Create_never_matching_fires:
  assumes "working s = None" "db_ok (committed s)"
    and "run_state (Create X gonow i p) s = (Inr sc, s')"
    and "Next X (TrimSpace (cp_CronExpr p)) gonow = Inr zero_time" "0 \<le> now"
  shows "sc \<in> set (due_schedules now (committed s')) \<and> s_NextRunAt sc = zero_time"
proof -
  obtain row nx where "schedules (committed s') = schedules (committed s) @ [row]"
      "Next X (TrimSpace (cp_CronExpr p)) gonow = Inr nx" "sc = schedule_of row nx"
      "sc_enabled row" "sc_next_run_at row = Some nx"
    using Create_added [OF assms(1-3)] by blast
  with assms(4,5) show ?thesis
    by (auto simp: due_schedules_def due_def zero_time_def schedule_of_def)
qed

definition never_ext :: ext where
  "never_ext = sample_ext\<lparr>cron_Parse := (\<lambda>e. Inr (\<lambda>t. zero_time))\<rparr>"

lemma sample_create_normal:
  "normalizeCreate sample_create = \<lparr>cp_TenantID = 1, cp_Name = ''n'', cp_CronExpr = ''* * * * *'',
     cp_Payload = ''{}'', cp_Queue = ''default'', cp_Handler = ''echo''\<rparr>"
  by code_simp

lemma sample_create_run:
  "run_state (Create never_ext 50 12 sample_create) (sample_pg sample_sched_db) =
     (Inr (schedule_of (new_schedule 12 ''{}'' (normalizeCreate sample_create) 0) 0),
      sample_pg (sample_sched_db\<lparr>schedules := [sample_row, new_schedule 12 ''{}'' (normalizeCreate sample_create) 0]\<rparr>))"
proof -
  have t: "insert_tenant 1 n sample_sched_db = Inr ((), sample_sched_db)" for n
    by (simp add: insert_tenant_def sample_sched_db_def sample_db_def)
  have ten: "tenants sample_sched_db = [\<lparr>t_id = 1, t_name = ''default''\<rparr>]"
    by (simp add: sample_sched_db_def sample_db_def)
  have pg: "(sample_pg d)\<lparr>committed := d'\<rparr> = sample_pg d'" for d d'
    by (simp add: sample_pg_def)

  let ?p = "normalizeCreate sample_create"
  have ins: "insert_schedule never_ext 12 ?p 0 sample_sched_db = Inr (new_schedule 12 ''{}'' ?p 0,
      sample_sched_db\<lparr>schedules := [sample_row, new_schedule 12 ''{}'' ?p 0]\<rparr>)"
    by (simp add: sample_create_normal insert_schedule_def new_schedule_def schedules_check_def sql_trim_def
        never_ext_def ten Let_def)
  have "run_state (scanSchedule (stmt (insert_schedule never_ext 12 ?p 0))) (sample_pg sample_sched_db) =
      (Inr (schedule_of (new_schedule 12 ''{}'' ?p 0) 0),
       sample_pg (sample_sched_db\<lparr>schedules := [sample_row, new_schedule 12 ''{}'' ?p 0]\<rparr>))"
    using run_stmt_fault_free [of "sample_pg sample_sched_db" "insert_schedule never_ext 12 ?p 0"] ins
    by (simp add: scanSchedule_def run_tryM run_norows scan_row_def pg) (simp add: new_schedule_def)
  moreover have "run_state (stmt (insert_tenant 1 n)) (sample_pg sample_sched_db) = (Inr (), sample_pg sample_sched_db)" for n
    using run_stmt_fault_free [of "sample_pg sample_sched_db" "insert_tenant 1 n"] t by (simp add: pg)
  moreover have "cp_TenantID ?p = 1" "cp_Name ?p \<noteq> ''''" "cp_CronExpr ?p \<noteq> ''''" "cp_Handler ?p \<noteq> ''''" "cp_Payload ?p = ''{}''"
      "Next never_ext (cp_CronExpr ?p) 50 = Inr 0"
    by (simp_all add: sample_create_normal Next_def never_ext_def zero_time_def)
  ultimately show ?thesis
    unfolding Create_def Let_def by (simp add: json_Valid_empty_object run_tryM)
qed

lemma Create_never_matching_fires_witness:
  "schedule_of (new_schedule 12 ''{}'' (normalizeCreate sample_create) 0) 0 \<in> set (due_schedules 1000
     (sample_sched_db\<lparr>schedules := [sample_row, new_schedule 12 ''{}'' (normalizeCreate sample_create) 0]\<rparr>))"
  using Create_never_matching_fires [OF _ _ sample_create_run, of 1000]
  by (simp add: sample_sched_ok Next_def never_ext_def)

section \<open>Pause and resume\<close>

lemma set_enabled_effect:
  assumes "set_enabled i b d = Inr (r, d')"
  shows "d' = d\<lparr>schedules := sql_update (\<lambda>r. sc_id r = i) (\<lambda>r. r\<lparr>sc_enabled := b\<rparr>) (schedules d)\<rparr>"
    and "\<exists>row \<in> set (schedules d). sc_id row = i \<and> r = row\<lparr>sc_enabled := b\<rparr>"
proof -
  obtain x xs where x: "filter (\<lambda>r. sc_id r = i) (schedules d) = x # xs" "r = x\<lparr>sc_enabled := b\<rparr>"
      "d' = d\<lparr>schedules := sql_update (\<lambda>r. sc_id r = i) (\<lambda>r. r\<lparr>sc_enabled := b\<rparr>) (schedules d)\<rparr>"
    using assms by (auto simp: set_enabled_def split: list.splits)
  then have "x \<in> set (filter (\<lambda>r. sc_id r = i) (schedules d))" by simp
  then have "x \<in> set (schedules d)" "sc_id x = i" by simp_all
  with x(2,3) show "d' = d\<lparr>schedules := sql_update (\<lambda>r. sc_id r = i) (\<lambda>r. r\<lparr>sc_enabled := b\<rparr>) (schedules d)\<rparr>"
    and "\<exists>row \<in> set (schedules d). sc_id row = i \<and> r = row\<lparr>sc_enabled := b\<rparr>"
    by blast+
qed

lemma SetEnabled_success:
  assumes "working s = None" "run_state (SetEnabled i b) s = (Inr sc, s')"
  shows "committed s' = (committed s)\<lparr>schedules := sql_update (\<lambda>r. sc_id r = i) (\<lambda>r. r\<lparr>sc_enabled := b\<rparr>) (schedules (committed s))\<rparr>"
    and "working s' = None" and "i \<in> sc_id ` set (schedules (committed s))"
proof -
  obtain row where "set_enabled i b (committed s) = Inr (row, committed s')" "working s' = None"
    using assms(1) assms(2) [unfolded SetEnabled_def] by (cases rule: scanSchedule_cases) auto
  with set_enabled_effect [OF this(1)]
  show "committed s' = (committed s)\<lparr>schedules := sql_update (\<lambda>r. sc_id r = i) (\<lambda>r. r\<lparr>sc_enabled := b\<rparr>) (schedules (committed s))\<rparr>"
    and "working s' = None" and "i \<in> sc_id ` set (schedules (committed s))"
    by auto
qed

text \<open>
  A paused schedule is left alone, and a resumed one catches up. After a successful
  pause no tick finds the schedule due. Resuming restores the row as it was: the next run is
  not computed anew, so the occurrence that passed in the meantime is fired by the first
  tick after the resumption.
\<close>

theorem Pause_resume_catches_up:
  assumes "working s = None" "row \<in> set (schedules (committed s))" "sc_id row = i"
    and "sc_enabled row" "sc_next_run_at row = Some t" "t \<le> now"
    and "run_state (SetEnabled i False) s = (Inr sc1, s1)"
    and "run_state (SetEnabled i True) s1 = (Inr sc2, s2)"
  shows "i \<notin> s_ID ` set (due_schedules later (committed s1)) \<and>
    schedule_of row t \<in> set (due_schedules now (committed s2))"
proof -
  note pause = SetEnabled_success [OF assms(1,7)]
  note resume = SetEnabled_success [OF pause(2) assms(8)]
  have rows1: "schedules (committed s1) = sql_update (\<lambda>r. sc_id r = i) (\<lambda>r. r\<lparr>sc_enabled := False\<rparr>) (schedules (committed s))"
    by (simp add: pause(1))
  have rows2: "schedules (committed s2) = sql_update (\<lambda>r. sc_id r = i) (\<lambda>r. r\<lparr>sc_enabled := True\<rparr>) (schedules (committed s1))"
    by (simp add: resume(1))
  have "\<not> due later r" if r: "r \<in> set (schedules (committed s1))" "sc_id r = i" for r
    using r(1) unfolding rows1 by (rule in_sql_updateE) (use r(2) in \<open>simp_all add: due_def\<close>)
  then have "i \<notin> s_ID ` set (due_schedules later (committed s1))"
    unfolding s_ID_due by auto
  moreover have "row\<lparr>sc_enabled := False\<rparr> \<in> set (schedules (committed s1))"
    using assms(2,3) unfolding rows1 by (simp add: set_sql_update)
  then have "row\<lparr>sc_enabled := False\<rparr>\<lparr>sc_enabled := True\<rparr> \<in> set (schedules (committed s2))"
    using assms(3) unfolding rows2 set_sql_update by (intro UnI1 imageI) simp
  then have "row \<in> set (schedules (committed s2))"
    using assms(4) by (cases row) simp
  then have "schedule_of row t \<in> set (due_schedules now (committed s2))"
    using assms(4-6) unfolding due_schedules_def set_map
    by (intro image_eqI [of _ _ row]) (simp_all add: due_def)
  ultimately show ?thesis by blast
qed

lemma sample_set_enabled:
  "run_state (SetEnabled 9 b) (sample_pg (sample_sched_db\<lparr>schedules := [sample_row\<lparr>sc_enabled := c\<rparr>]\<rparr>)) =
     (Inr (schedule_of (sample_row\<lparr>sc_enabled := b\<rparr>) 10), sample_pg (sample_sched_db\<lparr>schedules := [sample_row\<lparr>sc_enabled := b\<rparr>]\<rparr>))"
  by (simp add: SetEnabled_def scanSchedule_def run_tryM run_norows stmt_def run_round_trip apply_txn_def
      set_enabled_def scan_row_def put_view_def view_def sample_pg_def)

lemma Pause_resume_catches_up_witness:
  "schedule_of (sample_row\<lparr>sc_enabled := True\<rparr>) 10 \<in> set (due_schedules 50 (sample_sched_db\<lparr>schedules := [sample_row\<lparr>sc_enabled := True\<rparr>]\<rparr>))"
  using Pause_resume_catches_up [OF _ _ _ _ _ _ sample_set_enabled [of False True] sample_set_enabled [of True False],
      of "sample_row\<lparr>sc_enabled := True\<rparr>" 10 50 0]
  by simp

section \<open>Delete\<close>

lemma delete_schedule_effect:
  "delete_schedule i d = Inr (n, d') \<Longrightarrow>
   d' = d\<lparr>schedules := sql_delete (\<lambda>r. sc_id r = i) (schedules d)\<rparr> \<and> n = length (filter (\<lambda>r. sc_id r = i) (schedules d))"
  by (simp add: delete_schedule_def)

text \<open>
  Deleting a schedule without connection failures removes exactly its row, or reports
  that there is none and changes nothing; the jobs it already enqueued stay.
\<close>

theorem Delete_outcome:
  assumes "working s = None" "faults s = []"
  shows "run_state (Delete i) s =
    (if i \<in> sc_id ` set (schedules (committed s))
     then (Inr (), s\<lparr>committed := (committed s)\<lparr>schedules := filter (\<lambda>r. sc_id r \<noteq> i) (schedules (committed s))\<rparr>\<rparr>)
     else (Inl ErrScheduleNotFound, s))"
proof -
  let ?d = "(committed s)\<lparr>schedules := sql_delete (\<lambda>r. sc_id r = i) (schedules (committed s))\<rparr>"
  have "run_state (stmt (delete_schedule i)) s =
      (Inr (length (filter (\<lambda>r. sc_id r = i) (schedules (committed s)))), s\<lparr>committed := ?d\<rparr>)"
    using assms by (intro run_stmt_fault_free) (simp_all add: delete_schedule_def)
  moreover have "filter (\<lambda>r. sc_id r = i) (schedules (committed s)) = [] \<longleftrightarrow> i \<notin> sc_id ` set (schedules (committed s))"
    by (auto simp: filter_empty_conv)
  moreover have "sql_delete (\<lambda>r. sc_id r = i) (schedules (committed s)) = schedules (committed s)"
    if "i \<notin> sc_id ` set (schedules (committed s))"
    using that by (auto simp: sql_delete_def filter_id_conv)
  ultimately show ?thesis by (auto simp: Delete_def run_tryM sql_delete_def)
qed

lemma Delete_outcome_witness:
  "run_state (Delete 8) (sample_pg sample_sched_db) = (Inl ErrScheduleNotFound, sample_pg sample_sched_db)"
  using Delete_outcome [of "sample_pg sample_sched_db" 8] by simp

end
