(* ===== verification/Step_Systems.thy ===== *)
theory Step_Systems
  imports Main
begin

text \<open>
  Step relations with an invariant, and with a preorder that every step respects: the two
  interfaces through which the state machines of the development (the database under all
  its clients, the event hub, the worker's job) get their facts about whole runs.
\<close>

section \<open>Transition systems\<close>

locale invariant_system =
  fixes step :: "'a \<Rightarrow> 'a \<Rightarrow> bool" and inv :: "'a \<Rightarrow> bool"
  assumes step_inv: "inv x \<Longrightarrow> step x y \<Longrightarrow> inv y"
begin

lemma steps_inv: "step\<^sup>*\<^sup>* x y \<Longrightarrow> inv x \<Longrightarrow> inv y"
  by (induction rule: rtranclp_induct) (auto intro: step_inv)

end

text \<open>A preorder that every step respects is respected by every run.\<close>

locale history_system = invariant_system step inv for step :: "'a \<Rightarrow> 'a \<Rightarrow> bool" and inv +
  fixes hist :: "'a \<Rightarrow> 'a \<Rightarrow> bool"
  assumes hist_refl: "hist x x"
    and hist_trans: "hist x y \<Longrightarrow> hist y z \<Longrightarrow> hist x z"
    and step_hist: "inv x \<Longrightarrow> step x y \<Longrightarrow> hist x y"
begin

lemma steps_hist: "step\<^sup>*\<^sup>* x y \<Longrightarrow> inv x \<Longrightarrow> hist x y"
proof (induction rule: rtranclp_induct)
  case (step y z)
  then show ?case using steps_inv step_hist hist_trans by blast
qed (rule hist_refl)

end

end
