(* ===== verification/Forge_System.thy ===== *)
theory Forge_System
  imports Job_Lifecycle Schedule_Store Step_Systems
begin

text \<open>
  The whole system around one database: any number of API servers, workers and schedulers
  call the operations of the queue, the scheduler and the schedule store in any order, with
  any arguments and any connection failures; between calls the server may store the rows of
  a table in another order. \<open>forge_step\<close> is one such call; reachability is its closure.
\<close>

section \<open>One call\<close>

definition connect :: "db \<Rightarrow> nat option \<Rightarrow> fault list \<Rightarrow> pg" where
  "connect d lock fs = \<lparr>committed = d, working = None, advisory = lock, faults = fs\<rparr>"

lemma connect_simps [simp]:
  "committed (connect d lock fs) = d" "working (connect d lock fs) = None"
  "advisory (connect d lock fs) = lock" "faults (connect d lock fs) = fs"
  by (simp_all add: connect_def)

text \<open>The same rows in another order.\<close>

definition reordered :: "db \<Rightarrow> db \<Rightarrow> bool" where
  "reordered d d' \<longleftrightarrow> mset (tenants d') = mset (tenants d) \<and> mset (jobs d') = mset (jobs d) \<and>
     mset (job_runs d') = mset (job_runs d) \<and> mset (dead_letters d') = mset (dead_letters d) \<and>
     mset (schedules d') = mset (schedules d)"

inductive forge_step :: "ext \<Rightarrow> db \<Rightarrow> db \<Rightarrow> bool" for X :: ext where
  step_Enqueue: "run_state (Enqueue X gonow now i el p) (connect d lock fs) = (r, s') \<Longrightarrow> forge_step X d (committed s')"
| step_Dequeue: "run_state (Dequeue now newids locked queues limit w lease) (connect d lock fs) = (rd, s') \<Longrightarrow>
     forge_step X d (committed s')"
| step_Ack: "run_state (Ack now i w) (connect d lock fs) = (rj, s') \<Longrightarrow> forge_step X d (committed s')"
| step_Nack: "run_state (Nack oob q now i w cause) (connect d lock fs) = (rn, s') \<Longrightarrow> forge_step X d (committed s')"
| step_ExtendLease: "run_state (ExtendLease now i w lease) (connect d lock fs) = (ru, s') \<Longrightarrow> forge_step X d (committed s')"
| step_Cancel: "run_state (Cancel now i) (connect d lock fs) = (rj, s') \<Longrightarrow> forge_step X d (committed s')"
| step_RequeueDLQ: "run_state (RequeueDLQ now i) (connect d lock fs) = (rj, s') \<Longrightarrow> forge_step X d (committed s')"
| step_Tick: "run_state (Tick (queue_enqueue X) X sess now env brk) (connect d lock fs) = (ru, s') \<Longrightarrow>
     lock \<noteq> Some sess \<Longrightarrow> forge_step X d (committed s')"
| step_Create: "run_state (Create X gonow i cp) (connect d lock fs) = (rs, s') \<Longrightarrow> forge_step X d (committed s')"
| step_SetEnabled: "run_state (SetEnabled i b) (connect d lock fs) = (rs, s') \<Longrightarrow> forge_step X d (committed s')"
| step_Delete: "run_state (Delete i) (connect d lock fs) = (ru, s') \<Longrightarrow> forge_step X d (committed s')"
| step_reorder: "reordered d d' \<Longrightarrow> forge_step X d d'"

section \<open>The invariant\<close>

lemma mset_map_eq: "mset xs = mset ys \<Longrightarrow> mset (map f xs) = mset (map f ys)"
  by (metis mset_map)

lemma short_mset_eq: "mset xs = mset ys \<Longrightarrow> length ys \<le> 1 \<Longrightarrow> xs = ys"
  by (cases ys) (auto simp: length_Suc_conv)

lemma db_ok_reordered:
  assumes "db_ok d" "reordered d d'"
  shows "db_ok d'"
proof -
  have m: "mset (tenants d') = mset (tenants d)" "mset (jobs d') = mset (jobs d)" "mset (job_runs d') = mset (job_runs d)"
      "mset (dead_letters d') = mset (dead_letters d)" "mset (schedules d') = mset (schedules d)"
    using assms(2) by (simp_all add: reordered_def)
  have sets: "set (tenants d') = set (tenants d)" "set (jobs d') = set (jobs d)" "set (job_runs d') = set (job_runs d)"
      "set (dead_letters d') = set (dead_letters d)" "set (schedules d') = set (schedules d)"
    using m by (auto dest: mset_eq_setD)
  have dist: "distinct (map f xs) = distinct (map f ys)" if "mset xs = mset ys" for f :: "'x \<Rightarrow> 'y" and xs ys
    using mset_eq_imp_distinct_iff [OF mset_map_eq [OF that]] .
  have keys: "distinct (idem_keys (jobs d')) = distinct (idem_keys (jobs d))"
    unfolding idem_keys_def List.map_filter_def
    by (intro mset_eq_imp_distinct_iff mset_map_eq) (simp add: m(2))
  have runs: "runs_ok d' j" if "runs_ok d j" for j
  proof -
    have "mset (map r_attempt (open_runs (ID j) d')) = mset (map r_attempt (open_runs (ID j) d))"
      unfolding open_runs_def by (intro mset_map_eq) (simp add: m(3))
    then have "map r_attempt (open_runs (ID j) d') = map r_attempt (open_runs (ID j) d)"
      using that by (intro short_mset_eq) (auto simp: runs_ok_def dest: arg_cong [where f = length] split: if_splits)
    moreover have "length (runs_of (ID j) d') = length (runs_of (ID j) d)"
      unfolding runs_of_def by (metis m(3) mset_filter size_mset)
    ultimately show ?thesis using that by (simp add: runs_ok_def)
  qed
  show ?thesis
    using assms(1) runs
    by (simp add: db_ok_defs sets keys dist [OF m(1)] dist [OF m(2)] dist [OF m(3)] dist [OF m(4)] dist [OF m(5)] dead_ok_def)
qed

lemma db_ok_remove_schedules:
  "db_ok d \<Longrightarrow> db_ok (d\<lparr>schedules := sql_delete p (schedules d)\<rparr>)"
  by (simp add: db_ok_defs runs_simps dead_ok_def sql_delete_def distinct_map_filter)

lemma SetEnabled_keeps:
  assumes "run_state (SetEnabled i b) (connect d lock fs) = (r, s')" "db_ok d"
  shows "db_ok (committed s') \<and> jobs (committed s') = jobs d \<and> job_runs (committed s') = job_runs d"
proof -
  have eff: "db_ok d' \<and> jobs d' = jobs d \<and> job_runs d' = job_runs d" if "set_enabled i b d = Inr (row, d')" for row d'
    using set_enabled_effect(1) [OF that] db_ok_schedule_update [OF assms(2)] by simp
  have "working (connect d lock fs) = None" by simp
  from this assms(1) [unfolded SetEnabled_def] show ?thesis
    by (cases rule: scanSchedule_cases) (use assms(2) in \<open>auto dest!: eff\<close>)
qed

lemma Delete_keeps:
  assumes "run_state (Delete i) (connect d lock fs) = (r, s')" "db_ok d"
  shows "db_ok (committed s') \<and> jobs (committed s') = jobs d \<and> job_runs (committed s') = job_runs d"
proof -
  obtain q where run: "run_state (stmt (delete_schedule i)) (connect d lock fs) = (q, s')"
    using assms(1) unfolding Delete_def by (auto simp: run_tryM split: prod.splits sum.splits if_splits)
  have "working (connect d lock fs) = None" by simp
  from this run have "committed s' = d \<or> committed s' = d\<lparr>schedules := sql_delete (\<lambda>r. sc_id r = i) (schedules d)\<rparr>"
    by (cases rule: stmt_cases) (auto dest!: delete_schedule_effect)
  with assms(2) db_ok_remove_schedules show ?thesis by auto
qed

lemma forge_step_db_ok:
  assumes "db_ok d" "forge_step X d d'"
  shows "db_ok d'"
  using assms(2)
proof (cases rule: forge_step.cases)
  case (step_Enqueue gonow now i el p lock fs r s')
  then show ?thesis using enqueue_prog_preserves [OF _ step_Enqueue(2)] assms(1) by simp
next
  case (step_Dequeue now newids locked queues limit w lease lock fs rd s')
  then show ?thesis using dequeue_run_preserves [OF _ step_Dequeue(2)] assms(1) by simp
next
  case (step_Ack now i w lock fs rj s')
  then show ?thesis using ack_run_preserves [OF _ step_Ack(2)] assms(1) by simp
next
  case (step_Nack oob q now i w cause lock fs rn s')
  then show ?thesis using nack_run_preserves [OF _ step_Nack(2)] assms(1) by simp
next
  case (step_ExtendLease now i w lease lock fs ru s')
  then show ?thesis using extend_run_preserves [OF _ step_ExtendLease(2)] assms(1) by simp
next
  case (step_Cancel now i lock fs rj s')
  then show ?thesis using cancel_run_preserves [OF _ step_Cancel(2)] assms(1) by simp
next
  case (step_RequeueDLQ now i lock fs rj s')
  then show ?thesis using requeue_run_preserves [OF _ step_RequeueDLQ(2)] assms(1) by simp
next
  case (step_Tick sess now env brk lock fs ru s')
  then show ?thesis using queue_enq.Tick_step [OF _ _ _ step_Tick(2)] assms(1) by (simp add: sched_step_def)
next
  case (step_Create gonow i cp lock fs rs s')
  then show ?thesis using Create_cases [OF _ _ step_Create(2)] assms(1) by simp
next
  case (step_SetEnabled i b lock fs rs s')
  then show ?thesis using SetEnabled_keeps [OF step_SetEnabled(2) assms(1)] by simp
next
  case (step_Delete i lock fs ru s')
  then show ?thesis using Delete_keeps [OF step_Delete(2) assms(1)] by simp
next
  case step_reorder
  then show ?thesis using db_ok_reordered [OF assms(1)] by simp
qed

section \<open>The life of a job and of a run\<close>

text \<open>The transitions of the status that one call can make.\<close>

fun next_status :: "status \<Rightarrow> status \<Rightarrow> bool" where
  "next_status Ready st \<longleftrightarrow> st \<in> {Ready, Running, Failed}"
| "next_status Running st \<longleftrightarrow> st \<in> {Running, Ready, Succeeded, Dead}"
| "next_status Dead st \<longleftrightarrow> st \<in> {Dead, Ready}"
| "next_status Succeeded st \<longleftrightarrow> st = Succeeded"
| "next_status Failed st \<longleftrightarrow> st = Failed"

text \<open>What never changes about a job, and when nothing does any more.\<close>

definition same_identity :: "job \<Rightarrow> job \<Rightarrow> bool" where
  "same_identity j j' \<longleftrightarrow> ID j' = ID j \<and> TenantID j' = TenantID j \<and> Queue j' = Queue j \<and>
     Handler j' = Handler j \<and> Payload j' = Payload j \<and> Priority j' = Priority j \<and>
     MaxAttempts j' = MaxAttempts j \<and> IdempotencyKey j' = IdempotencyKey j \<and> CreatedAt j' = CreatedAt j"

definition settled :: "job \<Rightarrow> bool" where
  "settled j \<longleftrightarrow> Status j = Succeeded \<or> Status j = Failed"

definition job_evolves :: "job \<Rightarrow> job \<Rightarrow> bool" where
  "job_evolves j j' \<longleftrightarrow> same_identity j j' \<and> next_status (Status j) (Status j') \<and> (settled j \<longrightarrow> j' = j)"

definition run_evolves :: "job_run \<Rightarrow> job_run \<Rightarrow> bool" where
  "run_evolves r r' \<longleftrightarrow> r_id r' = r_id r \<and> r_job_id r' = r_job_id r \<and> r_attempt r' = r_attempt r \<and>
     r_started_at r' = r_started_at r \<and> (r_status r \<noteq> Running \<longrightarrow> r' = r)"

definition evolves :: "db \<Rightarrow> db \<Rightarrow> bool" where
  "evolves d d' \<longleftrightarrow> (\<forall>j \<in> set (jobs d). \<exists>j' \<in> set (jobs d'). job_evolves j j') \<and>
     (\<forall>r \<in> set (job_runs d). \<exists>r' \<in> set (job_runs d'). run_evolves r r')"

lemma job_evolves_refl [simp]: "job_evolves j j"
  by (cases "Status j") (simp_all add: job_evolves_def same_identity_def)

lemma run_evolves_refl [simp]: "run_evolves r r"
  by (simp add: run_evolves_def)

lemma evolves_refl [simp]: "evolves d d"
  unfolding evolves_def by (blast intro: job_evolves_refl run_evolves_refl)

lemma job_evolves_rows:
  "Status j = Running \<Longrightarrow> job_evolves j (ack_row now j)"
  "Status j = Running \<Longrightarrow> job_evolves j (dead_row now m j)"
  "Status j = Running \<Longrightarrow> job_evolves j (retry_row now dl m j)"
  "Status j = Running \<Longrightarrow> job_evolves j (extend_row now l j)"
  "Status j = Ready \<Longrightarrow> job_evolves j (cancel_row now j)"
  "Status j = Dead \<Longrightarrow> job_evolves j (requeue_row now j)"
  "job_evolves j (reclaim1 now j)"
  "claimable now locked queues j \<Longrightarrow> job_evolves j (claim_row now w l (reclaim1 now j))"
  by (auto simp: job_evolves_def same_identity_def settled_def ack_row_def dead_row_def retry_row_def
      extend_row_def cancel_row_def requeue_row_def reclaim1_def reclaim_row_def claim_row_def expired_def
      claimable_def) (cases "Status j"; simp)+

lemma run_evolves_closed:
  "r_status r = Running \<Longrightarrow> run_evolves r (r\<lparr>r_finished_at := t, r_status := st, r_error := e\<rparr>)"
  by (simp add: run_evolves_def)

lemma runs_evolve_close:
  assumes "r \<in> set rs"
  shows "\<exists>r' \<in> set (close_runs now st err K rs). run_evolves r r'"
proof (cases "r_status r = Running \<and> r_job_id r \<in> K")
  case True
  with assms run_evolves_closed show ?thesis unfolding close_runs_def set_sql_update by blast
next
  case False
  with assms show ?thesis unfolding close_runs_def set_sql_update
    by (intro bexI [of _ r]) auto
qed

text \<open>An update of one job, with its run closed or not.\<close>

lemma evolves_row:
  assumes "db_ok d" "j \<in> set (jobs d)" "job_evolves j (f j)"
    and "jobs d' = sql_update (\<lambda>x. ID x = ID j) f (jobs d)"
    and "job_runs d' = job_runs d \<or> job_runs d' = close_runs now st err {ID j} (job_runs d)"
  shows "evolves d d'"
  unfolding evolves_def
proof (intro conjI ballI)
  fix x assume x: "x \<in> set (jobs d)"
  show "\<exists>j' \<in> set (jobs d'). job_evolves x j'"
  proof (cases "ID x = ID j")
    case True
    with distinct_key_unique [OF db_okD(1) [OF assms(1)] x assms(2)] assms(3) x show ?thesis
      unfolding assms(4) set_sql_update by blast
  next
    case False
    with x show ?thesis unfolding assms(4) set_sql_update by (intro bexI [of _ x]) auto
  qed
next
  fix r assume "r \<in> set (job_runs d)"
  then show "\<exists>r' \<in> set (job_runs d'). run_evolves r r'"
    using assms(5) runs_evolve_close run_evolves_refl by metis
qed

lemma evolves_grow:
  "jobs d' = jobs d @ new \<Longrightarrow> job_runs d' = job_runs d \<Longrightarrow> evolves d d'"
  unfolding evolves_def using job_evolves_refl run_evolves_refl by (metis Un_iff set_append)

lemma ack_evolves:
  assumes "db_ok d" "ack_txn now i w d = Inr (a, d')"
  shows "evolves d d'"
proof -
  obtain j where j: "j \<in> set (jobs d)" "running_for i w j"
    using assms(2) ack_refused [of d i w now] by auto
  then have "Status j = Running" "i = ID j" by (simp_all add: running_for_def)
  with assms(2) ack_effect [OF assms(1) j, of now] show ?thesis
    by (intro evolves_row [where f = "ack_row now", OF assms(1) j(1) job_evolves_rows(1)]) auto
qed

lemma nack_evolves:
  assumes "db_ok d" "nack_txn oob q now i w cause d = Inr (a, d')"
  shows "evolves d d'"
proof -
  obtain j where j: "j \<in> set (jobs d)" "running_for i w j"
    using assms(2) nack_refused [of d i w oob q now cause] by auto
  then have run: "Status j = Running" "i = ID j" by (simp_all add: running_for_def)
  show ?thesis
  proof (cases "MaxAttempts j \<le> Attempts j")
    case True
    with assms(2) nack_effect_dead [OF assms(1) j True, of oob q now cause] run show ?thesis
      by (intro evolves_row [where f = "dead_row now (errorString cause)", OF assms(1) j(1) job_evolves_rows(2)]) auto
  next
    case False
    then have "Attempts j < MaxAttempts j" by simp
    with assms(2) nack_effect_retry [OF assms(1) j this, of oob q now cause] run show ?thesis
      by (intro evolves_row [where f = "retry_row now (backoff oob q (Attempts j)) (errorString cause)", OF assms(1) j(1) job_evolves_rows(3)]) auto
  qed
qed

lemma extend_evolves:
  assumes "db_ok d" "extend_txn now i w lease d = Inr (a, d')"
  shows "evolves d d'"
proof -
  obtain j where j: "j \<in> set (jobs d)" "leased_to i w j"
    using assms(2) extend_refused [of d i w now lease] by auto
  then have "Status j = Running" "i = ID j" by (simp_all add: leased_to_def)
  with assms(2) extend_effect [OF assms(1) j, of now lease] show ?thesis
    by (intro evolves_row [where f = "extend_row now lease", OF assms(1) j(1) job_evolves_rows(4)]) auto
qed

lemma cancel_evolves:
  assumes "db_ok d" "cancel_txn now i d = Inr (a, d')"
  shows "evolves d d'"
proof -
  obtain j where j: "j \<in> set (jobs d)" "cancellable i j"
    using assms(2) cancel_refused [of d i now] by auto
  then have "Status j = Ready" "i = ID j" by (simp_all add: cancellable_def)
  with assms(2) cancel_effect [OF assms(1) j, of now] show ?thesis
    by (intro evolves_row [where f = "cancel_row now", OF assms(1) j(1) job_evolves_rows(5)]) auto
qed

lemma requeue_evolves:
  assumes "db_ok d" "requeue_txn now i d = Inr (a, d')"
  shows "evolves d d'"
proof -
  obtain j where j: "j \<in> set (jobs d)" "requeueable i j"
    using assms(2) requeue_refused [of d i now] by auto
  then have "Status j = Dead" "i = ID j" by (simp_all add: requeueable_def)
  with assms(2) requeue_effect [OF assms(1) j, of now] show ?thesis
    by (intro evolves_row [where f = "requeue_row now", OF assms(1) j(1) job_evolves_rows(6)]) auto
qed

lemma dequeue_evolves:
  assumes ok: "db_ok d" and txn: "dequeue_txn now newids locked queues limit w lease d = Inr (js, d')"
  shows "evolves d d'"
  unfolding evolves_def
proof (intro conjI ballI)
  note res = dequeue_result [OF ok txn]
  fix j assume j: "j \<in> set (jobs d)"
  show "\<exists>j' \<in> set (jobs d'). job_evolves j j'"
  proof (cases "ID j \<in> ID ` set js")
    case True
    then obtain x where x: "x \<in> set js" "ID x = ID j" by force
    obtain j0 where j0: "j0 \<in> set (jobs d)" "claimable now locked (default_queues queues) j0"
        "x = claim_row now w lease (reclaim1 now j0)"
      using res(2) [OF x(1)] by blast
    with x(2) have "j0 = j" using distinct_key_unique [OF db_okD(1) [OF ok] j0(1) j] by simp
    with j0(2) have "job_evolves j (claim_row now w lease (reclaim1 now j))" by (simp add: job_evolves_rows(8))
    with True j show ?thesis unfolding res(5) set_map by (intro bexI [OF _ imageI [OF j]]) simp
  next
    case False
    with j show ?thesis unfolding res(5) set_map by (intro bexI [OF _ imageI [OF j]]) (simp add: job_evolves_rows(7))
  qed
next
  fix r assume r: "r \<in> set (job_runs d)"
  note eff = dequeue_effect [OF ok txn refl]
  show "\<exists>r' \<in> set (job_runs d'). run_evolves r r'"
    using runs_evolve_close [OF r] unfolding eff(2) by (fastforce simp: claimed_def reclaimed_def)
qed

lemma atomic_evolves:
  assumes "atomic m f" "\<And>a d'. f d = Inr (a, d') \<Longrightarrow> evolves d d'" "run_state m (connect d lock fs) = (r, s')"
  shows "evolves d (committed s')"
proof -
  have "committed s' = d \<or> (\<exists>a. f d = Inr (a, committed s'))"
    using atomicD(3,5) [OF assms(1) _ assms(3)] by (cases r) auto
  with assms(2) show ?thesis by auto
qed

lemma evolves_reordered: "reordered d d' \<Longrightarrow> evolves d d'"
  unfolding evolves_def reordered_def
  by (metis job_evolves_refl run_evolves_refl mset_eq_setD)

lemma forge_step_evolves:
  assumes "db_ok d" "forge_step X d d'"
  shows "evolves d d'"
  using assms(2)
proof (cases rule: forge_step.cases)
  case (step_Enqueue gonow now i el p lock fs r s')
  let ?e = "\<lparr>e_gonow = gonow, e_now = now, e_newid = i, e_elapsed = el\<rparr>"
  have "run_state (queue_enqueue X ?e p) (connect d lock fs) = (r, s')"
    using step_Enqueue(2) by (simp add: queue_enqueue_def)
  from enqueue_run_grows [OF _ this] step_Enqueue(1) show ?thesis by (auto intro: evolves_grow)
next
  case (step_Dequeue now newids locked queues limit w lease lock fs rd s')
  then show ?thesis using atomic_evolves [OF dequeue.atomic dequeue_evolves [OF assms(1)] step_Dequeue(2)] by simp
next
  case (step_Ack now i w lock fs rj s')
  then show ?thesis using atomic_evolves [OF ack.atomic ack_evolves [OF assms(1)] step_Ack(2)] by simp
next
  case (step_Nack oob q now i w cause lock fs rn s')
  then show ?thesis using atomic_evolves [OF nack.atomic nack_evolves [OF assms(1)] step_Nack(2)] by simp
next
  case (step_ExtendLease now i w lease lock fs ru s')
  then show ?thesis using atomic_evolves [OF extend.atomic extend_evolves [OF assms(1)] step_ExtendLease(2)] by simp
next
  case (step_Cancel now i lock fs rj s')
  then show ?thesis using atomic_evolves [OF cancel.atomic cancel_evolves [OF assms(1)] step_Cancel(2)] by simp
next
  case (step_RequeueDLQ now i lock fs rj s')
  then show ?thesis using atomic_evolves [OF requeue.atomic requeue_evolves [OF assms(1)] step_RequeueDLQ(2)] by simp
next
  case (step_Tick sess now env brk lock fs ru s')
  then show ?thesis using queue_enq.Tick_step [OF _ _ _ step_Tick(2)] assms(1)
    by (auto simp: sched_step_def intro: evolves_grow)
next
  case (step_Create gonow i cp lock fs rs s')
  then show ?thesis using Create_cases [OF _ _ step_Create(2)] assms(1) by (auto intro: evolves_grow [where new = "[]"])
next
  case (step_SetEnabled i b lock fs rs s')
  then show ?thesis using SetEnabled_keeps [OF step_SetEnabled(2) assms(1)] by (auto intro: evolves_grow [where new = "[]"])
next
  case (step_Delete i lock fs ru s')
  then show ?thesis using Delete_keeps [OF step_Delete(2) assms(1)] by (auto intro: evolves_grow [where new = "[]"])
next
  case step_reorder
  then show ?thesis using evolves_reordered by simp
qed

text \<open>
  What remains of \<open>evolves\<close> over many calls: jobs are never lost or changed in identity,
  settled jobs and closed runs never change at all.
\<close>

definition history_kept :: "db \<Rightarrow> db \<Rightarrow> bool" where
  "history_kept d d' \<longleftrightarrow>
     (\<forall>j \<in> set (jobs d). \<exists>j' \<in> set (jobs d'). same_identity j j' \<and> (settled j \<longrightarrow> j' = j)) \<and>
     (\<forall>r \<in> set (job_runs d). \<exists>r' \<in> set (job_runs d'). run_evolves r r')"

lemma evolves_history: "evolves d d' \<Longrightarrow> history_kept d d'"
  unfolding evolves_def history_kept_def job_evolves_def by blast

lemma history_kept_trans:
  assumes "history_kept a b" "history_kept b c"
  shows "history_kept a c"
  unfolding history_kept_def
proof (intro conjI ballI)
  fix j assume "j \<in> set (jobs a)"
  then obtain k where "k \<in> set (jobs b)" "same_identity j k" "settled j \<longrightarrow> k = j"
    using assms(1) unfolding history_kept_def by blast
  moreover from this obtain l where "l \<in> set (jobs c)" "same_identity k l" "settled k \<longrightarrow> l = k"
    using assms(2) unfolding history_kept_def by blast
  ultimately show "\<exists>l \<in> set (jobs c). same_identity j l \<and> (settled j \<longrightarrow> l = j)"
    by (intro bexI [of _ l]) (auto simp: same_identity_def)
next
  fix r assume "r \<in> set (job_runs a)"
  then obtain s where "s \<in> set (job_runs b)" "run_evolves r s"
    using assms(1) unfolding history_kept_def by blast
  moreover from this obtain t where "t \<in> set (job_runs c)" "run_evolves s t"
    using assms(2) unfolding history_kept_def by blast
  ultimately show "\<exists>t \<in> set (job_runs c). run_evolves r t"
    by (intro bexI [of _ t]) (auto simp: run_evolves_def)
qed

interpretation forge: history_system "forge_step X" db_ok history_kept for X
proof
  show "db_ok y" if "db_ok x" "forge_step X x y" for x y using forge_step_db_ok [OF that] .
  show "history_kept x x" for x by (rule evolves_history) simp
  show "history_kept x z" if "history_kept x y" "history_kept y z" for x y z using history_kept_trans [OF that] .
  show "history_kept x y" if "db_ok x" "forge_step X x y" for x y
    using evolves_history [OF forge_step_evolves [OF that]] .
qed

section \<open>Properties of every run\<close>

text \<open>
  C1: the invariant. Starting from the empty database, after any sequence of calls of any
  number of API servers, workers and schedulers, with any connection failures, the tables
  satisfy the schema's constraints and the queue's own invariant: a job is leased exactly
  while it runs, a running job has exactly one open run and it is that of its current
  attempt, no other job has one, every counted attempt has its run, and the dead-letter
  table lists exactly the dead jobs.
\<close>

theorem Reachable_db_ok:
  assumes "(forge_step X)\<^sup>*\<^sup>* empty_db d"
  shows "schema_ok d \<and> queue_ok d"
  using forge.steps_inv [OF assms db_ok_empty] by (simp add: db_ok_def)

text \<open>One job in the database, and the same job cancelled.\<close>

definition sample_new :: job where
  "sample_new = new_job 50 99 ''{}'' (Some ''k'') (normalizeEnqueueParams 0 sample_params)"

definition sample_one :: "job \<Rightarrow> db" where
  "sample_one j = \<lparr>tenants = [\<lparr>t_id = 1, t_name = ''default''\<rparr>], jobs = [j],
     job_runs = [], dead_letters = [], schedules = []\<rparr>"

lemma sample_step_enqueue: "forge_step sample_ext empty_db (sample_one sample_new)"
proof -
  have "run_state (Enqueue sample_ext 0 50 99 1 sample_params) (connect empty_db None []) =
      (Inr (sample_new, True, 1), connect (sample_one sample_new) None [])"
    by (simp add: Enqueue_def ensureTenant_def normalizeEnqueueParams_def sample_params_def Let_def run_tryM stmt_def
        run_round_trip apply_txn_def view_def put_view_def connect_def insert_tenant_def tenant_name_def empty_db_def
        DefaultTenantID_def insert_job_idem_def sample_one_def sample_new_def jobs_check_def max_int32_def
        insert_job_row_def thenE_def okE_def)
  from step_Enqueue [OF this] show ?thesis by simp
qed

lemma sample_step_cancel:
  "forge_step sample_ext (sample_one sample_new) (sample_one (cancel_row 60 sample_new))"
proof -
  have "run_state (Cancel 60 99) (connect (sample_one sample_new) None []) =
      (Inr (cancel_row 60 sample_new), connect (sample_one (cancel_row 60 sample_new)) None [])"
    by (simp add: Cancel_def run_norows stmt_def run_round_trip apply_txn_def view_def put_view_def connect_def
        update_job_returning_def sample_one_def cancellable_def sample_new_def)
  from step_Cancel [OF this] show ?thesis by simp
qed

lemmas sample_reach = r_into_rtranclp [of "forge_step sample_ext", OF sample_step_enqueue]

lemma Reachable_db_ok_witness:
  "schema_ok (sample_one sample_new)"
  using Reachable_db_ok [OF sample_reach] by blast

text \<open>
  C5: the status machine. Whatever one call does to a job, and whatever fails, the job is
  still there with the same identity (tenant, queue, handler, payload, priority, budget, key
  and creation time); its status moves along an edge of the machine (ready to running or
  cancelled; running to succeeded, back to ready, or dead; dead to ready); and a succeeded or
  cancelled job is not touched at all.
\<close>

theorem Job_status_machine:
  assumes "(forge_step X)\<^sup>*\<^sup>* empty_db d" "forge_step X d d'" "find_job i d = Some j"
  shows "\<exists>j'. find_job i d' = Some j' \<and> same_identity j j' \<and> next_status (Status j) (Status j') \<and>
    (Status j \<in> {Succeeded, Failed} \<longrightarrow> j' = j)"
proof -
  have ok: "db_ok d" by (rule forge.steps_inv [OF assms(1) db_ok_empty])
  have j: "j \<in> set (jobs d)" "ID j = i" using assms(3) by (auto dest: find_job_in)
  obtain j' where j': "j' \<in> set (jobs d')" "job_evolves j j'"
    using forge_step_evolves [OF ok assms(2)] j(1) unfolding evolves_def by blast
  then have "find_job i d' = Some j'"
    using j(2) by (simp add: find_job_eq [OF db_okD(1) [OF forge_step_db_ok [OF ok assms(2)]]]
        job_evolves_def same_identity_def)
  with j'(2) show ?thesis by (auto simp: job_evolves_def settled_def)
qed

lemma Job_status_machine_witness:
  "\<exists>j'. find_job 99 (sample_one (cancel_row 60 sample_new)) = Some j' \<and> same_identity sample_new j'"
proof -
  have "find_job 99 (sample_one sample_new) = Some sample_new"
    by (simp add: find_job_def sample_one_def sample_new_def)
  from Job_status_machine [OF sample_reach sample_step_cancel this] show ?thesis by blast
qed

text \<open>
  C23: the history is append-only. Over any sequence of calls no job disappears or changes
  its identity, a job that succeeded or was cancelled keeps its row for ever, no run
  disappears, and a run that is closed is never changed again.
\<close>

theorem History_append_only:
  assumes "(forge_step X)\<^sup>*\<^sup>* empty_db d" "(forge_step X)\<^sup>*\<^sup>* d d'"
  shows "(\<forall>j \<in> set (jobs d). \<exists>j' \<in> set (jobs d'). same_identity j j' \<and> (Status j \<in> {Succeeded, Failed} \<longrightarrow> j' = j)) \<and>
    (\<forall>r \<in> set (job_runs d). \<exists>r' \<in> set (job_runs d'). r_id r' = r_id r \<and> r_job_id r' = r_job_id r \<and>
       r_attempt r' = r_attempt r \<and> (r_status r \<noteq> Running \<longrightarrow> r' = r))"
proof -
  have "db_ok d" by (rule forge.steps_inv [OF assms(1) db_ok_empty])
  from forge.steps_hist [OF assms(2) this] show ?thesis
    unfolding history_kept_def settled_def run_evolves_def by (meson insert_iff singletonD)
qed

lemma History_append_only_witness:
  "\<exists>j' \<in> set (jobs (sample_one (cancel_row 60 sample_new))). same_identity sample_new j'"
  using History_append_only [OF sample_reach r_into_rtranclp [of "forge_step sample_ext", OF sample_step_cancel]]
  by (auto simp: sample_one_def)

end
