(* ===== verification/Interleaving.thy ===== *)
theory Interleaving
  imports Forge_System
begin

text \<open>
  The statements of concurrent transactions, interleaved. The other theories let a transaction run
  as a whole; here every statement of \<open>Dequeue\<close>, \<open>Ack\<close>, \<open>Nack\<close>, \<open>ExtendLease\<close>, \<open>Cancel\<close> and
  \<open>RequeueDLQ\<close> is a step of its own, between which other sessions work, under the rules of
  PostgreSQL's default isolation level READ COMMITTED: a statement sees the committed rows and its
  own changes; a row that it updates or selects for update is locked until the end of the
  transaction; a statement that would touch a row locked by another waits (has no step), except
  with \<open>SKIP LOCKED\<close>; a row that changed while the statement waited is tested again. \<open>visited\<close>
  are the rows that the statement considers at all (those of the snapshot at its start); a row that
  the transaction itself has locked before is always among them.

  A sub-select on the other table (in the updates of runs) is evaluated when the statement does its
  step, not on the snapshot that the statement took before it waited: the schedules in which a
  statement waits and then uses an older sub-select are not covered.

  The tables are \<open>jobs\<close> and \<open>job_runs\<close>: a dead letter is only touched by a session that holds the
  lock of its job.
\<close>

section \<open>Methods as sequences of statements\<close>

text \<open>
  A session's next statement with what follows it, which may depend on the rows that come back:
  an update of jobs (\<open>SELECT \<dots> FOR UPDATE\<close> changes nothing), the \<open>picked\<close> update with its limit, an
  update of runs whose condition may read both tables, an insertion of runs, the end.
\<close>

datatype session =
    UpdateJobs "job \<Rightarrow> bool" "job \<Rightarrow> job" "job list \<Rightarrow> session"
  | PickJobs "job \<Rightarrow> bool" int "job \<Rightarrow> job" "job list \<Rightarrow> session"
  | UpdateRuns "job list \<Rightarrow> job_run list \<Rightarrow> job_run \<Rightarrow> bool" "job_run \<Rightarrow> job_run" session
  | InsertRuns "job_run list" session
  | Commit "job list"
  | Rollback

datatype queue_call =
    DequeueCall time "nat \<Rightarrow> uuid" "string list" int string duration
  | AckCall time uuid string
  | NackCall "float64 \<Rightarrow> int" queue_state time uuid string "string option"
  | ExtendCall time uuid string duration
  | CancelCall time uuid
  | RequeueCall time uuid

definition close_expired_session :: "time \<Rightarrow> session \<Rightarrow> session" where
  "close_expired_session now = UpdateRuns
     (\<lambda>js rs r. r_status r = Running \<and> r_job_id r \<in> ID ` set (filter (expired now) js))
     (\<lambda>r. r\<lparr>r_finished_at := Some now, r_status := Failed, r_error := Some lease_expired_msg\<rparr>)"

text \<open>\<open>finishRunSQL\<close>: the newest open run of the job.\<close>

definition newest_open :: "uuid \<Rightarrow> job_run list \<Rightarrow> job_run \<Rightarrow> bool" where
  "newest_open jobID rs r =
     (case sql_limit 1 (sql_order_by (\<lambda>r. - r_started_at r) (filter (\<lambda>r. r_job_id r = jobID \<and> r_status r = Running) rs)) of
        [] \<Rightarrow> False
      | x # _ \<Rightarrow> r_id r = r_id x)"

definition finish_session :: "time \<Rightarrow> uuid \<Rightarrow> status \<Rightarrow> string \<Rightarrow> session \<Rightarrow> session" where
  "finish_session now jobID st err = UpdateRuns (\<lambda>js. newest_open jobID)
     (\<lambda>x. x\<lparr>r_finished_at := Some now, r_status := st, r_error := nullif err ''''\<rparr>)"

text \<open>
  A method that finds no row returns an error: \<open>Rollback\<close>, also for \<open>ExtendLease\<close> and \<open>Cancel\<close>, whose
  only statement has then changed nothing.
\<close>

fun program :: "queue_call \<Rightarrow> session" where
  "program (DequeueCall now newids queues limit w lease) =
     close_expired_session now
      (UpdateJobs (expired now) (reclaim_row now) (\<lambda>_.
       PickJobs (eligible now [] (default_queues queues)) (default_limit limit) (claim_row now w lease) (\<lambda>jobs.
         if \<exists>j \<in> set jobs. max_int32 < Attempts j then Rollback
         else InsertRuns (new_runs now newids 0 jobs) (Commit jobs))))"
| "program (AckCall now i w) =
     UpdateJobs (running_for i w) (ack_row now) (\<lambda>jobs.
       if jobs = [] then Rollback else finish_session now i Succeeded '''' (Commit jobs))"
| "program (NackCall oob q now i w cause) =
     UpdateJobs (running_for i w) (\<lambda>j. j) (\<lambda>jobs. case jobs of
         [] \<Rightarrow> Rollback
       | job # _ \<Rightarrow>
           if Attempts job \<ge> MaxAttempts job then
             UpdateJobs (\<lambda>j. ID j = i) (dead_row now (errorString cause)) (\<lambda>jobs.
               if jobs = [] then Rollback else finish_session now i Dead (errorString cause) (Commit jobs))
           else
             UpdateJobs (\<lambda>j. ID j = i) (retry_row now (backoff oob q (Attempts job)) (errorString cause)) (\<lambda>jobs.
               if jobs = [] then Rollback else finish_session now i Failed (errorString cause) (Commit jobs)))"
| "program (ExtendCall now i w lease) = UpdateJobs (leased_to i w) (extend_row now lease) (\<lambda>jobs.
       if jobs = [] then Rollback else Commit [])"
| "program (CancelCall now i) = UpdateJobs (cancellable i) (cancel_row now) (\<lambda>jobs.
       if jobs = [] then Rollback else Commit jobs)"
| "program (RequeueCall now i) = UpdateJobs (requeueable i) (requeue_row now) (\<lambda>jobs.
       if jobs = [] then Rollback else Commit jobs)"

section \<open>The server\<close>

text \<open>
  An open transaction: its rows of \<open>jobs\<close> that it has locked, as they were when it locked them and
  as it has changed them, its rows of \<open>job_runs\<close>, and the runs that it inserted.
\<close>

record open_tx =
  o_call :: queue_call
  o_prog :: session
  o_jobs :: "uuid \<rightharpoonup> job \<times> job"
  o_runs :: "uuid \<rightharpoonup> job_run"
  o_new :: "job_run list"

record server =
  c_jobs :: "job list"
  c_runs :: "job_run list"
  c_open :: "nat \<rightharpoonup> open_tx"

definition started_tx :: "queue_call \<Rightarrow> open_tx" where
  "started_tx call = \<lparr>o_call = call, o_prog = program call, o_jobs = Map.empty, o_runs = Map.empty, o_new = []\<rparr>"

definition own_version :: "open_tx \<Rightarrow> job \<Rightarrow> job" where
  "own_version x j = (case o_jobs x (ID j) of None \<Rightarrow> j | Some (_, j') \<Rightarrow> j')"

definition visible_jobs :: "server \<Rightarrow> open_tx \<Rightarrow> job list" where
  "visible_jobs c x = map (own_version x) (c_jobs c)"

definition visible_runs :: "server \<Rightarrow> open_tx \<Rightarrow> job_run list" where
  "visible_runs c x = map (\<lambda>r. case o_runs x (r_id r) of None \<Rightarrow> r | Some r' \<Rightarrow> r') (c_runs c @ o_new x)"

definition job_locked :: "server \<Rightarrow> nat \<Rightarrow> uuid \<Rightarrow> bool" where
  "job_locked c t i \<longleftrightarrow> (\<exists>t' x. t' \<noteq> t \<and> c_open c t' = Some x \<and> o_jobs x i \<noteq> None)"

definition run_locked :: "server \<Rightarrow> nat \<Rightarrow> uuid \<Rightarrow> bool" where
  "run_locked c t i \<longleftrightarrow> (\<exists>t' x. t' \<noteq> t \<and> c_open c t' = Some x \<and> o_runs x i \<noteq> None)"

text \<open>Locking and changing the rows \<open>hits\<close>.\<close>

definition take_locks :: "(job \<Rightarrow> job) \<Rightarrow> job list \<Rightarrow> (uuid \<rightharpoonup> job \<times> job) \<Rightarrow> uuid \<rightharpoonup> job \<times> job" where
  "take_locks f hits m i = (case find (\<lambda>j. ID j = i) hits of
       None \<Rightarrow> m i
     | Some j \<Rightarrow> Some (case m i of None \<Rightarrow> (j, f j) | Some (b, _) \<Rightarrow> (b, f j)))"

definition change_jobs :: "(job \<Rightarrow> job) \<Rightarrow> job list \<Rightarrow> session \<Rightarrow> open_tx \<Rightarrow> open_tx" where
  "change_jobs f hits next x = x\<lparr>o_jobs := take_locks f hits (o_jobs x), o_prog := next\<rparr>"

definition change_runs :: "(job_run \<Rightarrow> job_run) \<Rightarrow> job_run list \<Rightarrow> session \<Rightarrow> open_tx \<Rightarrow> open_tx" where
  "change_runs f hits next x = x\<lparr>o_runs := (\<lambda>i. case find (\<lambda>r. r_id r = i) hits of None \<Rightarrow> o_runs x i | Some r \<Rightarrow> Some (f r)),
     o_prog := next\<rparr>"

definition commit_tx :: "nat \<Rightarrow> open_tx \<Rightarrow> server \<Rightarrow> server" where
  "commit_tx t x c = c\<lparr>c_jobs := visible_jobs c x, c_runs := visible_runs c x, c_open := (c_open c)(t := None)\<rparr>"

text \<open>The rows that a statement hits among those that it visits.\<close>

definition hit_jobs :: "server \<Rightarrow> open_tx \<Rightarrow> uuid set \<Rightarrow> (job \<Rightarrow> bool) \<Rightarrow> job list" where
  "hit_jobs c x visited P = filter (\<lambda>j. (ID j \<in> visited \<or> o_jobs x (ID j) \<noteq> None) \<and> P j) (visible_jobs c x)"

definition hit_runs :: "server \<Rightarrow> open_tx \<Rightarrow> uuid set \<Rightarrow> (job list \<Rightarrow> job_run list \<Rightarrow> job_run \<Rightarrow> bool) \<Rightarrow> job_run list" where
  "hit_runs c x visited P = filter (\<lambda>r. r_id r \<in> visited \<and> P (visible_jobs c x) (visible_runs c x) r) (visible_runs c x)"

inductive cstep :: "(uuid set \<Rightarrow> bool) \<Rightarrow> server \<Rightarrow> server \<Rightarrow> bool" for vis :: "uuid set \<Rightarrow> bool" where
  begins: "c_open c t = None \<Longrightarrow> cstep vis c (c\<lparr>c_open := (c_open c)(t \<mapsto> started_tx call)\<rparr>)"
| updates: "c_open c t = Some x \<Longrightarrow> o_prog x = UpdateJobs P f k \<Longrightarrow> vis visited \<Longrightarrow> hits = hit_jobs c x visited P \<Longrightarrow>
    \<forall>j \<in> set hits. \<not> job_locked c t (ID j) \<Longrightarrow>
    cstep vis c (c\<lparr>c_open := (c_open c)(t \<mapsto> change_jobs f hits (k (map f hits)) x)\<rparr>)"
| picks: "c_open c t = Some x \<Longrightarrow> o_prog x = PickJobs P n f k \<Longrightarrow> vis visited \<Longrightarrow>
    best = sql_limit n (sql_order_by pick_order (filter (\<lambda>j. \<not> job_locked c t (ID j)) (hit_jobs c x visited P))) \<Longrightarrow>
    hits = filter (\<lambda>j. ID j \<in> ID ` set best) (visible_jobs c x) \<Longrightarrow>
    cstep vis c (c\<lparr>c_open := (c_open c)(t \<mapsto> change_jobs f hits (k (map f hits)) x)\<rparr>)"
| runs: "c_open c t = Some x \<Longrightarrow> o_prog x = UpdateRuns P f next \<Longrightarrow> vis visited \<Longrightarrow> hits = hit_runs c x visited P \<Longrightarrow>
    \<forall>r \<in> set hits. \<not> run_locked c t (r_id r) \<Longrightarrow>
    cstep vis c (c\<lparr>c_open := (c_open c)(t \<mapsto> change_runs f hits next x)\<rparr>)"
| inserts: "c_open c t = Some x \<Longrightarrow> o_prog x = InsertRuns rs next \<Longrightarrow> distinct (map r_id (visible_runs c x @ rs)) \<Longrightarrow>
    \<forall>u y. u \<noteq> t \<longrightarrow> c_open c u = Some y \<longrightarrow> r_id ` set rs \<inter> r_id ` set (o_new y) = {} \<Longrightarrow>
    cstep vis c (c\<lparr>c_open := (c_open c)(t \<mapsto> x\<lparr>o_new := o_new x @ rs, o_prog := next\<rparr>)\<rparr>)"
| commits: "c_open c t = Some x \<Longrightarrow> o_prog x = Commit js \<Longrightarrow> cstep vis c (commit_tx t x c)"
| aborts: "c_open c t = Some x \<Longrightarrow> cstep vis c (c\<lparr>c_open := (c_open c)(t := None)\<rparr>)"
| enqueues: "ID j \<notin> ID ` set (c_jobs c) \<Longrightarrow> cstep vis c (c\<lparr>c_jobs := c_jobs c @ [j]\<rparr>)"

definition idle_server :: "job list \<Rightarrow> job_run list \<Rightarrow> server" where
  "idle_server js rs = \<lparr>c_jobs = js, c_runs = rs, c_open = Map.empty\<rparr>"

section \<open>What a method does to a row\<close>

text \<open>The committed row that the method finds and the row that it commits.\<close>

fun row_effect :: "queue_call \<Rightarrow> job \<Rightarrow> job \<Rightarrow> bool" where
  "row_effect (DequeueCall now newids queues limit w lease) j j' \<longleftrightarrow>
     (expired now j \<and> j' = reclaim_row now j) \<or>
     (claimable now [] (default_queues queues) j \<and> j' = claim_row now w lease (reclaim1 now j))"
| "row_effect (AckCall now i w) j j' \<longleftrightarrow> running_for i w j \<and> j' = ack_row now j"
| "row_effect (NackCall oob q now i w cause) j j' \<longleftrightarrow> running_for i w j \<and>
     j' = (if MaxAttempts j \<le> Attempts j then dead_row now (errorString cause) j
           else retry_row now (backoff oob q (Attempts j)) (errorString cause) j)"
| "row_effect (ExtendCall now i w lease) j j' \<longleftrightarrow> leased_to i w j \<and> j' = extend_row now lease j"
| "row_effect (CancelCall now i) j j' \<longleftrightarrow> cancellable i j \<and> j' = cancel_row now j"
| "row_effect (RequeueCall now i) j j' \<longleftrightarrow> requeueable i j \<and> j' = requeue_row now j"

text \<open>
  Before the commit, between its two statements, \<open>Nack\<close> holds the lock of a row that it has not
  changed yet.
\<close>

definition pending_effect :: "queue_call \<Rightarrow> job \<Rightarrow> job \<Rightarrow> bool" where
  "pending_effect call j j' \<longleftrightarrow> row_effect call j j' \<or>
     (case call of NackCall oob q now i w cause \<Rightarrow> running_for i w j \<and> j' = j | _ \<Rightarrow> False)"

text \<open>The job that a method is called with.\<close>

fun call_job :: "queue_call \<Rightarrow> uuid option" where
  "call_job (DequeueCall now newids queues limit w lease) = None"
| "call_job (AckCall now i w) = Some i"
| "call_job (NackCall oob q now i w cause) = Some i"
| "call_job (ExtendCall now i w lease) = Some i"
| "call_job (CancelCall now i) = Some i"
| "call_job (RequeueCall now i) = Some i"

text \<open>
  What the rows that are returned have to do with the rows that are locked. \<open>Dequeue\<close> returns the
  rows that it claimed and has reclaimed the others; every other method has locked the row of its
  job and returns it, \<open>ExtendLease\<close> returns nothing.
\<close>

fun returns_ok :: "queue_call \<Rightarrow> (uuid \<rightharpoonup> job \<times> job) \<Rightarrow> job list \<Rightarrow> bool" where
  "returns_ok (DequeueCall now newids queues limit w lease) m js \<longleftrightarrow> length js \<le> nat (default_limit limit) \<and>
     (\<forall>x \<in> set js. \<exists>b. m (ID x) = Some (b, x) \<and> claimable now [] (default_queues queues) b \<and>
        x = claim_row now w lease (reclaim1 now b)) \<and>
     (\<forall>i b j'. m i = Some (b, j') \<longrightarrow> j' \<in> set js \<or> (expired now b \<and> j' = reclaim_row now b))"
| "returns_ok (ExtendCall now i w lease) m js \<longleftrightarrow> js = [] \<and> (\<exists>b j'. m = [i \<mapsto> (b, j')])"
| "returns_ok (AckCall now i w) m js \<longleftrightarrow> (\<exists>b j'. m = [i \<mapsto> (b, j')] \<and> js = [j'])"
| "returns_ok (NackCall oob q now i w cause) m js \<longleftrightarrow> (\<exists>b j'. m = [i \<mapsto> (b, j')] \<and> js = [j'])"
| "returns_ok (CancelCall now i) m js \<longleftrightarrow> (\<exists>b j'. m = [i \<mapsto> (b, j')] \<and> js = [j'])"
| "returns_ok (RequeueCall now i) m js \<longleftrightarrow> (\<exists>b j'. m = [i \<mapsto> (b, j')] \<and> js = [j'])"

definition result_ok :: "queue_call \<Rightarrow> (uuid \<rightharpoonup> job \<times> job) \<Rightarrow> job list \<Rightarrow> bool" where
  "result_ok call m js \<longleftrightarrow> (\<forall>i b j'. m i = Some (b, j') \<longrightarrow> row_effect call b j') \<and> returns_ok call m js"

lemma reclaim_evolves: "expired now j \<Longrightarrow> job_evolves j (reclaim_row now j)"
  using job_evolves_rows(7) [of j now] by (simp add: reclaim1_def)

lemma row_effect_evolves: "row_effect call j j' \<Longrightarrow> job_evolves j j'"
  by (cases call) (auto simp: running_for_def leased_to_def cancellable_def requeueable_def
      intro: job_evolves_rows reclaim_evolves split: if_splits)

lemma pending_effect_ID:
  assumes "pending_effect call j j'"
  shows "ID j' = ID j"
proof (cases "row_effect call j j'")
  case True
  from row_effect_evolves [OF this] show ?thesis by (simp add: job_evolves_def same_identity_def)
next
  case False
  with assms show ?thesis by (auto simp: pending_effect_def split: queue_call.splits)
qed

lemma row_effect_pending: "row_effect call j j' \<Longrightarrow> pending_effect call j j'"
  by (simp add: pending_effect_def)

section \<open>Every program keeps to its effect\<close>

definition locked_base :: "(uuid \<rightharpoonup> job \<times> job) \<Rightarrow> job \<Rightarrow> job" where
  "locked_base m j = (case m (ID j) of None \<Rightarrow> j | Some (b, _) \<Rightarrow> b)"

text \<open>Rows that a statement with the condition \<open>P\<close> can hit: own versions where there are some.\<close>

definition legal_hits :: "(job \<Rightarrow> bool) \<Rightarrow> (uuid \<rightharpoonup> job \<times> job) \<Rightarrow> job list \<Rightarrow> bool" where
  "legal_hits P m hits \<longleftrightarrow> distinct (map ID hits) \<and>
     (\<forall>j \<in> set hits. P j \<and> (\<forall>b j'. m (ID j) = Some (b, j') \<longrightarrow> j = j'))"

text \<open>A row that the transaction has locked and that satisfies the condition is hit.\<close>

definition hits_own :: "(job \<Rightarrow> bool) \<Rightarrow> (uuid \<rightharpoonup> job \<times> job) \<Rightarrow> job list \<Rightarrow> bool" where
  "hits_own P m hits \<longleftrightarrow> (\<forall>i b j'. m i = Some (b, j') \<longrightarrow> P j' \<longrightarrow> j' \<in> set hits)"

text \<open>
  Whatever rows the statements of a program hit, every changed row has the effect \<open>E\<close> on the row
  as it was when it was locked, and the result satisfies \<open>R\<close>.
\<close>

primrec safe :: "(job \<Rightarrow> job \<Rightarrow> bool) \<Rightarrow> ((uuid \<rightharpoonup> job \<times> job) \<Rightarrow> job list \<Rightarrow> bool) \<Rightarrow> session \<Rightarrow>
    (uuid \<rightharpoonup> job \<times> job) \<Rightarrow> bool" where
  "safe E R (UpdateJobs P f k) = (\<lambda>m. \<forall>hits. legal_hits P m hits \<and> hits_own P m hits \<longrightarrow>
     (\<forall>j \<in> set hits. E (locked_base m j) (f j)) \<and> safe E R (k (map f hits)) (take_locks f hits m))"
| "safe E R (PickJobs P n f k) = (\<lambda>m. \<forall>hits. legal_hits P m hits \<and> length hits \<le> nat n \<longrightarrow>
     (\<forall>j \<in> set hits. E (locked_base m j) (f j)) \<and> safe E R (k (map f hits)) (take_locks f hits m))"
| "safe E R (UpdateRuns P f next) = (\<lambda>m. (\<forall>r. r_id (f r) = r_id r) \<and> safe E R next m)"
| "safe E R (InsertRuns rs next) = (\<lambda>m. safe E R next m)"
| "safe E R (Commit js) = (\<lambda>m. R m js)"
| "safe E R Rollback = (\<lambda>m. True)"

lemma take_locks_hit:
  assumes "distinct (map ID hits)" "j \<in> set hits"
  shows "take_locks f hits m (ID j) = Some (locked_base m j, f j)"
proof -
  have "find (\<lambda>x. ID x = ID j) hits = Some j"
    using assms by (induction hits) (auto simp: image_iff)
  then show ?thesis by (simp add: take_locks_def locked_base_def split: option.splits)
qed

lemma take_locks_miss: "i \<notin> ID ` set hits \<Longrightarrow> take_locks f hits m i = m i"
  by (auto simp: take_locks_def find_None_iff split: option.splits dest!: find_Some_iff [THEN iffD1])

lemma take_locks_cases:
  assumes "distinct (map ID hits)" "take_locks f hits m i = Some (b, j')"
  obtains (old) "i \<notin> ID ` set hits" "m i = Some (b, j')"
    | (new) j where "j \<in> set hits" "ID j = i" "b = locked_base m j" "j' = f j"
proof (cases "i \<in> ID ` set hits")
  case True
  then obtain j where "j \<in> set hits" "ID j = i" by blast
  with take_locks_hit [OF assms(1) this(1), of f m] assms(2) new show ?thesis by auto
next
  case False
  with take_locks_miss [OF False, of f m] assms(2) old show ?thesis by simp
qed

text \<open>A statement that changes rows which the transaction had not locked before.\<close>

lemma fresh_base [simp]: "locked_base Map.empty j = j"
  by (simp add: locked_base_def)

lemma hits_own_empty [simp]: "hits_own P Map.empty hits"
  by (simp add: hits_own_def)

lemma legal_hits_key:
  assumes "legal_hits P m hits" "\<And>j. P j \<Longrightarrow> ID j = i"
  shows "hits = [] \<or> (\<exists>job. hits = [job] \<and> P job)"
proof (cases hits)
  case (Cons job rest)
  have hits: "distinct (map ID hits)" "\<And>j. j \<in> set hits \<Longrightarrow> P j \<and> ID j = i"
    using assms by (auto simp: legal_hits_def)
  then have "ID r = ID job" if "r \<in> set rest" for r using that Cons by simp
  moreover have "ID job \<notin> ID ` set rest" using hits(1) Cons by simp
  ultimately have "set rest = {}" by (metis equals0I image_eqI)
  then show ?thesis using Cons hits(2) [of job] by simp
qed simp

lemma take_locks_none [simp]: "take_locks f [] m = m"
  by (simp add: take_locks_def fun_eq_iff)

lemma take_locks_one: "ID job = i \<Longrightarrow> take_locks f [job] Map.empty = [i \<mapsto> (job, f job)]"
  "ID job = i \<Longrightarrow> take_locks f [job] [i \<mapsto> (b, j')] = [i \<mapsto> (b, f job)]"
  by (auto simp: take_locks_def fun_eq_iff)

text \<open>The first statement of a method on the job \<open>i\<close>.\<close>

lemma safe_single:
  assumes "\<And>j. P j \<Longrightarrow> E j (f j) \<and> ID j = i" "safe E R (k []) Map.empty"
    and "\<And>job. P job \<Longrightarrow> safe E R (k [f job]) [i \<mapsto> (job, f job)]"
  shows "safe E R (UpdateJobs P f k) Map.empty"
  unfolding safe.simps
proof (intro allI impI)
  fix hits assume "legal_hits P Map.empty hits \<and> hits_own P Map.empty hits"
  with legal_hits_key [of P Map.empty hits i] assms(1) have "hits = [] \<or> (\<exists>job. hits = [job] \<and> P job)" by blast
  then show "(\<forall>j \<in> set hits. E (locked_base Map.empty j) (f j)) \<and> safe E R (k (map f hits)) (take_locks f hits Map.empty)"
    using assms by (auto simp: take_locks_one)
qed

text \<open>The second statement of \<open>Nack\<close>, on the job that the first one has locked.\<close>

lemma safe_second:
  assumes "ID job = i" "E job (f job)" "safe E R (k [f job]) [i \<mapsto> (job, f job)]"
  shows "safe E R (UpdateJobs (\<lambda>j. ID j = i) f k) [i \<mapsto> (job, job)]"
  unfolding safe.simps
proof (intro allI impI)
  fix hits assume "legal_hits (\<lambda>j. ID j = i) [i \<mapsto> (job, job)] hits \<and> hits_own (\<lambda>j. ID j = i) [i \<mapsto> (job, job)] hits"
  then have "legal_hits (\<lambda>j. ID j = i) [i \<mapsto> (job, job)] hits" "job \<in> set hits"
    using assms(1) unfolding hits_own_def by (blast, metis map_upd_Some_unfold)
  with legal_hits_key [OF this(1), of i] have "hits = [job]" by auto
  then show "(\<forall>j \<in> set hits. E (locked_base [i \<mapsto> (job, job)] j) (f j)) \<and>
      safe E R (k (map f hits)) (take_locks f hits [i \<mapsto> (job, job)])"
    using assms by (simp add: take_locks_one locked_base_def)
qed

lemma safe_Nack: "safe (pending_effect (NackCall oob q now i w cause)) (result_ok (NackCall oob q now i w cause))
   (program (NackCall oob q now i w cause)) Map.empty"
  unfolding program.simps
proof (rule safe_single)
  let ?E = "pending_effect (NackCall oob q now i w cause)" and ?R = "result_ok (NackCall oob q now i w cause)"
  show "?E j j \<and> ID j = i" if "running_for i w j" for j
    using that by (auto simp: pending_effect_def running_for_def)
  fix job assume job: "running_for i w job"
  then have ID: "ID job = i" by (simp add: running_for_def)
  show "safe ?E ?R (case [job] of [] \<Rightarrow> Rollback
     | job # _ \<Rightarrow> if Attempts job \<ge> MaxAttempts job then
           UpdateJobs (\<lambda>j. ID j = i) (dead_row now (errorString cause)) (\<lambda>jobs.
             if jobs = [] then Rollback else finish_session now i Dead (errorString cause) (Commit jobs))
         else UpdateJobs (\<lambda>j. ID j = i) (retry_row now (backoff oob q (Attempts job)) (errorString cause)) (\<lambda>jobs.
             if jobs = [] then Rollback else finish_session now i Failed (errorString cause) (Commit jobs)))
     [i \<mapsto> (job, job)]"
    unfolding list.case
    by (cases "Attempts job \<ge> MaxAttempts job", simp_all only: if_True if_False, rule_tac [!] safe_second [OF ID])
      (use job in \<open>auto simp: finish_session_def result_ok_def pending_effect_def\<close>)
qed simp

lemma picked_base:
  assumes "legal_hits (expired now) Map.empty hits" "legal_hits (eligible now [] queues) m picks"
    and "m = take_locks (reclaim_row now) hits Map.empty" "j \<in> set picks"
  shows "claimable now [] queues (locked_base m j) \<and> reclaim1 now (locked_base m j) = j"
proof -
  have el: "eligible now [] queues j" and own: "\<And>b j'. m (ID j) = Some (b, j') \<Longrightarrow> j = j'"
    using assms(2,4) by (auto simp: legal_hits_def)
  show ?thesis
  proof (cases "m (ID j)")
    case None
    with el show ?thesis by (simp add: locked_base_def claimable_def eligible_def reclaim1_def expired_def)
  next
    case (Some p)
    obtain b j' where p: "p = (b, j')" by force
    have "distinct (map ID hits)" using assms(1) by (simp add: legal_hits_def)
    moreover have "take_locks (reclaim_row now) hits Map.empty (ID j) = Some (b, j')" using Some p assms(3) by simp
    ultimately obtain x where "x \<in> set hits" "b = x" "j' = reclaim_row now x"
      by (cases rule: take_locks_cases) auto
    moreover from this assms(1) have "expired now x" by (auto simp: legal_hits_def)
    ultimately show ?thesis
      using el own [of b j'] Some p by (auto simp: locked_base_def claimable_def eligible_def reclaim1_def reclaim_row_def)
  qed
qed

lemma safe_Dequeue: "safe (pending_effect (DequeueCall now newids queues limit w lease))
   (result_ok (DequeueCall now newids queues limit w lease))
   (program (DequeueCall now newids queues limit w lease)) Map.empty"
  unfolding program.simps close_expired_session_def safe.simps
proof (intro allI impI conjI ballI)
  let ?call = "DequeueCall now newids queues limit w lease" and ?q = "default_queues queues"
  fix hits assume "legal_hits (expired now) Map.empty hits \<and> hits_own (expired now) Map.empty hits"
  then have hits: "legal_hits (expired now) Map.empty hits" by simp
  show "pending_effect ?call (locked_base Map.empty j) (reclaim_row now j)" if "j \<in> set hits" for j
    using hits that by (simp add: legal_hits_def pending_effect_def)
  let ?m = "take_locks (reclaim_row now) hits Map.empty"
  fix picks assume "legal_hits (eligible now [] ?q) ?m picks \<and> length picks \<le> nat (default_limit limit)"
  then have picks: "legal_hits (eligible now [] ?q) ?m picks" "length picks \<le> nat (default_limit limit)" by simp_all
  note base = picked_base [OF hits picks(1) refl]
  show "pending_effect ?call (locked_base ?m j) (claim_row now w lease j)" if "j \<in> set picks" for j
    using base [OF that] by (simp add: pending_effect_def)
  let ?m' = "take_locks (claim_row now w lease) picks ?m" and ?js = "map (claim_row now w lease) picks"
  have dist: "distinct (map ID picks)" "distinct (map ID hits)" using picks(1) hits by (simp_all add: legal_hits_def)
  note locked = take_locks_hit [OF dist(1), of _ "claim_row now w lease" ?m]
  have claimed: "\<exists>b. ?m' (ID x) = Some (b, x) \<and> claimable now [] ?q b \<and>
      x = claim_row now w lease (reclaim1 now b)" if x: "x \<in> set ?js" for x
  proof -
    obtain j where j: "j \<in> set picks" "x = claim_row now w lease j" using x by auto
    then have "ID x = ID j" by (simp add: claim_row_def)
    with locked [OF j(1)] base [OF j(1)] j(2) show ?thesis by (intro exI [of _ "locked_base ?m j"]) simp
  qed
  have rest: "j' \<in> set ?js \<or> (expired now b \<and> j' = reclaim_row now b)" if "?m' i = Some (b, j')" for i b j'
    using dist(1) that
  proof (cases rule: take_locks_cases)
    case old
    from dist(2) old(2) show ?thesis
      by (cases rule: take_locks_cases) (use hits in \<open>auto simp: legal_hits_def\<close>)
  qed auto
  have "row_effect ?call b j'" if "?m' i = Some (b, j')" for i b j'
    using dist(1) that
  proof (cases rule: take_locks_cases)
    case old
    from dist(2) old(2) show ?thesis
      by (cases rule: take_locks_cases) (use hits in \<open>auto simp: legal_hits_def\<close>)
  next
    case (new j)
    then show ?thesis using base [OF new(1)] by simp
  qed
  with claimed rest picks(2) have "result_ok ?call ?m' ?js" by (simp add: result_ok_def del: set_map)
  then show "safe (pending_effect ?call) (result_ok ?call)
     (if \<exists>j \<in> set ?js. max_int32 < Attempts j then Rollback
      else InsertRuns (new_runs now newids 0 ?js) (Commit ?js)) ?m'" by simp
qed simp

lemma safe_program: "safe (pending_effect call) (result_ok call) (program call) Map.empty"
proof (cases call)
  case (DequeueCall now newids queues limit w lease)
  then show ?thesis using safe_Dequeue by simp
next
  case (NackCall oob q now i w cause)
  then show ?thesis using safe_Nack by simp
next
  case (AckCall now i w)
  show ?thesis unfolding AckCall program.simps
    by (rule safe_single [where i = i]) (auto simp: finish_session_def result_ok_def pending_effect_def running_for_def)
next
  case (ExtendCall now i w lease)
  show ?thesis unfolding ExtendCall program.simps
    by (rule safe_single [where i = i]) (auto simp: result_ok_def pending_effect_def leased_to_def)
next
  case (CancelCall now i)
  show ?thesis unfolding CancelCall program.simps
    by (rule safe_single [where i = i]) (auto simp: result_ok_def pending_effect_def cancellable_def)
next
  case (RequeueCall now i)
  show ?thesis unfolding RequeueCall program.simps
    by (rule safe_single [where i = i]) (auto simp: result_ok_def pending_effect_def requeueable_def)
qed

section \<open>The invariant of the server\<close>

text \<open>
  A locked row is committed as it was when it was locked, the pending version is the effect of
  the method on it, and no two transactions lock the same row.
\<close>

definition tx_ok :: "job list \<Rightarrow> open_tx \<Rightarrow> bool" where
  "tx_ok js x \<longleftrightarrow>
     (\<forall>i b j'. o_jobs x i = Some (b, j') \<longrightarrow> b \<in> set js \<and> ID b = i \<and> pending_effect (o_call x) b j') \<and>
     safe (pending_effect (o_call x)) (result_ok (o_call x)) (o_prog x) (o_jobs x)"

definition server_ok :: "server \<Rightarrow> bool" where
  "server_ok c \<longleftrightarrow> distinct (map ID (c_jobs c)) \<and>
     (\<forall>t x. c_open c t = Some x \<longrightarrow> tx_ok (c_jobs c) x) \<and>
     (\<forall>t t' x x' i. t \<noteq> t' \<longrightarrow> c_open c t = Some x \<longrightarrow> c_open c t' = Some x' \<longrightarrow>
        o_jobs x i \<noteq> None \<longrightarrow> o_jobs x' i = None)"

lemma tx_okD:
  assumes "tx_ok js x" "o_jobs x i = Some (b, j')"
  shows "b \<in> set js" "ID b = i" "pending_effect (o_call x) b j'" "ID j' = i"
proof -
  show b: "b \<in> set js" "ID b = i" "pending_effect (o_call x) b j'" using assms unfolding tx_ok_def by blast+
  show "ID j' = i" using pending_effect_ID [OF b(3)] b(2) by simp
qed

lemma server_okD:
  assumes "server_ok c"
  shows "distinct (map ID (c_jobs c))" "c_open c t = Some x \<Longrightarrow> tx_ok (c_jobs c) x"
    "t \<noteq> t' \<Longrightarrow> c_open c t = Some x \<Longrightarrow> c_open c t' = Some x' \<Longrightarrow> o_jobs x i \<noteq> None \<Longrightarrow> o_jobs x' i = None"
  using assms unfolding server_ok_def by blast+

lemma own_version_ID: "tx_ok js x \<Longrightarrow> ID (own_version x j) = ID j"
  by (auto simp: own_version_def dest: tx_okD(4) split: option.splits)

lemma visible_IDs: "tx_ok (c_jobs c) x \<Longrightarrow> map ID (visible_jobs c x) = map ID (c_jobs c)"
  by (simp add: visible_jobs_def comp_def own_version_ID)

text \<open>One session goes on to \<open>y\<close> and all others stay: what has to be shown.\<close>

lemma server_ok_session:
  assumes "server_ok c" "c_open c t = Some x \<or> c_open c t = None" "tx_ok (c_jobs c) y"
    and "\<And>i. o_jobs y i \<noteq> None \<Longrightarrow> (c_open c t = Some x \<and> o_jobs x i \<noteq> None) \<or> \<not> job_locked c t i"
  shows "server_ok (c\<lparr>c_open := (c_open c)(t \<mapsto> y)\<rparr>)"
proof -
  have apart: "o_jobs x' i = None" if "o_jobs y i \<noteq> None" "t' \<noteq> t" "c_open c t' = Some x'" for t' x' i
  proof (cases "job_locked c t i")
    case True
    with assms(4) [OF that(1)] have "c_open c t = Some x" "o_jobs x i \<noteq> None" by auto
    with server_okD(3) [OF assms(1), of t t' x x' i] that(2,3) show ?thesis by simp
  next
    case False
    with that(2,3) show ?thesis unfolding job_locked_def by blast
  qed
  show ?thesis
    unfolding server_ok_def
  proof (intro conjI allI impI)
    show "distinct (map ID (c_jobs (c\<lparr>c_open := (c_open c)(t \<mapsto> y)\<rparr>)))" using server_okD(1) [OF assms(1)] by simp
    show "tx_ok (c_jobs (c\<lparr>c_open := (c_open c)(t \<mapsto> y)\<rparr>)) z" if "c_open (c\<lparr>c_open := (c_open c)(t \<mapsto> y)\<rparr>) u = Some z" for u z
      using that server_okD(2) [OF assms(1)] assms(3) by (auto split: if_splits)
    fix u u' z z' i
    assume ne: "u \<noteq> u'" and "c_open (c\<lparr>c_open := (c_open c)(t \<mapsto> y)\<rparr>) u = Some z"
      "c_open (c\<lparr>c_open := (c_open c)(t \<mapsto> y)\<rparr>) u' = Some z'" and i: "o_jobs z i \<noteq> None"
    then consider "u = t" "u' \<noteq> t" "z = y" "c_open c u' = Some z'" | "u' = t" "u \<noteq> t" "z' = y" "c_open c u = Some z"
      | "u \<noteq> t" "u' \<noteq> t" "c_open c u = Some z" "c_open c u' = Some z'" by (auto split: if_splits)
    then show "o_jobs z' i = None"
    proof cases
      case 1
      then show ?thesis using apart i by blast
    next
      case 2
      then show ?thesis using apart [of i u z] i by blast
    next
      case 3
      then show ?thesis using server_okD(3) [OF assms(1) ne] i by blast
    qed
  qed
qed

lemma set_filter_keys:
  assumes "distinct (map key rows)" "set ys \<subseteq> set rows"
  shows "set (filter (\<lambda>r. key r \<in> key ` set ys) rows) = set ys"
proof
  show "set (filter (\<lambda>r. key r \<in> key ` set ys) rows) \<subseteq> set ys"
  proof
    fix r assume "r \<in> set (filter (\<lambda>r. key r \<in> key ` set ys) rows)"
    then obtain y where "r \<in> set rows" "y \<in> set ys" "key r = key y" by auto
    with distinct_key_unique [OF assms(1), of r y] assms(2) show "r \<in> set ys" by auto
  qed
qed (use assms(2) in auto)

lemma visible_hits:
  assumes "tx_ok (c_jobs c) x" "set hits \<subseteq> set (visible_jobs c x)" "distinct (map ID hits)" "\<forall>j \<in> set hits. P j"
  shows "legal_hits P (o_jobs x) hits"
    and "j \<in> set hits \<Longrightarrow> locked_base (o_jobs x) j \<in> set (c_jobs c) \<and> ID (locked_base (o_jobs x) j) = ID j"
proof -
  have vis: "\<exists>j0 \<in> set (c_jobs c). j = own_version x j0 \<and> ID j = ID j0" if "j \<in> set hits" for j
    using that assms(2) own_version_ID [OF assms(1)] by (auto simp: visible_jobs_def)
  have own: "j = j'" if "j \<in> set hits" "o_jobs x (ID j) = Some (b, j')" for j b j'
    using vis [OF that(1)] that(2) by (auto simp: own_version_def)
  with assms(3,4) show "legal_hits P (o_jobs x) hits" by (auto simp: legal_hits_def)
  assume j: "j \<in> set hits"
  show "locked_base (o_jobs x) j \<in> set (c_jobs c) \<and> ID (locked_base (o_jobs x) j) = ID j"
  proof (cases "o_jobs x (ID j)")
    case None
    then show ?thesis using vis [OF j] by (auto simp: locked_base_def own_version_def)
  next
    case (Some p)
    then show ?thesis using tx_okD(1,2) [OF assms(1)] by (cases p) (auto simp: locked_base_def)
  qed
qed

lemma server_ok_change:
  assumes "server_ok c" "c_open c t = Some x" "set hits \<subseteq> set (visible_jobs c x)" "distinct (map ID hits)"
    and "\<forall>j \<in> set hits. \<not> job_locked c t (ID j)"
    and "\<forall>j \<in> set hits. pending_effect (o_call x) (locked_base (o_jobs x) j) (f j)"
    and "safe (pending_effect (o_call x)) (result_ok (o_call x)) next (take_locks f hits (o_jobs x))"
  shows "server_ok (c\<lparr>c_open := (c_open c)(t \<mapsto> change_jobs f hits next x)\<rparr>)"
proof (rule server_ok_session [OF assms(1)])
  have ok: "tx_ok (c_jobs c) x" by (rule server_okD(2) [OF assms(1,2)])
  note base = visible_hits(2) [OF ok assms(3,4), of "\<lambda>_. True"]
  show "c_open c t = Some x \<or> c_open c t = None" using assms(2) by simp
  have "b \<in> set (c_jobs c) \<and> ID b = i \<and> pending_effect (o_call x) b j'" if "take_locks f hits (o_jobs x) i = Some (b, j')" for i b j'
    using assms(4) that
  proof (cases rule: take_locks_cases)
    case old
    then show ?thesis using tx_okD(1-3) [OF ok] by blast
  next
    case (new j)
    then show ?thesis using base [of j] assms(6) by simp
  qed
  with assms(7) show "tx_ok (c_jobs c) (change_jobs f hits next x)" by (simp add: tx_ok_def change_jobs_def)
  fix i assume "o_jobs (change_jobs f hits next x) i \<noteq> None"
  then have "o_jobs x i \<noteq> None \<or> i \<in> ID ` set hits"
    using take_locks_miss [of i hits f "o_jobs x"] by (fastforce simp: change_jobs_def)
  with assms(2,5) show "(c_open c t = Some x \<and> o_jobs x i \<noteq> None) \<or> \<not> job_locked c t i" by auto
qed

lemma server_ok_same_rows:
  assumes "server_ok c" "c_open c t = Some x" "o_call y = o_call x" "o_jobs y = o_jobs x"
    and "safe (pending_effect (o_call x)) (result_ok (o_call x)) (o_prog y) (o_jobs x)"
  shows "server_ok (c\<lparr>c_open := (c_open c)(t \<mapsto> y)\<rparr>)"
proof (rule server_ok_session [OF assms(1)])
  show "c_open c t = Some x \<or> c_open c t = None" using assms(2) by simp
  show "tx_ok (c_jobs c) y" using server_okD(2) [OF assms(1,2)] assms(3-5) by (simp add: tx_ok_def)
  show "(c_open c t = Some x \<and> o_jobs x i \<noteq> None) \<or> \<not> job_locked c t i" if "o_jobs y i \<noteq> None" for i
    using that assms(2,4) by simp
qed

lemma server_ok_close:
  assumes "server_ok c" "distinct (map ID js)"
    and "\<And>u z i b j'. u \<noteq> t \<Longrightarrow> c_open c u = Some z \<Longrightarrow> o_jobs z i = Some (b, j') \<Longrightarrow> b \<in> set js"
  shows "server_ok (c\<lparr>c_jobs := js, c_runs := rs, c_open := (c_open c)(t := None)\<rparr>)"
proof -
  have "tx_ok js z" if "u \<noteq> t" "c_open c u = Some z" for u z
    using server_okD(2) [OF assms(1) that(2)] assms(3) [OF that] unfolding tx_ok_def by blast
  moreover have "o_jobs z' i = None" if "u \<noteq> u'" "c_open c u = Some z" "c_open c u' = Some z'" "o_jobs z i \<noteq> None" for u u' z z' i
    using server_okD(3) [OF assms(1) that] .
  ultimately show ?thesis using assms(2) unfolding server_ok_def by (auto split: if_splits)
qed

lemma server_ok_commit:
  assumes "server_ok c" "c_open c t = Some x"
  shows "server_ok (commit_tx t x c)"
  unfolding commit_tx_def
proof (rule server_ok_close [OF assms(1)])
  have ok: "tx_ok (c_jobs c) x" by (rule server_okD(2) [OF assms])
  show "distinct (map ID (visible_jobs c x))" using server_okD(1) [OF assms(1)] by (simp add: visible_IDs [OF ok])
  fix u z i b j' assume u: "u \<noteq> t" "c_open c u = Some z" "o_jobs z i = Some (b, j')"
  note b = tx_okD(1,2) [OF server_okD(2) [OF assms(1) u(2)] u(3)]
  have "o_jobs x i = None" using server_okD(3) [OF assms(1) u(1,2) assms(2)] u(3) by simp
  then have "own_version x b = b" using b(2) by (simp add: own_version_def)
  then show "b \<in> set (visible_jobs c x)" using b(1) unfolding visible_jobs_def by (metis image_eqI set_map)
qed

lemma hit_jobs_visible:
  assumes "server_ok c" "c_open c t = Some x"
  shows "set (hit_jobs c x visited P) \<subseteq> set (visible_jobs c x)" "distinct (map ID (hit_jobs c x visited P))"
    "\<forall>j \<in> set (hit_jobs c x visited P). P j"
proof -
  have "distinct (map ID (visible_jobs c x))"
    using server_okD(1) [OF assms(1)] visible_IDs [OF server_okD(2) [OF assms]] by simp
  then show "distinct (map ID (hit_jobs c x visited P))" unfolding hit_jobs_def by (rule distinct_map_filter)
qed (auto simp: hit_jobs_def)

lemma hit_jobs_own:
  assumes "server_ok c" "c_open c t = Some x"
  shows "hits_own P (o_jobs x) (hit_jobs c x visited P)"
  unfolding hits_own_def
proof (intro allI impI)
  fix i b j' assume locked: "o_jobs x i = Some (b, j')" "P j'"
  note b = tx_okD [OF server_okD(2) [OF assms] locked(1)]
  have "own_version x b = j'" using locked(1) b(2) by (simp add: own_version_def)
  then have "j' \<in> set (visible_jobs c x)" using b(1) by (auto simp: visible_jobs_def)
  then show "j' \<in> set (hit_jobs c x visited P)" using locked b(4) by (simp add: hit_jobs_def)
qed

lemma server_ok_picks:
  assumes "server_ok c" "c_open c t = Some x" "o_prog x = PickJobs P n f k"
    and best: "best = sql_limit n (sql_order_by pick_order (filter (\<lambda>j. \<not> job_locked c t (ID j)) (hit_jobs c x visited P)))"
    and hits: "hits = filter (\<lambda>j. ID j \<in> ID ` set best) (visible_jobs c x)"
  shows "server_ok (c\<lparr>c_open := (c_open c)(t \<mapsto> change_jobs f hits (k (map f hits)) x)\<rparr>)"
proof -
  let ?free = "filter (\<lambda>j. \<not> job_locked c t (ID j)) (hit_jobs c x visited P)"
  note h0 = hit_jobs_visible [OF assms(1,2), of visited P]
  have ok: "tx_ok (c_jobs c) x" by (rule server_okD(2) [OF assms(1,2)])
  have vis: "distinct (map ID (visible_jobs c x))" using server_okD(1) [OF assms(1)] visible_IDs [OF ok] by simp
  have sub: "set best \<subseteq> set ?free" using set_sql_limit [of n "sql_order_by pick_order ?free"] by (simp add: best)
  then have same: "set hits = set best"
    unfolding hits using h0(1) by (intro set_filter_keys [OF vis]) auto
  have "distinct (map ID best)"
    unfolding best by (intro distinct_map_order_limit distinct_map_filter h0(2))
  moreover have dist: "distinct (map ID hits)" unfolding hits by (rule distinct_map_filter [OF vis])
  ultimately have "length hits = length best"
    using same by (metis distinct_card length_map list.set_map)
  then have len: "length hits \<le> nat n" by (simp add: best length_sql_limit)
  have h: "set hits \<subseteq> set (visible_jobs c x)" "\<forall>j \<in> set hits. P j" "\<forall>j \<in> set hits. \<not> job_locked c t (ID j)"
    using sub h0(1,3) same by auto
  from ok visible_hits(1) [OF ok h(1) dist h(2)] len assms(3) show ?thesis
    by (intro server_ok_change [OF assms(1,2) h(1) dist h(3)]) (auto simp: tx_ok_def)
qed

lemma cstep_ok:
  assumes "server_ok c" "cstep vis c c'"
  shows "server_ok c'"
  using assms(2)
proof (cases rule: cstep.cases)
  case (begins t call)
  have "server_ok (c\<lparr>c_open := (c_open c)(t \<mapsto> started_tx call)\<rparr>)"
    by (rule server_ok_session [OF assms(1), where x = "started_tx call"])
      (use begins(2) safe_program in \<open>auto simp: started_tx_def tx_ok_def\<close>)
  with begins(1) show ?thesis by simp
next
  case (updates t x P f k visited hits)
  note h = hit_jobs_visible [OF assms(1) updates(2), of visited P, folded updates(5)]
  have ok: "tx_ok (c_jobs c) x" by (rule server_okD(2) [OF assms(1) updates(2)])
  have "safe (pending_effect (o_call x)) (result_ok (o_call x)) (UpdateJobs P f k) (o_jobs x)"
    using ok updates(3) by (simp add: tx_ok_def)
  moreover have "legal_hits P (o_jobs x) hits" by (rule visible_hits(1) [OF ok h])
  moreover have "hits_own P (o_jobs x) hits" unfolding updates(5) by (rule hit_jobs_own [OF assms(1) updates(2)])
  ultimately show ?thesis
    unfolding updates(1) by (intro server_ok_change [OF assms(1) updates(2) h(1,2) updates(6)]) simp_all
next
  case (picks t x P n f k visited best hits)
  then show ?thesis using server_ok_picks [OF assms(1)] by simp
next
  case (runs t x P f "next" visited hits)
  then show ?thesis using server_okD(2) [OF assms(1) runs(2)]
    by (auto simp: change_runs_def tx_ok_def intro!: server_ok_same_rows [OF assms(1) runs(2)])
next
  case (inserts t x rs "next")
  then show ?thesis using server_okD(2) [OF assms(1) inserts(2)]
    by (auto simp: tx_ok_def intro!: server_ok_same_rows [OF assms(1) inserts(2)])
next
  case (commits t x js)
  then show ?thesis using server_ok_commit [OF assms(1)] by simp
next
  case (aborts t x)
  then show ?thesis
    using server_ok_close [OF assms(1) server_okD(1) [OF assms(1)], of t "c_runs c"] tx_okD(1) [OF server_okD(2) [OF assms(1)]]
    by simp
next
  case (enqueues j)
  then show ?thesis using assms(1) unfolding server_ok_def tx_ok_def by auto
qed

interpretation server: invariant_system "cstep vis" server_ok for vis
  by unfold_locales (rule cstep_ok)

lemma server_ok_idle: "distinct (map ID js) \<Longrightarrow> server_ok (idle_server js rs)"
  by (simp add: server_ok_def idle_server_def)

section \<open>Commits are serial\<close>

lemma returns_ok_job:
  assumes "returns_ok call m js" "call_job call = Some i"
  obtains b j' where "m = [i \<mapsto> (b, j')]" "js = (case call of ExtendCall now k w lease \<Rightarrow> [] | _ \<Rightarrow> [j'])"
  using assms that by (cases call) auto

lemma result_locked:
  assumes "result_ok call m js" "j' \<in> set js" "\<And>i b j'. m i = Some (b, j') \<Longrightarrow> ID j' = i"
  shows "\<exists>b. m (ID j') = Some (b, j')"
proof (cases "call_job call")
  case None
  then show ?thesis using assms(1,2) by (cases call) (auto simp: result_ok_def)
next
  case (Some i)
  with assms(1) obtain b k where k: "m = [i \<mapsto> (b, k)]" "js = (case call of ExtendCall now k w lease \<Rightarrow> [] | _ \<Rightarrow> [k])"
    unfolding result_ok_def by (blast elim: returns_ok_job)
  then have "j' = k" using assms(2) by (simp split: queue_call.splits)
  with k(1) assms(3) [of i b k] show ?thesis by simp
qed

lemma commit_result:
  assumes "server_ok c" "c_open c t = Some x" "o_prog x = Commit js"
  shows "result_ok (o_call x) (o_jobs x) js"
  using server_okD(2) [OF assms(1,2)] assms(3) by (simp add: tx_ok_def)

lemma returned_locked:
  assumes "server_ok c" "c_open c t = Some x" "o_prog x = Commit js" "j' \<in> set js"
  shows "\<exists>b. o_jobs x (ID j') = Some (b, j')"
  by (rule result_locked [OF commit_result [OF assms(1-3)] assms(4)])
    (rule tx_okD(4) [OF server_okD(2) [OF assms(1,2)]])

text \<open>The committed row under a lock is the row that was locked.\<close>

lemma locked_row:
  assumes "server_ok c" "c_open c t = Some x" "o_jobs x (ID j) = Some (b, j')" "j \<in> set (c_jobs c)"
  shows "b = j" "own_version x j = j'"
proof -
  note b = tx_okD [OF server_okD(2) [OF assms(1,2)] assms(3)]
  show "b = j" using distinct_key_unique [OF server_okD(1) [OF assms(1)] b(1) assms(4)] b(2) by simp
  show "own_version x j = j'" using assms(3) by (simp add: own_version_def)
qed

lemma commit_returned:
  assumes "server_ok c" "c_open c t = Some x" "o_prog x = Commit js" "j' \<in> set js"
  shows "j' \<in> set (c_jobs (commit_tx t x c))"
proof -
  obtain b where b: "o_jobs x (ID j') = Some (b, j')" using returned_locked [OF assms] by blast
  then have "own_version x b = j'" "b \<in> set (c_jobs c)"
    using tx_okD(1,2) [OF server_okD(2) [OF assms(1,2)] b] by (simp_all add: own_version_def)
  then show ?thesis unfolding commit_tx_def visible_jobs_def by auto
qed

lemma commit_row:
  assumes "server_ok c" "c_open c t = Some x" "o_prog x = Commit js" "j \<in> set (c_jobs c)"
  shows "own_version x j \<in> set (c_jobs (commit_tx t x c)) \<and> job_evolves j (own_version x j) \<and>
    (if o_jobs x (ID j) = None then own_version x j = j else row_effect (o_call x) j (own_version x j))"
proof -
  have "own_version x j \<in> set (c_jobs (commit_tx t x c))" using assms(4) by (simp add: commit_tx_def visible_jobs_def)
  moreover have "own_version x j = j" if "o_jobs x (ID j) = None" using that by (simp add: own_version_def)
  moreover have "row_effect (o_call x) j (own_version x j)" if locked: "o_jobs x (ID j) = Some (b, j')" for b j'
    using commit_result [OF assms(1-3)] locked locked_row [OF assms(1,2) locked assms(4)] by (auto simp: result_ok_def)
  ultimately show ?thesis using row_effect_evolves by (cases "o_jobs x (ID j)") auto
qed

text \<open>A method on one job: the rows are those of before but for the row of the job.\<close>

lemma commit_job:
  assumes "server_ok c" "c_open c t = Some x" "o_prog x = Commit js" "call_job (o_call x) = Some i"
  shows "\<exists>j \<in> set (c_jobs c). ID j = i \<and> row_effect (o_call x) j (own_version x j) \<and>
    js = (case o_call x of ExtendCall now k w lease \<Rightarrow> [] | _ \<Rightarrow> [own_version x j]) \<and>
    c_jobs (commit_tx t x c) = map (\<lambda>k. if ID k = i then own_version x j else k) (c_jobs c)"
proof -
  note res = commit_result [OF assms(1-3)]
  obtain b j' where m: "o_jobs x = [i \<mapsto> (b, j')]" and js: "js = (case o_call x of ExtendCall now k w lease \<Rightarrow> [] | _ \<Rightarrow> [j'])"
    using res assms(4) unfolding result_ok_def by (blast elim: returns_ok_job)
  have b: "b \<in> set (c_jobs c)" "ID b = i" using tx_okD(1,2) [OF server_okD(2) [OF assms(1,2)], of i b j'] m by auto
  then have own: "own_version x b = j'" by (simp add: own_version_def m)
  have "own_version x k = (if ID k = i then j' else k)" for k by (simp add: own_version_def m)
  then have "c_jobs (commit_tx t x c) = map (\<lambda>k. if ID k = i then j' else k) (c_jobs c)"
    by (simp add: commit_tx_def visible_jobs_def)
  moreover have "row_effect (o_call x) b j'" using res m by (simp add: result_ok_def)
  ultimately show ?thesis using b own js by auto
qed

lemma results_apart:
  assumes "server_ok c" "u \<noteq> t" "c_open c t = Some x" "o_prog x = Commit js" "c_open c u = Some y" "o_prog y = Commit ks"
  shows "ID ` set js \<inter> ID ` set ks = {}"
proof -
  have "False" if "a \<in> set js" "b \<in> set ks" "ID a = ID b" for a b
    using returned_locked [OF assms(1,3,4) that(1)] returned_locked [OF assms(1,5,6) that(2)]
      server_okD(3) [OF assms(1,2,5,3), of "ID b"] that(3) by auto
  then show ?thesis by blast
qed

end
