(* ===== verification/Interleaving_Props.thy ===== *)
theory Interleaving_Props
  imports Interleaving Samples
begin

text \<open>
  What the interleaving of statements means for the methods: run alone, a session does what the
  method does as a whole; run with others, its commit is serial on the jobs; what is not serial is
  shown by concrete schedules of two sessions.
\<close>

section \<open>A session on its own\<close>

primrec alone :: "session \<Rightarrow> job list \<Rightarrow> job_run list \<Rightarrow> (job list \<times> job_run list \<times> job list) option" where
  "alone (UpdateJobs P f k) = (\<lambda>js rs. alone (k (map f (filter P js))) (sql_update P f js) rs)"
| "alone (PickJobs P n f k) = (\<lambda>js rs.
     let ids = ID ` set (sql_limit n (sql_order_by pick_order (filter P js))) in
     alone (k (map f (filter (\<lambda>j. ID j \<in> ids) js))) (sql_update (\<lambda>j. ID j \<in> ids) f js) rs)"
| "alone (UpdateRuns P f next) = (\<lambda>js rs. alone next js (sql_update (P js rs) f rs))"
| "alone (InsertRuns new next) = (\<lambda>js rs. if distinct (map r_id (rs @ new)) then alone next js (rs @ new) else None)"
| "alone (Commit res) = (\<lambda>js rs. Some (js, rs, res))"
| "alone Rollback = (\<lambda>js rs. None)"

text \<open>The method as a whole, with the jobs that it returns.\<close>

fun whole :: "queue_call \<Rightarrow> job list txn" where
  "whole (DequeueCall now newids queues limit w lease) = dequeue_txn now newids [] queues limit w lease"
| "whole (AckCall now i w) = thenE (ack_txn now i w) (\<lambda>j. okE [j])"
| "whole (NackCall oob q now i w cause) = thenE (nack_txn oob q now i w cause) (\<lambda>p. okE [fst p])"
| "whole (ExtendCall now i w lease) = thenE (extend_txn now i w lease) (\<lambda>_. okE [])"
| "whole (CancelCall now i) = thenE (cancel_txn now i) (\<lambda>j. okE [j])"
| "whole (RequeueCall now i) = thenE (requeue_txn now i) (\<lambda>j. okE [j])"

definition published :: "error + (job list \<times> db) \<Rightarrow> (job list \<times> job_run list \<times> job list) option" where
  "published r = (case r of Inl _ \<Rightarrow> None | Inr (res, d) \<Rightarrow> Some (jobs d, job_runs d, res))"

lemma published_simps [simp]: "published (Inl e) = None" "published (Inr (res, d)) = Some (jobs d, job_runs d, res)"
  by (simp_all add: published_def)

lemma newest_open_fun: "newest_open i rs =
   (case sql_limit 1 (sql_order_by (\<lambda>r. - r_started_at r) (filter (\<lambda>r. r_job_id r = i \<and> r_status r = Running) rs)) of
      [] \<Rightarrow> (\<lambda>r. False)
    | x # _ \<Rightarrow> (\<lambda>r. r_id r = r_id x))"
  by (auto simp: newest_open_def fun_eq_iff split: list.split)

lemma finish_alone: "published (thenE (finishRunSQL now i st err) (\<lambda>_. okE res) d) =
   alone (finish_session now i st err (Commit res)) (jobs d) (job_runs d)"
  by (simp add: finishRunSQL_def finish_session_def newest_open_fun thenE_def okE_def open_runs_def runs_of_def
      sql_update_none split: list.split)

lemma one_hit:
  assumes "db_ok d" "filter p (jobs d) = j # rest" "\<And>x. p x \<Longrightarrow> ID x = i"
  shows "rest = []" "p j" "j \<in> set (jobs d)" "ID j = i"
proof -
  have "j \<in> set (filter p (jobs d))" using assms(2) by simp
  then show j: "p j" "j \<in> set (jobs d)" "ID j = i" using assms(3) by auto
  with filter_by_ID [of d j p, OF db_okD(1) [OF assms(1)]] assms(2,3) show "rest = []" by simp
qed

text \<open>One update by its key, and what the method does with the row that it returns.\<close>

lemma update_alone:
  assumes "db_ok d" "\<And>x. p x \<Longrightarrow> ID x = i"
    and "\<And>j. j \<in> set (jobs d) \<Longrightarrow> p j \<Longrightarrow> published (next (f j) (d\<lparr>jobs := sql_update p f (jobs d)\<rparr>)) =
      alone (k [f j]) (sql_update p f (jobs d)) (job_runs d)"
  shows "published (thenE (norowsE e (update_job_returning p f)) next d) =
    alone (UpdateJobs p f (\<lambda>jobs. if jobs = [] then Rollback else k jobs)) (jobs d) (job_runs d)"
proof (cases "filter p (jobs d)")
  case Nil
  then show ?thesis by (simp add: thenE_def norowsE_def update_job_returning_def)
next
  case (Cons j rest)
  note hit = one_hit [OF assms(1) Cons assms(2)]
  from Cons hit(1) assms(3) [OF hit(3,2)] show ?thesis
    by (simp add: thenE_def norowsE_def update_job_returning_def)
qed

lemma thenE_assoc: "thenE (thenE f g) h = thenE f (\<lambda>a. thenE (g a) h)"
  by (simp add: thenE_def fun_eq_iff split: sum.split)

lemma thenE_okE: "thenE (okE a) g = g a"
  by (simp add: thenE_def okE_def fun_eq_iff)

lemmas thenE_laws = thenE_assoc thenE_okE

lemma extend_alone:
  "published (whole (ExtendCall now i w lease) d) = alone (program (ExtendCall now i w lease)) (jobs d) (job_runs d)"
  by (simp add: thenE_def extend_txn_def extend_update_def okE_def failE_def)

lemma nack_alone:
  assumes "db_ok d"
  shows "published (whole (NackCall oob q now i w cause) d) = alone (program (NackCall oob q now i w cause)) (jobs d) (job_runs d)"
proof (cases "filter (running_for i w) (jobs d)")
  case Nil
  then show ?thesis by (simp add: nack_txn_def thenE_def norowsE_def select_running_def)
next
  case (Cons j rest)
  note hit = one_hit [OF assms Cons running_for_ID]
  have same: "sql_update (running_for i w) (\<lambda>x. x) (jobs d) = jobs d" by (simp add: sql_update_def)
  have job: "filter (\<lambda>x. ID x = i) (jobs d) = [j]"
    using filter_by_ID [of d j "\<lambda>x. ID x = i", OF db_okD(1) [OF assms]] hit(3,4) by simp
  have upd: "update_job_returning (\<lambda>x. ID x = i) f d = Inr (f j, d\<lparr>jobs := sql_update (\<lambda>x. ID x = i) f (jobs d)\<rparr>)" for f
    by (simp add: update_job_returning_def job)
  have sel: "norowsE ErrInvalidTransition (select_running i w) d = Inr (j, d)"
    using Cons by (simp add: select_running_def norowsE_def)
  show ?thesis
  proof (cases "MaxAttempts j \<le> Attempts j")
    case True
    let ?f = "dead_row now (errorString cause)"
    have "\<exists>l. upsert_dead_letter now i (errorString cause) (d\<lparr>jobs := sql_update (\<lambda>x. ID x = i) ?f (jobs d)\<rparr>) =
        Inr ((), d\<lparr>jobs := sql_update (\<lambda>x. ID x = i) ?f (jobs d), dead_letters := l\<rparr>)"
      using hit(3,4) by (force simp: upsert_dead_letter_def image_ID_update)
    then obtain l where l: "upsert_dead_letter now i (errorString cause) (d\<lparr>jobs := sql_update (\<lambda>x. ID x = i) ?f (jobs d)\<rparr>) =
        Inr ((), d\<lparr>jobs := sql_update (\<lambda>x. ID x = i) ?f (jobs d), dead_letters := l\<rparr>)" by blast
    have "whole (NackCall oob q now i w cause) d =
        thenE (finishRunSQL now i Dead (errorString cause)) (\<lambda>_. okE [?f j]) (d\<lparr>jobs := sql_update (\<lambda>x. ID x = i) ?f (jobs d), dead_letters := l\<rparr>)"
      using True by (simp add: nack_txn_def thenE_def sel upd l okE_def split: sum.split)
    then show ?thesis using Cons hit(1) True by (simp add: finish_alone same job)
  next
    case False
    let ?f = "retry_row now (backoff oob q (Attempts j)) (errorString cause)"
    have "whole (NackCall oob q now i w cause) d =
        thenE (finishRunSQL now i Failed (errorString cause)) (\<lambda>_. okE [?f j]) (d\<lparr>jobs := sql_update (\<lambda>x. ID x = i) ?f (jobs d)\<rparr>)"
      using False by (simp add: nack_txn_def thenE_def sel upd okE_def split: sum.split)
    then show ?thesis using Cons hit(1) False by (simp add: finish_alone same job)
  qed
qed

lemma insert_runs_alone:
  assumes "distinct (map r_id (job_runs d))" "ID ` set js \<subseteq> ID ` set (jobs d)"
  shows "published (thenE (insert_runs_txn now newids i js) (\<lambda>_. okE res) d) =
    alone (InsertRuns (new_runs now newids i js) (Commit res)) (jobs d) (job_runs d)"
  using assms
proof (induction js arbitrary: i d)
  case (Cons j js)
  let ?d1 = "d\<lparr>job_runs := job_runs d @ [run_row now (newids i) j]\<rparr>"
  have "insert_job_run now (newids i) j d = (if newids i \<in> r_id ` set (job_runs d) then Inl (ErrConstraint ''job_runs_pkey'') else Inr ((), ?d1))"
    using Cons.prems(2) by (auto simp: insert_job_run_def run_row_def)
  moreover have "distinct (map r_id (job_runs ?d1))" if "newids i \<notin> r_id ` set (job_runs d)"
    using Cons.prems(1) that by (simp add: run_row_def)
  ultimately show ?case
    using Cons.IH [of ?d1 "Suc i"] Cons.prems
    by (auto simp: thenE_def run_row_def)
qed (simp add: thenE_def okE_def)

lemma dequeue_alone:
  assumes "db_ok d"
  shows "published (whole (DequeueCall now newids queues limit w lease) d) =
    alone (program (DequeueCall now newids queues limit w lease)) (jobs d) (job_runs d)"
proof -
  let ?q = "default_queues queues" and ?n = "default_limit limit" and ?f = "claim_row now w lease"
  let ?d1 = "reclaimed now d"
  have close: "close_expired_runs now d = Inr ((), d\<lparr>job_runs := job_runs ?d1\<rparr>)"
    by (simp add: close_expired_runs_def reclaimed_def close_runs_def)
  have reclaim: "reclaim_expired now (d\<lparr>job_runs := job_runs ?d1\<rparr>) = Inr ((), ?d1)"
    by (simp add: reclaim_expired_def reclaimed_def)
  let ?P = "picked now [] ?q ?n ?d1"
  let ?hits = "filter (\<lambda>j. ID j \<in> ID ` set ?P) (jobs ?d1)" and ?js = "sql_update (\<lambda>j. ID j \<in> ID ` set ?P) ?f (jobs ?d1)"
  have rows: "job_runs ?d1 = sql_update (\<lambda>r. r_status r = Running \<and> r_job_id r \<in> ID ` set (filter (expired now) (jobs d)))
       (\<lambda>r. r\<lparr>r_finished_at := Some now, r_status := Failed, r_error := Some lease_expired_msg\<rparr>) (job_runs d)"
    "jobs ?d1 = sql_update (expired now) (reclaim_row now) (jobs d)"
    by (simp_all add: reclaimed_def close_runs_def)
  have "set ?hits = set ?P"
    using db_okD(1) [OF reclaimed_preserves [OF assms, of now]]
    by (rule set_filter_keys) (auto simp: picked_def dest!: subsetD [OF set_sql_limit])
  then have over: "(\<exists>j \<in> set (map ?f ?hits). max_int32 < Attempts j) \<longleftrightarrow> (\<exists>j \<in> set ?P. max_int32 \<le> Attempts j)"
    by (auto simp: claim_row_def zle_add1_eq_le)
  have "ID ` set (map ?f ?hits) = ID ` set ?hits"
    unfolding set_map image_image by (rule image_cong) (simp_all add: claim_row_def)
  also have "\<dots> \<subseteq> ID ` set ?js" unfolding image_ID_update [OF keeps_key_rows(8)] by (intro image_mono filter_is_subset)
  finally have "ID ` set (map ?f ?hits) \<subseteq> ID ` set ?js" .
  note ins = insert_runs_alone [of "?d1\<lparr>jobs := ?js\<rparr>" "map ?f ?hits" now newids 0 "map ?f ?hits", simplified, OF _ this [simplified]]
  have "alone (program (DequeueCall now newids queues limit w lease)) (jobs d) (job_runs d) =
      (if \<exists>j \<in> set ?P. max_int32 \<le> Attempts j then None
       else alone (InsertRuns (new_runs now newids 0 (map ?f ?hits)) (Commit (map ?f ?hits))) ?js (job_runs ?d1))"
    unfolding program.simps close_expired_session_def alone.simps Let_def rows(1) [symmetric] rows(2) [symmetric]
      picked_def [symmetric] over if_distrib [of alone] if_distribR by simp
  also have "\<dots> = published (whole (DequeueCall now newids queues limit w lease) d)"
    using ins db_okD(2) [OF reclaimed_preserves [OF assms, of now]]
    by (simp add: dequeue_txn_def Let_def thenE_def [where f = "close_expired_runs _"] thenE_def [where f = "reclaim_expired _"]
        thenE_def [where f = "claim_ready _ _ _ _ _ _"] close reclaim claim_ready_def)
  finally show ?thesis by simp
qed

lemma program_alone:
  assumes "db_ok d"
  shows "alone (program call) (jobs d) (job_runs d) = published (whole call d)"
proof (cases call)
  case (AckCall now i w)
  show ?thesis unfolding AckCall program.simps whole.simps ack_txn_def thenE_laws
    by (rule update_alone [OF assms running_for_ID, symmetric]) (simp_all add: finish_alone)
next
  case (CancelCall now i)
  show ?thesis unfolding CancelCall program.simps whole.simps cancel_txn_def
    by (rule update_alone [OF assms cancellable_ID, symmetric]) (simp_all add: okE_def)
next
  case (RequeueCall now i)
  show ?thesis unfolding RequeueCall program.simps whole.simps requeue_txn_def thenE_laws
    by (rule update_alone [OF assms requeueable_ID, symmetric]) (simp_all add: thenE_def delete_dead_letter_def okE_def)
qed (simp_all only: extend_alone nack_alone [OF assms] dequeue_alone [OF assms])

section \<open>A session on its own as steps of the server\<close>

definition only :: "server \<Rightarrow> nat \<Rightarrow> open_tx \<Rightarrow> server" where
  "only c t x = c\<lparr>c_open := [t \<mapsto> x]\<rparr>"

definition runs_wf :: "server \<Rightarrow> open_tx \<Rightarrow> bool" where
  "runs_wf c x \<longleftrightarrow> distinct (map r_id (c_runs c @ o_new x)) \<and> dom (o_runs x) \<subseteq> r_id ` set (c_runs c @ o_new x) \<and>
     (\<forall>i r. o_runs x i = Some r \<longrightarrow> r_id r = i)"

lemma only_simps [simp]:
  "c_jobs (only c t x) = c_jobs c" "c_runs (only c t x) = c_runs c" "c_open (only c t x) = [t \<mapsto> x]"
  "visible_jobs (only c t x) y = visible_jobs c y" "visible_runs (only c t x) y = visible_runs c y"
  "(only c t x)\<lparr>c_open := [t \<mapsto> y]\<rparr> = only c t y" "\<not> job_locked (only c t x) t i" "\<not> run_locked (only c t x) t i"
  by (auto simp: only_def visible_jobs_def visible_runs_def job_locked_def run_locked_def split: if_splits)

lemma visible_run_IDs:
  assumes "runs_wf c x"
  shows "map r_id (visible_runs c x) = map r_id (c_runs c @ o_new x)"
  using assms by (auto simp: visible_runs_def runs_wf_def split: option.splits)

lemma find_key:
  assumes "distinct (map key rows)" "r \<in> set rows"
  shows "find (\<lambda>x. key x = key r) (filter Q rows) = (if Q r then Some r else None)"
proof (cases "find (\<lambda>x. key x = key r) (filter Q rows)")
  case None
  then show ?thesis using assms(2) by (auto simp: find_None_iff)
next
  case (Some y)
  then have "y \<in> set rows" "Q y" "key y = key r" by (auto simp: find_Some_iff dest: nth_mem)
  with Some distinct_key_unique [OF assms(1) _ assms(2)] show ?thesis by auto
qed

lemma visible_change_jobs:
  assumes "tx_ok (c_jobs c) x" "distinct (map ID (c_jobs c))"
  shows "visible_jobs c (change_jobs f (filter Q (visible_jobs c x)) next x) = sql_update Q f (visible_jobs c x)"
proof -
  have dist: "distinct (map ID (visible_jobs c x))" using assms by (simp add: visible_IDs)
  have "own_version (change_jobs f (filter Q (visible_jobs c x)) next x) j =
      (if Q (own_version x j) then f (own_version x j) else own_version x j)" if "j \<in> set (c_jobs c)" for j
  proof -
    have "own_version x j \<in> set (visible_jobs c x)" using that by (simp add: visible_jobs_def)
    from find_key [OF dist this, of Q] show ?thesis
      by (simp add: own_version_def [of "change_jobs _ _ _ _"] change_jobs_def take_locks_def own_version_ID [OF assms(1)])
        (auto simp: own_version_def take_locks_def split: option.split)
  qed
  then show ?thesis by (simp add: visible_jobs_def sql_update_def)
qed

lemma visible_change_runs:
  assumes "runs_wf c x" "\<And>r. r_id (f r) = r_id r" and y_def: "y = change_runs f (filter Q (visible_runs c x)) next x"
  shows "visible_runs c y = sql_update Q f (visible_runs c x)" "runs_wf c y"
proof -
  let ?own = "\<lambda>r. case o_runs x (r_id r) of None \<Rightarrow> r | Some r' \<Rightarrow> r'"
  have dist: "distinct (map r_id (visible_runs c x))" using assms(1) visible_run_IDs by (simp add: runs_wf_def)
  have own: "r_id (?own r) = r_id r" for r using assms(1) by (auto simp: runs_wf_def split: option.split)
  have "(case o_runs y (r_id r) of None \<Rightarrow> r | Some r' \<Rightarrow> r') = (if Q (?own r) then f (?own r) else ?own r)"
    if "r \<in> set (c_runs c @ o_new x)" for r
  proof -
    have "?own r \<in> set (visible_runs c x)" unfolding visible_runs_def set_map by (rule imageI [OF that])
    from find_key [OF dist this, of Q] show ?thesis
      unfolding own by (simp add: y_def change_runs_def split: option.split)
  qed
  moreover have "o_new y = o_new x" by (simp add: y_def change_runs_def)
  ultimately show "visible_runs c y = sql_update Q f (visible_runs c x)" by (simp add: visible_runs_def sql_update_def)
  have hit: "r_id r \<in> r_id ` set (c_runs c @ o_new x)" if "r \<in> set (visible_runs c x)" for r
    using that arg_cong [OF visible_run_IDs [OF assms(1)], of set] unfolding set_map by blast
  have "r_id r = i \<and> i \<in> r_id ` set (c_runs c @ o_new x)" if "o_runs y i = Some r" for i r
  proof (cases "find (\<lambda>r. r_id r = i) (filter Q (visible_runs c x))")
    case None
    then show ?thesis using that assms(1) by (auto simp: y_def change_runs_def runs_wf_def dom_def)
  next
    case (Some h)
    then have "h \<in> set (visible_runs c x)" "r_id h = i" by (auto simp: find_Some_iff dest: nth_mem)
    then show ?thesis using that Some assms(2) [of h] hit [of h] by (auto simp: y_def change_runs_def)
  qed
  with assms(1) \<open>o_new y = o_new x\<close> show "runs_wf c y" unfolding runs_wf_def dom_def by auto
qed

lemma visible_insert:
  assumes "runs_wf c x" "distinct (map r_id (visible_runs c x @ rs))"
  shows "visible_runs c (x\<lparr>o_new := o_new x @ rs, o_prog := next\<rparr>) = visible_runs c x @ rs"
    "runs_wf c (x\<lparr>o_new := o_new x @ rs, o_prog := next\<rparr>)"
proof -
  have ids: "map r_id (visible_runs c x) = map r_id (c_runs c @ o_new x)" by (rule visible_run_IDs [OF assms(1)])
  then have dist: "distinct (map r_id (c_runs c @ o_new x) @ map r_id rs)" using assms(2) by simp
  have "o_runs x (r_id r) = None" if "r \<in> set rs" for r
  proof -
    have "r_id r \<notin> r_id ` set (c_runs c @ o_new x)" using dist that by auto
    then show ?thesis using assms(1) unfolding runs_wf_def by blast
  qed
  then show "visible_runs c (x\<lparr>o_new := o_new x @ rs, o_prog := next\<rparr>) = visible_runs c x @ rs"
    by (simp add: visible_runs_def map_idI)
  show "runs_wf c (x\<lparr>o_new := o_new x @ rs, o_prog := next\<rparr>)"
    using assms(1) dist by (auto simp: runs_wf_def)
qed

lemma only_steps:
  assumes "vis UNIV"
  shows "o_prog x = UpdateJobs P f k \<Longrightarrow> hits = filter P (visible_jobs c x) \<Longrightarrow>
      cstep vis (only c t x) (only c t (change_jobs f hits (k (map f hits)) x))"
    and "o_prog x = PickJobs P n f k \<Longrightarrow>
      hits = filter (\<lambda>j. ID j \<in> ID ` set (sql_limit n (sql_order_by pick_order (filter P (visible_jobs c x))))) (visible_jobs c x) \<Longrightarrow>
      cstep vis (only c t x) (only c t (change_jobs f hits (k (map f hits)) x))"
    and "o_prog x = UpdateRuns Q g next \<Longrightarrow>
      cstep vis (only c t x) (only c t (change_runs g (filter (Q (visible_jobs c x) (visible_runs c x)) (visible_runs c x)) next x))"
    and "o_prog x = InsertRuns new next \<Longrightarrow> distinct (map r_id (visible_runs c x @ new)) \<Longrightarrow>
      cstep vis (only c t x) (only c t (x\<lparr>o_new := o_new x @ new, o_prog := next\<rparr>))"
  using cstep.updates [where c = "only c t x" and t = t and x = x and P = P and visited = UNIV and vis = vis]
    cstep.picks [where c = "only c t x" and t = t and x = x and P = P and visited = UNIV and vis = vis]
    cstep.runs [where c = "only c t x" and t = t and x = x and P = Q and visited = UNIV and vis = vis]
    cstep.inserts [where c = "only c t x" and t = t and x = x and vis = vis] assms
  by (simp_all add: hit_jobs_def hit_runs_def)

text \<open>What the session has reached, and one more step before it.\<close>

definition reaches_commit :: "(uuid set \<Rightarrow> bool) \<Rightarrow> server \<Rightarrow> nat \<Rightarrow> open_tx \<Rightarrow> job list \<times> job_run list \<times> job list \<Rightarrow> bool" where
  "reaches_commit vis c t x r \<longleftrightarrow> (\<exists>y res. (cstep vis)\<^sup>*\<^sup>* (only c t x) (only c t y) \<and>
     o_prog y = Commit res \<and> r = (visible_jobs c y, visible_runs c y, res))"

lemma reaches_commit_step: "cstep vis (only c t x) (only c t y) \<Longrightarrow> reaches_commit vis c t y r \<Longrightarrow> reaches_commit vis c t x r"
  unfolding reaches_commit_def by (elim exE conjE, intro exI conjI, rule converse_rtranclp_into_rtranclp) assumption+

lemma alone_changes_jobs:
  assumes "server_ok (only c t x)" "runs_wf c x" "cstep vis (only c t x) (only c t y)"
    and y: "y = change_jobs f (filter P (visible_jobs c x)) next x"
    and "alone next (sql_update P f (visible_jobs c x)) (visible_runs c x) = Some r"
    and "\<And>y. next = o_prog y \<Longrightarrow> server_ok (only c t y) \<Longrightarrow> runs_wf c y \<Longrightarrow>
      alone (o_prog y) (visible_jobs c y) (visible_runs c y) = Some r \<Longrightarrow> reaches_commit vis c t y r"
  shows "reaches_commit vis c t x r"
proof -
  have ok: "tx_ok (c_jobs c) x" "distinct (map ID (c_jobs c))" using server_okD [OF assms(1)] by auto
  have "visible_runs c y = visible_runs c x" "o_prog y = next" by (simp_all add: y change_jobs_def visible_runs_def)
  with assms(5) visible_change_jobs [OF ok, of f P "next", folded y]
  have "alone (o_prog y) (visible_jobs c y) (visible_runs c y) = Some r" by simp
  moreover have "runs_wf c y" using assms(2) by (simp add: y change_jobs_def runs_wf_def)
  ultimately show ?thesis
    using assms(6) [of y] cstep_ok [OF assms(1,3)] reaches_commit_step [OF assms(3)] \<open>o_prog y = next\<close> by simp
qed

lemma alone_steps:
  assumes "server_ok (only c t x)" "runs_wf c x" "vis UNIV" "alone (o_prog x) (visible_jobs c x) (visible_runs c x) = Some r"
  shows "reaches_commit vis c t x r"
  using assms(1,2,4)
proof (induction "o_prog x" arbitrary: x)
  case (UpdateJobs P f k)
  note step = only_steps(1) [where vis = vis, OF assms(3) UpdateJobs.hyps(2) [symmetric] refl]
  show ?case
    using UpdateJobs.prems(3) by (intro alone_changes_jobs [OF UpdateJobs.prems(1,2) step refl _ UpdateJobs.hyps(1)])
      (simp flip: UpdateJobs.hyps(2), metis rangeI, assumption+)
next
  case (PickJobs P n f k)
  note step = only_steps(2) [where vis = vis, OF assms(3) PickJobs.hyps(2) [symmetric] refl]
  show ?case
    using PickJobs.prems(3) by (intro alone_changes_jobs [OF PickJobs.prems(1,2) step refl _ PickJobs.hyps(1)])
      (simp add: Let_def flip: PickJobs.hyps(2), metis rangeI, assumption+)
next
  case (UpdateRuns P f "next")
  note step = only_steps(3) [where vis = vis, OF assms(3) UpdateRuns.hyps(2) [symmetric], of c t]
  let ?y = "change_runs f (filter (P (visible_jobs c x) (visible_runs c x)) (visible_runs c x)) next x"
  have "safe (pending_effect (o_call x)) (result_ok (o_call x)) (o_prog x) (o_jobs x)"
    using server_okD(2) [OF UpdateRuns.prems(1), of t x] by (simp add: tx_ok_def)
  then have "r_id (f r) = r_id r" for r by (simp add: UpdateRuns.hyps(2) [symmetric])
  note y = visible_change_runs [OF UpdateRuns.prems(2) this refl, of "P (visible_jobs c x) (visible_runs c x)" "next"]
  have "visible_jobs c ?y = visible_jobs c x" "o_prog ?y = next"
    by (simp_all add: visible_jobs_def own_version_def change_runs_def)
  then show ?case
    using reaches_commit_step [OF step] UpdateRuns.hyps(1) [of ?y] cstep_ok [OF UpdateRuns.prems(1) step] y UpdateRuns.prems(3)
    by (simp flip: UpdateRuns.hyps(2))
next
  case (InsertRuns new "next")
  have dist: "distinct (map r_id (visible_runs c x @ new))" and rest: "alone next (visible_jobs c x) (visible_runs c x @ new) = Some r"
    using InsertRuns.prems(3) unfolding InsertRuns.hyps(2) [symmetric] by (simp_all split: if_splits)
  note step = only_steps(4) [where vis = vis, OF assms(3) InsertRuns.hyps(2) [symmetric] dist, of t]
  let ?y = "x\<lparr>o_new := o_new x @ new, o_prog := next\<rparr>"
  have "visible_jobs c ?y = visible_jobs c x" by (simp add: visible_jobs_def own_version_def)
  then show ?case
    using reaches_commit_step [OF step] InsertRuns.hyps(1) [of ?y] cstep_ok [OF InsertRuns.prems(1) step]
      visible_insert [OF InsertRuns.prems(2) dist, of "next"] rest by simp
next
  case (Commit res)
  from Commit.prems(3) show ?case unfolding reaches_commit_def Commit.hyps [symmetric]
    by (intro exI [of _ x]) (auto simp flip: Commit.hyps)
next
  case Rollback
  from Rollback.prems(3) show ?case unfolding Rollback.hyps [symmetric] by simp
qed

lemma alone_reached:
  assumes "db_ok d" "vis UNIV" "alone (program call) (jobs d) (job_runs d) = Some (js, rs, res)"
  shows "\<exists>c x. (cstep vis)\<^sup>*\<^sup>* (idle_server (jobs d) (job_runs d)) c \<and> c_open c t = Some x \<and>
    o_prog x = Commit res \<and> commit_tx t x c = idle_server js rs"
proof -
  let ?c = "idle_server (jobs d) (job_runs d)" and ?x = "started_tx call"
  have start: "cstep vis ?c (only ?c t ?x)"
    using cstep.begins [of ?c t vis call] by (simp add: idle_server_def only_def)
  have ok: "server_ok (only ?c t ?x)"
    using cstep_ok [OF server_ok_idle start] db_okD(1) [OF assms(1)] by simp
  have rows: "visible_jobs ?c ?x = jobs d" "visible_runs ?c ?x = job_runs d" "o_prog ?x = program call"
    by (simp_all add: visible_jobs_def visible_runs_def own_version_def [abs_def] started_tx_def idle_server_def)
  have wf: "runs_wf ?c ?x" using db_okD(2) [OF assms(1)] by (simp add: runs_wf_def idle_server_def started_tx_def)
  have "reaches_commit vis ?c t ?x (js, rs, res)"
    using alone_steps [where vis = vis, OF ok wf assms(2)] assms(3) by (simp add: rows)
  then obtain y where y: "(cstep vis)\<^sup>*\<^sup>* (only ?c t ?x) (only ?c t y)" "visible_jobs ?c y = js"
      "visible_runs ?c y = rs" "o_prog y = Commit res"
    by (auto simp: reaches_commit_def)
  have "(cstep vis)\<^sup>*\<^sup>* ?c (only ?c t y)" using start y(1) by (rule converse_rtranclp_into_rtranclp)
  moreover have "commit_tx t y (only ?c t y) = idle_server js rs"
    using y(2,3) by (simp add: commit_tx_def) (simp add: only_def idle_server_def)
  ultimately show ?thesis using y(4) by (auto intro!: exI [of _ "only ?c t y"])
qed

text \<open>
  The interleaved model and the methods of the other theories agree. Run alone on tables that
  satisfy the invariant, the statements of a method commit the jobs and runs that the method as a whole
  commits and return the jobs that it returns, and commit nothing when it returns an error; and this
  run is one of the server's, from the idle server to the idle server with the new tables.
\<close>

lemma Session_alone:
  assumes "db_ok d" "vis UNIV"
  shows "published (whole call d) = alone (program call) (jobs d) (job_runs d) \<and>
    (case whole call d of Inl e \<Rightarrow> True
     | Inr (res, d') \<Rightarrow> \<exists>c x. (cstep vis)\<^sup>*\<^sup>* (idle_server (jobs d) (job_runs d)) c \<and> c_open c t = Some x \<and>
         o_prog x = Commit res \<and> commit_tx t x c = idle_server (jobs d') (job_runs d'))"
  using program_alone [OF assms(1), of call] alone_reached [where vis = vis and call = call and t = t, OF assms]
  by (cases "whole call d") auto

section \<open>Two sessions\<close>

text \<open>Two open transactions, and the steps of one of them.\<close>

definition pair :: "nat \<Rightarrow> nat \<Rightarrow> job list \<Rightarrow> job_run list \<Rightarrow> open_tx \<Rightarrow> open_tx \<Rightarrow> server" where
  "pair t u js rs x y = \<lparr>c_jobs = js, c_runs = rs, c_open = [t \<mapsto> x, u \<mapsto> y]\<rparr>"

lemma pair_swap: "t \<noteq> u \<Longrightarrow> pair t u js rs x y = pair u t js rs y x"
  by (simp add: pair_def fun_upd_twist)

lemma pair_simps [simp]:
  "c_jobs (pair t u js rs x y) = js" "c_runs (pair t u js rs x y) = rs"
  "c_open (pair t u js rs x y) = [t \<mapsto> x, u \<mapsto> y]"
  "t \<noteq> u \<Longrightarrow> (pair t u js rs x y)\<lparr>c_open := [u \<mapsto> y, t \<mapsto> x']\<rparr> = pair t u js rs x' y"
  "t \<noteq> u \<Longrightarrow> job_locked (pair t u js rs x y) t i \<longleftrightarrow> o_jobs y i \<noteq> None"
  "t \<noteq> u \<Longrightarrow> run_locked (pair t u js rs x y) t i \<longleftrightarrow> o_runs y i \<noteq> None"
  by (auto simp: pair_def job_locked_def run_locked_def fun_upd_twist split: if_splits)

lemma pair_begins:
  assumes "t \<noteq> u"
  shows "(cstep vis)\<^sup>*\<^sup>* (idle_server js rs) (pair t u js rs (started_tx a) (started_tx b))"
proof -
  let ?c = "(idle_server js rs)\<lparr>c_open := [t \<mapsto> started_tx a]\<rparr>"
  have "cstep vis (idle_server js rs) ?c" using cstep.begins [of "idle_server js rs" t vis a] by (simp add: idle_server_def)
  moreover have "cstep vis ?c (pair t u js rs (started_tx a) (started_tx b))"
    using cstep.begins [of ?c u vis b] assms by (simp add: idle_server_def pair_def)
  ultimately show ?thesis by simp
qed

lemma pair_steps:
  assumes "t \<noteq> u" "vis UNIV" and vj_def: "vj = map (own_version x) js"
    and vr_def: "vr = map (\<lambda>r. case o_runs x (r_id r) of None \<Rightarrow> r | Some r' \<Rightarrow> r') (rs @ o_new x)"
  shows "o_prog x = UpdateJobs P f k \<Longrightarrow> hits = filter P vj \<Longrightarrow> \<forall>j \<in> set hits. o_jobs y (ID j) = None \<Longrightarrow>
      cstep vis (pair t u js rs x y) (pair t u js rs (change_jobs f hits (k (map f hits)) x) y)"
    and "o_prog x = PickJobs P n f k \<Longrightarrow>
      best = sql_limit n (sql_order_by pick_order (filter (\<lambda>j. o_jobs y (ID j) = None) (filter P vj))) \<Longrightarrow>
      hits = filter (\<lambda>j. ID j \<in> ID ` set best) vj \<Longrightarrow>
      cstep vis (pair t u js rs x y) (pair t u js rs (change_jobs f hits (k (map f hits)) x) y)"
    and "o_prog x = UpdateRuns Q g next \<Longrightarrow> hits' = filter (Q vj vr) vr \<Longrightarrow> \<forall>r \<in> set hits'. o_runs y (r_id r) = None \<Longrightarrow>
      cstep vis (pair t u js rs x y) (pair t u js rs (change_runs g hits' next x) y)"
    and "o_prog x = InsertRuns new next \<Longrightarrow> distinct (map r_id (vr @ new)) \<Longrightarrow> r_id ` set new \<inter> r_id ` set (o_new y) = {} \<Longrightarrow>
      cstep vis (pair t u js rs x y) (pair t u js rs (x\<lparr>o_new := o_new x @ new, o_prog := next\<rparr>) y)"
    and "o_prog x = Commit res \<Longrightarrow> cstep vis (pair t u js rs x y) (only (idle_server vj vr) u y)"
proof -
  let ?c = "pair t u js rs x y"
  have vis: "visible_jobs ?c x = vj" "visible_runs ?c x = vr"
    by (simp_all add: visible_jobs_def visible_runs_def vj_def vr_def)
  note twist = fun_upd_twist [OF assms(1)] fun_upd_upd
  show "cstep vis ?c (pair t u js rs (change_jobs f hits (k (map f hits)) x) y)"
    if "o_prog x = UpdateJobs P f k" "hits = filter P vj" "\<forall>j \<in> set hits. o_jobs y (ID j) = None"
    using cstep.updates [where c = ?c and t = t and x = x and P = P and visited = UNIV and vis = vis, OF _ that(1) assms(2) refl] that(2,3) assms(1)
    by (simp add: hit_jobs_def vis twist del: not_None_eq)
  show "cstep vis ?c (pair t u js rs (change_jobs f hits (k (map f hits)) x) y)"
    if "o_prog x = PickJobs P n f k" "hits = filter (\<lambda>j. ID j \<in> ID ` set best) vj"
      "best = sql_limit n (sql_order_by pick_order (filter (\<lambda>j. o_jobs y (ID j) = None) (filter P vj)))"
    using cstep.picks [where c = ?c and t = t and x = x and P = P and visited = UNIV and vis = vis, OF _ that(1) assms(2) refl refl] that(2,3) assms(1)
    by (simp add: hit_jobs_def vis twist del: not_None_eq)
  show "cstep vis ?c (pair t u js rs (change_runs g hits' next x) y)"
    if "o_prog x = UpdateRuns Q g next" "hits' = filter (Q vj vr) vr" "\<forall>r \<in> set hits'. o_runs y (r_id r) = None"
    using cstep.runs [where c = ?c and t = t and x = x and P = Q and visited = UNIV and vis = vis, OF _ that(1) assms(2) refl] that(2,3) assms(1)
    by (simp add: hit_runs_def vis twist del: not_None_eq)
  show "cstep vis ?c (pair t u js rs (x\<lparr>o_new := o_new x @ new, o_prog := next\<rparr>) y)"
    if "o_prog x = InsertRuns new next" "distinct (map r_id (vr @ new))" "r_id ` set new \<inter> r_id ` set (o_new y) = {}"
    using cstep.inserts [where c = ?c and t = t and x = x and vis = vis, OF _ that(1)] that(2,3) assms(1)
    by (simp add: vis twist)
  show "cstep vis ?c (only (idle_server vj vr) u y)" if "o_prog x = Commit res"
    using cstep.commits [where c = ?c and t = t and x = x and vis = vis, OF _ that] assms(1)
    by (simp add: commit_tx_def vis) (simp add: only_def idle_server_def pair_def twist)
qed

definition waits_for :: "server \<Rightarrow> nat \<Rightarrow> nat \<Rightarrow> bool" where
  "waits_for c t u = (case (c_open c t, c_open c u) of
       (Some x, Some y) \<Rightarrow> t \<noteq> u \<and> (case o_prog x of
           UpdateJobs P f k \<Rightarrow> \<exists>j \<in> set (hit_jobs c x UNIV P). o_jobs y (ID j) \<noteq> None
         | UpdateRuns P f next \<Rightarrow> \<exists>r \<in> set (hit_runs c x UNIV P). o_runs y (r_id r) \<noteq> None
         | _ \<Rightarrow> False)
     | _ \<Rightarrow> False)"

text \<open>
  \<open>Dequeue\<close> at time 150, 50 after the lease of the sample job has expired, has closed the run of
  the job and has not yet reclaimed the job.
\<close>

definition recovery :: queue_call where
  "recovery = DequeueCall 150 (\<lambda>n. 90) [] 1 ''w2'' Second"

definition recovering :: open_tx where
  "recovering = \<lparr>o_call = recovery, o_prog = (case program recovery of UpdateRuns P f next \<Rightarrow> next), o_jobs = Map.empty,
     o_runs = [70 \<mapsto> (sample_run Running)\<lparr>r_finished_at := Some 150, r_status := Failed, r_error := Some lease_expired_msg\<rparr>],
     o_new = []\<rparr>"

lemma recovery_begins:
  "(cstep (\<lambda>V. V = UNIV))\<^sup>*\<^sup>* (idle_server [sample_job Running] [sample_run Running])
     (pair 1 2 [sample_job Running] [sample_run Running] recovering (started_tx call))"
proof -
  let ?x = "started_tx recovery"
  let ?f = "\<lambda>r. r\<lparr>r_finished_at := Some 150, r_status := Failed, r_error := Some lease_expired_msg\<rparr>"
  let ?next = "case program recovery of UpdateRuns P f next \<Rightarrow> next"
  have prog: "o_prog ?x = UpdateRuns (\<lambda>js rs r. r_status r = Running \<and> r_job_id r \<in> ID ` set (filter (expired 150) js)) ?f ?next"
    by (simp add: started_tx_def recovery_def close_expired_session_def)
  have "cstep (\<lambda>V. V = UNIV) (pair 1 2 [sample_job Running] [sample_run Running] ?x (started_tx call))
     (pair 1 2 [sample_job Running] [sample_run Running] (change_runs ?f [sample_run Running] ?next ?x) (started_tx call))"
    by (rule pair_steps(3) [OF _ _ refl refl prog])
      (simp_all add: started_tx_def own_version_def sample_job_def sample_run_def expired_def sql_less_def)
  moreover have "change_runs ?f [sample_run Running] ?next ?x = recovering"
    by (auto simp: change_runs_def recovering_def started_tx_def sample_run_def fun_eq_iff)
  ultimately show ?thesis
    using pair_begins [of 1 2] by (metis (no_types, lifting) numeral_One num.distinct(1) numeral_eq_iff rtranclp.rtrancl_into_rtrancl)
qed

lemma other_updates:
  assumes "program call = UpdateJobs P f k" "P (sample_job Running)"
  shows "(cstep (\<lambda>V. V = UNIV))\<^sup>*\<^sup>* (idle_server [sample_job Running] [sample_run Running])
     (pair 2 1 [sample_job Running] [sample_run Running]
        (change_jobs f [sample_job Running] (k [f (sample_job Running)]) (started_tx call)) recovering)"
proof -
  have "cstep (\<lambda>V. V = UNIV) (pair 2 1 [sample_job Running] [sample_run Running] (started_tx call) recovering)
     (pair 2 1 [sample_job Running] [sample_run Running]
        (change_jobs f [sample_job Running] (k (map f [sample_job Running])) (started_tx call)) recovering)"
    by (rule pair_steps(1) [where P = P, OF _ _ refl refl])
      (use assms in \<open>simp_all add: started_tx_def own_version_def recovering_def\<close>)
  moreover have "(cstep (\<lambda>V. V = UNIV))\<^sup>*\<^sup>* (idle_server [sample_job Running] [sample_run Running])
     (pair 2 1 [sample_job Running] [sample_run Running] (started_tx call) recovering)"
    using recovery_begins [of call] by (subst pair_swap) simp_all
  ultimately show ?thesis by (auto intro: rtranclp.rtrancl_into_rtrancl)
qed

lemma closes_extended:
  defines "j \<equiv> extend_row 151 Second (sample_job Running)"
  shows "(cstep (\<lambda>V. V = UNIV))\<^sup>*\<^sup>* (idle_server [sample_job Running] [sample_run Running])
     (idle_server [j] [(sample_run Running)\<lparr>r_finished_at := Some 150, r_status := Failed, r_error := Some lease_expired_msg\<rparr>])"
proof -
  let ?V = "\<lambda>V :: uuid set. V = UNIV" and ?c = "idle_server [j] [sample_run Running]"
  have "program (ExtendCall 151 7 ''w1'' Second) = UpdateJobs (leased_to 7 ''w1'') (extend_row 151 Second) (\<lambda>jobs. if jobs = [] then Rollback else Commit [])"
    "leased_to 7 ''w1'' (sample_job Running)"
    by (simp_all add: leased_to_def sample_job_def)
  note run = other_updates [OF this, folded j_def]
  let ?y = "change_jobs (extend_row 151 Second) [sample_job Running] (if [j] = [] then Rollback else Commit []) (started_tx (ExtendCall 151 7 ''w1'' Second))"
  have "cstep ?V (pair 2 1 [sample_job Running] [sample_run Running] ?y recovering) (only ?c 1 recovering)"
    using pair_steps(5) [where t = 2 and u = 1 and vis = ?V and x = ?y and y = recovering
        and js = "[sample_job Running]" and rs = "[sample_run Running]" and res = "[]", OF _ _ refl refl]
    by (simp add: change_jobs_def started_tx_def own_version_def take_locks_def j_def)
  with run have run: "(cstep ?V)\<^sup>*\<^sup>* (idle_server [sample_job Running] [sample_run Running]) (only ?c 1 recovering)" by simp
  have ok: "server_ok (only ?c 1 recovering)" by (rule server.steps_inv [OF run server_ok_idle]) simp
  have "visible_jobs ?c recovering = [j]"
    "visible_runs ?c recovering = [(sample_run Running)\<lparr>r_finished_at := Some 150, r_status := Failed, r_error := Some lease_expired_msg\<rparr>]"
    by (simp_all add: visible_jobs_def visible_runs_def own_version_def recovering_def idle_server_def sample_run_def)
  note rows = this
  have "\<not> expired 150 j" "Status j = Running" "0 \<le> intervalLiteral Second"
    using intervalLiteral_nonneg [of Second] by (simp_all add: j_def extend_row_def expired_def sample_job_def sql_less_def Second_def)
  then have "alone (o_prog recovering) [j] rs = Some ([j], rs, [])" if "distinct (map r_id rs)" for rs
    using that by (simp add: recovering_def recovery_def close_expired_session_def eligible_def sql_limit_def sql_order_by_def)
  then have alone: "alone (o_prog recovering) (visible_jobs ?c recovering) (visible_runs ?c recovering) =
      Some (visible_jobs ?c recovering, visible_runs ?c recovering, [])" by (simp add: rows)
  have "runs_wf ?c recovering" by (auto simp: runs_wf_def recovering_def idle_server_def sample_run_def split: if_splits)
  from alone_steps [where vis = ?V, OF ok this refl alone]
  obtain y where y: "(cstep ?V)\<^sup>*\<^sup>* (only ?c 1 recovering) (only ?c 1 y)" "o_prog y = Commit []"
      "visible_jobs ?c y = [j]" "visible_runs ?c y = [(sample_run Running)\<lparr>r_finished_at := Some 150, r_status := Failed, r_error := Some lease_expired_msg\<rparr>]"
    unfolding reaches_commit_def rows by auto
  have "cstep ?V (only ?c 1 y) (commit_tx 1 y (only ?c 1 y))" using y(2) by (intro cstep.commits) simp_all
  moreover have "commit_tx 1 y (only ?c 1 y) = idle_server [j] [(sample_run Running)\<lparr>r_finished_at := Some 150, r_status := Failed, r_error := Some lease_expired_msg\<rparr>]"
    using y(3,4) by (simp add: commit_tx_def) (simp add: only_def idle_server_def)
  ultimately show ?thesis using run y(1) by (metis (no_types, lifting) rtranclp.rtrancl_into_rtrancl rtranclp_trans)
qed

lemma deadlocks:
  "\<exists>c. (cstep (\<lambda>V. V = UNIV))\<^sup>*\<^sup>* (idle_server [sample_job Running] [sample_run Running]) c \<and> waits_for c 1 2 \<and> waits_for c 2 1"
proof -
  let ?k = "\<lambda>jobs. if jobs = [] then Rollback else finish_session 151 7 Succeeded '''' (Commit jobs)"
  have "program (AckCall 151 7 ''w1'') = UpdateJobs (running_for 7 ''w1'') (ack_row 151) ?k" "running_for 7 ''w1'' (sample_job Running)"
    by (simp_all add: running_for_def sample_job_def)
  note run = other_updates [OF this]
  let ?y = "change_jobs (ack_row 151) [sample_job Running] (?k [ack_row 151 (sample_job Running)]) (started_tx (AckCall 151 7 ''w1''))"
  let ?c = "pair 2 1 [sample_job Running] [sample_run Running] ?y recovering"
  have "waits_for ?c 1 2"
    by (simp add: waits_for_def recovering_def recovery_def close_expired_session_def hit_jobs_def visible_jobs_def own_version_def
        change_jobs_def started_tx_def take_locks_def sample_job_def expired_def sql_less_def)
  moreover have "waits_for ?c 2 1"
    by (simp add: waits_for_def recovering_def change_jobs_def started_tx_def finish_session_def newest_open_def
        hit_runs_def visible_runs_def sample_run_def sql_limit_def sql_order_by_def)
  ultimately show ?thesis using run by blast
qed

text \<open>
  C20: recovery is not atomic under READ COMMITTED. \<open>Dequeue\<close> closes the runs of expired leases and
  reclaims the jobs in two statements with a snapshot each. When a late heartbeat extends the lease in
  between, the job goes on running under its worker with no open run, which the invariant of the
  tables excludes and no sequence of whole methods reaches. And the methods lock the tables in
  opposite orders, \<open>Dequeue\<close> the run before the job and \<open>Ack\<close> the job before the run, so they can
  wait for each other.
\<close>

theorem Recovery_races:
  "db_ok (sample_db Running) \<and>
   (\<exists>c. (cstep (\<lambda>V. V = UNIV))\<^sup>*\<^sup>* (idle_server (jobs (sample_db Running)) (job_runs (sample_db Running))) c \<and>
      c_open c = Map.empty \<and> (\<exists>j \<in> set (c_jobs c). Status j = Running \<and> LockedBy j = Some ''w1'') \<and>
      list_all (\<lambda>r. r_status r = Failed) (c_runs c) \<and>
      \<not> db_ok ((sample_db Running)\<lparr>jobs := c_jobs c, job_runs := c_runs c\<rparr>)) \<and>
   (\<exists>c. (cstep (\<lambda>V. V = UNIV))\<^sup>*\<^sup>* (idle_server (jobs (sample_db Running)) (job_runs (sample_db Running))) c \<and>
      waits_for c 1 2 \<and> waits_for c 2 1)"
proof (intro conjI)
  show "db_ok (sample_db Running)" by (rule sample_db_ok)
  have tables: "jobs (sample_db Running) = [sample_job Running]" "job_runs (sample_db Running) = [sample_run Running]"
    by (simp_all add: sample_db_def)
  show "\<exists>c. (cstep (\<lambda>V. V = UNIV))\<^sup>*\<^sup>* (idle_server (jobs (sample_db Running)) (job_runs (sample_db Running))) c \<and>
      c_open c = Map.empty \<and> (\<exists>j \<in> set (c_jobs c). Status j = Running \<and> LockedBy j = Some ''w1'') \<and>
      list_all (\<lambda>r. r_status r = Failed) (c_runs c) \<and>
      \<not> db_ok ((sample_db Running)\<lparr>jobs := c_jobs c, job_runs := c_runs c\<rparr>)"
    unfolding tables
    by (rule exI, rule conjI [OF closes_extended])
      (simp add: idle_server_def extend_row_def sample_job_def db_ok_def queue_ok_def runs_ok_def open_runs_def)
  show "\<exists>c. (cstep (\<lambda>V. V = UNIV))\<^sup>*\<^sup>* (idle_server (jobs (sample_db Running)) (job_runs (sample_db Running))) c \<and>
      waits_for c 1 2 \<and> waits_for c 2 1"
    unfolding tables by (rule deadlocks)
qed

section \<open>Commits are serial\<close>

text \<open>
  C3: no lost updates on the job rows and exclusive claims, under every interleaving of the
  statements of any number of transactions, with aborts anywhere and whatever rows a statement
  visits. When a transaction commits, every job row that it has locked is still the row that it
  locked, and what is committed is the effect of its method on that row as if the method ran now as
  a whole; all other jobs stay as they are, so every job keeps its identity and its status moves
  along an edge of the machine. An \<open>Ack\<close>, \<open>Nack\<close>, \<open>ExtendLease\<close>, \<open>Cancel\<close> or \<open>RequeueDLQ\<close> that
  commits has found the row of its job in the state that it asks for, has done its update of exactly
  this row and returns the new row (\<open>ExtendLease\<close> returns nothing): none of them commits without
  its effect. The jobs that a \<open>Dequeue\<close> returns are at most as many as asked for, are at this moment
  ready or have an expired lease, and are committed with this worker's lease; the rows that it
  changes without returning them are expired leases that it reclaims. So a job whose lease is valid
  is never handed out, and no two transactions return the same job. (The rows of \<open>job_runs\<close> are
  not serial: see the races of recovery above.)
\<close>

theorem Interleaved_commits_serial:
  assumes "distinct (map ID js0)" "(cstep vis)\<^sup>*\<^sup>* (idle_server js0 rs0) c"
    and "c_open c t = Some x" "o_prog x = Commit js" "c' = commit_tx t x c"
  shows "map ID (c_jobs c') = map ID (c_jobs c) \<and>
    (\<forall>j \<in> set (c_jobs c). \<exists>j' \<in> set (c_jobs c'). j' = own_version x j \<and> job_evolves j j' \<and>
       (if o_jobs x (ID j) = None then j' = j else row_effect (o_call x) j j')) \<and>
    (\<forall>j' \<in> set js. j' \<in> set (c_jobs c')) \<and>
    (\<forall>i. call_job (o_call x) = Some i \<longrightarrow>
       (\<exists>j \<in> set (c_jobs c). \<exists>j'. ID j = i \<and> row_effect (o_call x) j j' \<and>
          js = (case o_call x of ExtendCall now k w lease \<Rightarrow> [] | _ \<Rightarrow> [j']) \<and>
          c_jobs c' = map (\<lambda>k. if ID k = i then j' else k) (c_jobs c))) \<and>
    (\<forall>now newids queues limit w lease. o_call x = DequeueCall now newids queues limit w lease \<longrightarrow>
       length js \<le> nat (default_limit limit) \<and>
       (\<forall>j' \<in> set js. \<exists>j \<in> set (c_jobs c). claimable now [] (default_queues queues) j \<and>
          j' = claim_row now w lease (reclaim1 now j) \<and> j' \<in> set (c_jobs c')) \<and>
       (\<forall>j \<in> set (c_jobs c). own_version x j \<noteq> j \<longrightarrow> own_version x j \<in> set js \<or>
          (expired now j \<and> own_version x j = reclaim_row now j))) \<and>
    (\<forall>u y ks. u \<noteq> t \<longrightarrow> c_open c u = Some y \<longrightarrow> o_prog y = Commit ks \<longrightarrow> ID ` set js \<inter> ID ` set ks = {})"
proof (intro conjI ballI allI impI)
  have inv: "server_ok c" by (rule server.steps_inv [OF assms(2) server_ok_idle [OF assms(1)]])
  show "map ID (c_jobs c') = map ID (c_jobs c)"
    using visible_IDs [OF server_okD(2) [OF inv assms(3)]] by (simp add: assms(5) commit_tx_def)
  show "\<exists>j' \<in> set (c_jobs c'). j' = own_version x j \<and> job_evolves j j' \<and>
      (if o_jobs x (ID j) = None then j' = j else row_effect (o_call x) j j')" if "j \<in> set (c_jobs c)" for j
    using commit_row [OF inv assms(3,4) that] unfolding assms(5) by blast
  show kept: "j' \<in> set (c_jobs c')" if "j' \<in> set js" for j'
    using commit_returned [OF inv assms(3,4) that] by (simp add: assms(5))
  show "\<exists>j \<in> set (c_jobs c). \<exists>j'. ID j = i \<and> row_effect (o_call x) j j' \<and>
      js = (case o_call x of ExtendCall now k w lease \<Rightarrow> [] | _ \<Rightarrow> [j']) \<and>
      c_jobs c' = map (\<lambda>k. if ID k = i then j' else k) (c_jobs c)" if "call_job (o_call x) = Some i" for i
    using commit_job [OF inv assms(3,4) that] unfolding assms(5) by blast
  show "ID ` set js \<inter> ID ` set ks = {}" if "u \<noteq> t" "c_open c u = Some y" "o_prog y = Commit ks" for u y ks
    by (rule results_apart [OF inv that(1) assms(3,4) that(2,3)])
  fix now newids queues limit w lease assume call: "o_call x = DequeueCall now newids queues limit w lease"
  note res = commit_result [OF inv assms(3,4), unfolded call result_ok_def, simplified]
  show "length js \<le> nat (default_limit limit)" using res by simp
  show "own_version x j \<in> set js \<or> (expired now j \<and> own_version x j = reclaim_row now j)"
    if j: "j \<in> set (c_jobs c)" "own_version x j \<noteq> j" for j
  proof -
    obtain b j' where m: "o_jobs x (ID j) = Some (b, j')" using j(2) by (auto simp: own_version_def split: option.splits)
    with res locked_row [OF inv assms(3) m j(1)] show ?thesis by blast
  qed
  fix j' assume j': "j' \<in> set js"
  then obtain b where b: "o_jobs x (ID j') = Some (b, j')" "claimable now [] (default_queues queues) b"
      "j' = claim_row now w lease (reclaim1 now b)" using res by blast
  with tx_okD(1) [OF server_okD(2) [OF inv assms(3)] b(1)] kept [OF j']
  show "\<exists>j \<in> set (c_jobs c). claimable now [] (default_queues queues) j \<and>
      j' = claim_row now w lease (reclaim1 now j) \<and> j' \<in> set (c_jobs c')" by blast
qed

theorem Interleaved_commits_serial_witness:
  "\<exists>c x. (cstep (\<lambda>_. True))\<^sup>*\<^sup>* (idle_server [sample_job Ready] []) c \<and> c_open c 1 = Some x \<and>
     o_prog x = Commit [claim_row 50 ''w1'' Second (sample_job Ready)] \<and>
     map ID (c_jobs (commit_tx 1 x c)) = map ID (c_jobs c) \<and>
     claim_row 50 ''w1'' Second (sample_job Ready) \<in> set (c_jobs (commit_tx 1 x c))"
proof -
  let ?j = "claim_row 50 ''w1'' Second (sample_job Ready)" and ?call = "DequeueCall 50 (\<lambda>n. 90) [] 1 ''w1'' Second"
  have "\<not> expired 50 (sample_job Ready)" "eligible 50 [] (default_queues []) (sample_job Ready)" "default_limit 1 = 1"
      "Attempts ?j \<le> max_int32"
    by (simp_all add: expired_def eligible_def default_queues_def default_limit_def claim_row_def sample_job_def max_int32_def)
  then have "\<exists>rs. alone (program ?call) (jobs (sample_db Ready)) (job_runs (sample_db Ready)) = Some ([?j], rs, [?j])"
    by (simp add: close_expired_session_def sql_limit_def sql_order_by_def Let_def) (simp add: sample_db_def run_row_def)
  then obtain c x where c: "(cstep (\<lambda>_. True))\<^sup>*\<^sup>* (idle_server (jobs (sample_db Ready)) (job_runs (sample_db Ready))) c"
      "c_open c 1 = Some x" "o_prog x = Commit [?j]"
    using alone_reached [where vis = "\<lambda>_. True" and t = 1, OF sample_db_ok TrueI] by blast
  with Interleaved_commits_serial [OF _ c refl] have "map ID (c_jobs (commit_tx 1 x c)) = map ID (c_jobs c)"
      "?j \<in> set (c_jobs (commit_tx 1 x c))" by simp_all
  with c show ?thesis by (auto simp: sample_db_def)
qed

end
