(* ===== verification/Go_Number.thy ===== *)
theory Go_Number
  imports Go_Float Go_Time
begin

text \<open>
  What the repository uses of \<open>strconv.Atoi\<close> and \<open>time.ParseDuration\<close>, both on byte
  strings with the overflow checks of the library. An error is \<open>None\<close>; no caller of the
  repository looks at the error value.
\<close>

section \<open>Digits\<close>

definition is_digit :: "char \<Rightarrow> bool" where
  "is_digit c \<longleftrightarrow> (48::nat) \<le> of_char c \<and> of_char c \<le> (57::nat)"

definition digit_value :: "char \<Rightarrow> nat" where
  "digit_value c = of_char c - 48"

section \<open>Atoi\<close>

definition parse_sign :: "string \<Rightarrow> bool \<times> string" where
  "parse_sign s = (case s of
       [] \<Rightarrow> (False, [])
     | c # cs \<Rightarrow> if c = CHR ''-'' then (True, cs) else if c = CHR ''+'' then (False, cs) else (False, s))"

datatype num_error = ErrSyntax | ErrRange

text \<open>\<open>ParseUint\<close> in base 10 for 64 bits; it stops at the first digit that does not fit.\<close>

fun ParseUint :: "nat \<Rightarrow> string \<Rightarrow> nat \<times> num_error option" where
  "ParseUint n [] = (n, None)"
| "ParseUint n (c # cs) =
     (if \<not> is_digit c then (0, Some ErrSyntax)
      else if n \<ge> 2 ^ 64 div 10 + 1 then (2 ^ 64 - 1, Some ErrRange)
      else (let n1 = n * 10 + digit_value c in
            if n1 \<ge> 2 ^ 64 then (2 ^ 64 - 1, Some ErrRange) else ParseUint n1 cs))"

text \<open>\<open>ParseInt(s, 10, 64)\<close>: a value beyond the range comes with the nearest bound.\<close>

definition ParseInt10 :: "string \<Rightarrow> int \<times> num_error option" where
  "ParseInt10 s =
     (let (neg, ds) = parse_sign s in
      if ds = '''' then (0, Some ErrSyntax)
      else (let (un, e) = ParseUint 0 ds in
        if e = Some ErrSyntax then (0, e)
        else if \<not> neg \<and> un \<ge> 2 ^ 63 then (2 ^ 63 - 1, Some ErrRange)
        else if neg \<and> un > 2 ^ 63 then (- (2 ^ 63), Some ErrRange)
        else (if neg then - int un else int un, None)))"

definition Atoi :: "string \<Rightarrow> int option" where
  "Atoi s = (case ParseInt10 s of (v, None) \<Rightarrow> Some v | (_, Some _) \<Rightarrow> None)"

section \<open>ParseDuration\<close>

text \<open>The longest prefix of digits as a number, \<open>None\<close> beyond \<open>2^63\<close>, and the rest.\<close>

fun leadingInt :: "nat \<Rightarrow> string \<Rightarrow> (nat \<times> string) option" where
  "leadingInt x [] = Some (x, [])"
| "leadingInt x (c # cs) =
     (if \<not> is_digit c then Some (x, c # cs)
      else if x > 2 ^ 63 div 10 then None
      else (let x' = x * 10 + digit_value c in if x' > 2 ^ 63 then None else leadingInt x' cs))"

text \<open>Digits after the point: value, power of ten, and the rest; digits that do not fit are dropped.\<close>

fun leadingFraction :: "bool \<Rightarrow> nat \<Rightarrow> nat \<Rightarrow> string \<Rightarrow> nat \<times> nat \<times> string" where
  "leadingFraction overflow x scale [] = (x, scale, [])"
| "leadingFraction overflow x scale (c # cs) =
     (if \<not> is_digit c then (x, scale, c # cs)
      else if overflow then leadingFraction True x scale cs
      else if x > (2 ^ 63 - 1) div 10 then leadingFraction True x scale cs
      else (let y = x * 10 + digit_value c in
            if y > 2 ^ 63 then leadingFraction True x scale cs
            else leadingFraction False y (scale * 10) cs))"

definition unitMap :: "(string \<times> nat) list" where
  "unitMap = [(''ns'', 1), (''us'', 1000), ([CHR 0xC2, CHR 0xB5, CHR ''s''], 1000),
     ([CHR 0xCE, CHR 0xBC, CHR ''s''], 1000), (''ms'', 1000000), (''s'', 1000000000),
     (''m'', 60000000000), (''h'', 3600000000000)]"

definition unit_char :: "char \<Rightarrow> bool" where
  "unit_char c \<longleftrightarrow> \<not> (c = CHR ''.'' \<or> is_digit c)"

text \<open>The contribution of a fraction, computed in \<open>float64\<close>.\<close>

definition fraction_part :: "nat \<Rightarrow> nat \<Rightarrow> nat \<Rightarrow> nat" where
  "fraction_part f scale unit =
     nat (trunc (f64_round (f64_round (of_nat f) *
       f64_round (f64_round (of_nat unit) / f64_round (of_nat scale)))))"

text \<open>One number with its unit; the value and the rest of the text.\<close>

definition parse_component :: "string \<Rightarrow> (nat \<times> string) option" where
  "parse_component s =
     (case s of [] \<Rightarrow> None | c # _ \<Rightarrow>
        if \<not> (c = CHR ''.'' \<or> is_digit c) then None
        else (case leadingInt 0 s of None \<Rightarrow> None | Some (v, s1) \<Rightarrow>
          (let pre = length s \<noteq> length s1;
               (f, scale, s2, post) =
                 (case s1 of
                    c1 # r \<Rightarrow> if c1 = CHR ''.'' then
                        (let (f, scale, r') = leadingFraction False 0 1 r in (f, scale, r', length r \<noteq> length r'))
                      else (0, 1, s1, False)
                  | [] \<Rightarrow> (0, 1, s1, False))
           in if \<not> pre \<and> \<not> post then None
              else (let u = takeWhile unit_char s2; s3 = dropWhile unit_char s2 in
                if u = '''' then None
                else (case map_of unitMap u of None \<Rightarrow> None | Some unit \<Rightarrow>
                  if v > 2 ^ 63 div unit then None
                  else (let v = v * unit; v = (if f > 0 then v + fraction_part f scale unit else v) in
                    if v > 2 ^ 63 then None else Some (v, s3)))))))"

lemma parse_component_shorter:
  assumes "parse_component s = Some (v, s')"
  shows "length s' < length s"
proof -
  have int_len: "length r \<le> length s" if "leadingInt x s = Some (w, r)" for x w s r
    using that by (induction x s rule: leadingInt.induct) (auto simp: Let_def split: if_splits)
  have frac_len: "length r \<le> length s" if "leadingFraction ov x sc s = (f, k, r)" for ov x sc f k s r
    using that by (induction ov x sc s rule: leadingFraction.induct) (auto simp: Let_def split: if_splits)
  have drop: "length (dropWhile P t) < length t" if "takeWhile P t \<noteq> []" for P and t :: string
    using that by (cases t) (auto simp: length_dropWhile_le le_imp_less_Suc split: if_splits)
  from assms show ?thesis
    unfolding parse_component_def Let_def
    by (auto simp del: leadingInt.simps takeWhile.simps dropWhile.simps
        split: list.splits if_splits option.splits prod.splits dest!: drop int_len frac_len)
qed

function parse_components :: "nat \<Rightarrow> string \<Rightarrow> nat option" where
  "parse_components d s =
     (if s = '''' then Some d
      else (case parse_component s of None \<Rightarrow> None | Some (v, s') \<Rightarrow>
        (let d' = (d + v) mod 2 ^ 64 in if d' > 2 ^ 63 then None else parse_components d' s')))"
  by pat_completeness auto
termination
  by (relation "measure (\<lambda>(d, s). length s)") (auto dest: parse_component_shorter)

declare parse_components.simps [simp del]

definition ParseDuration :: "string \<Rightarrow> duration option" where
  "ParseDuration s =
     (let (neg, s) = parse_sign s in
      if s = ''0'' then Some 0
      else if s = '''' then None
      else (case parse_components 0 s of None \<Rightarrow> None | Some d \<Rightarrow>
        if neg then Some (- int d) else if d > 2 ^ 63 - 1 then None else Some (int d)))"

section \<open>Numbers written in decimal\<close>

lemma is_digit_digit [simp]: "is_digit (digit k)"
  by (simp add: is_digit_def)

lemma char_of_digit:
  "char_of (48::nat) = CHR ''0''" "char_of (49::nat) = CHR ''1''" "char_of (50::nat) = CHR ''2''"
  "char_of (51::nat) = CHR ''3''" "char_of (52::nat) = CHR ''4''" "char_of (53::nat) = CHR ''5''"
  "char_of (54::nat) = CHR ''6''" "char_of (55::nat) = CHR ''7''" "char_of (56::nat) = CHR ''8''"
  "char_of (57::nat) = CHR ''9''"
  by (simp_all add: char_of_def bit_numeral_rec bit_0)

lemma is_digit_not_sign: "is_digit c \<Longrightarrow> c \<noteq> CHR ''-'' \<and> c \<noteq> CHR ''+''"
  by (auto simp: is_digit_def)

lemma decimal_all_digits: "list_all is_digit (decimal n)"
  using decimal_digits by (fastforce simp: list_all_iff)

lemma decimal_not_Nil [simp]: "decimal n \<noteq> []"
  by (subst decimal.simps) simp

lemma foldl_digits: "foldl (\<lambda>a c. 10 * a + digit_value c) 0 (decimal n) = n"
  using digits_value_decimal by (simp add: digit_value_def)

lemma parse_sign_decimal [simp]: "parse_sign (decimal n @ s) = (False, decimal n @ s)"
proof (cases "decimal n")
  case (Cons c cs)
  then have "is_digit c" using decimal_all_digits [of n] by simp
  with Cons show ?thesis by (auto simp: parse_sign_def dest: is_digit_not_sign)
qed simp

lemma foldl_digits_ge: "x \<le> foldl (\<lambda>a c. 10 * a + digit_value c) x ds"
proof (induction ds arbitrary: x)
  case (Cons d ds)
  show ?case using Cons.IH [of "10 * x + digit_value d"] by simp
qed simp

lemma ParseUint_digits:
  assumes "list_all is_digit ds" "n < 2 ^ 64"
  shows "ParseUint n ds = (let v = foldl (\<lambda>a c. 10 * a + digit_value c) n ds in
    if v < 2 ^ 64 then (v, None) else (2 ^ 64 - 1, Some ErrRange))"
  using assms
proof (induction ds arbitrary: n)
  case (Cons d ds)
  let ?y = "10 * n + digit_value d"
  have ge: "?y \<le> foldl (\<lambda>a c. 10 * a + digit_value c) ?y ds" by (rule foldl_digits_ge)
  show ?case
  proof (cases "?y < 2 ^ 64")
    case True
    then have "\<not> 2 ^ 64 div 10 + 1 \<le> n" by simp
    with True Cons show ?thesis by (simp add: Let_def mult.commute)
  next
    case False
    with ge have "\<not> foldl (\<lambda>a c. 10 * a + digit_value c) ?y ds < 2 ^ 64" by linarith
    with False Cons.prems show ?thesis by (simp add: Let_def mult.commute)
  qed
qed simp

lemma Atoi_decimal: "Atoi (decimal n) = (if n < 2 ^ 63 then Some (int n) else None)"
proof -
  have "parse_sign (decimal n) = (False, decimal n)"
    using parse_sign_decimal [of n "[]"] by simp
  then show ?thesis
    using ParseUint_digits [OF decimal_all_digits, of 0 n]
    by (simp add: Atoi_def ParseInt10_def foldl_digits Let_def)
qed

lemma leadingInt_digits:
  assumes "list_all is_digit ds" "rest \<noteq> [] \<Longrightarrow> \<not> is_digit (hd rest)" "x \<le> 2 ^ 63"
  shows "leadingInt x (ds @ rest) =
    (let v = foldl (\<lambda>a c. 10 * a + digit_value c) x ds in if v \<le> 2 ^ 63 then Some (v, rest) else None)"
  using assms(1,3)
proof (induction ds arbitrary: x)
  case Nil
  then show ?case using assms(2) by (cases rest) simp_all
next
  case (Cons d ds)
  let ?y = "10 * x + digit_value d"
  have ge: "?y \<le> foldl (\<lambda>a c. 10 * a + digit_value c) ?y ds"
    by (rule foldl_digits_ge)
  have y: "x * 10 + digit_value d = ?y" by simp
  show ?case
  proof (cases "?y \<le> 2 ^ 63")
    case True
    then have "\<not> 2 ^ 63 div 10 < x" by simp
    with True Cons show ?thesis by (simp add: Let_def mult.commute)
  next
    case False
    with ge have "\<not> foldl (\<lambda>a c. 10 * a + digit_value c) ?y ds \<le> 2 ^ 63" by linarith
    with False Cons.prems show ?thesis by (simp add: Let_def mult.commute)
  qed
qed

lemma parse_component_seconds:
  "parse_component (decimal n @ ''s'') = (if n * 1000000000 \<le> 2 ^ 63 then Some (n * 1000000000, []) else None)"
proof -
  obtain c cs where d: "decimal n = c # cs" "is_digit c"
    using decimal_all_digits [of n] by (cases "decimal n") auto
  have s: "\<not> is_digit CHR ''s''" "unit_char CHR ''s''" "map_of unitMap ''s'' = Some 1000000000"
    by (simp_all add: is_digit_def unit_char_def unitMap_def)
  have lead: "leadingInt 0 (c # cs @ ''s'') = (if n \<le> 2 ^ 63 then Some (n, ''s'') else None)"
    using leadingInt_digits [OF decimal_all_digits, of "''s''" 0 n] foldl_digits [of n] d(1) s(1)
    by (simp add: Let_def del: leadingInt.simps)
  have le: "n \<le> 2 ^ 63 div 1000000000 \<longleftrightarrow> n * 1000000000 \<le> 2 ^ 63"
    by (rule less_eq_div_iff_mult_less_eq) simp
  show ?thesis
    using lead d s le by (auto simp: parse_component_def Let_def not_le simp del: leadingInt.simps)
qed

lemma ParseDuration_seconds:
  "ParseDuration (decimal n @ ''s'') =
     (if n * 1000000000 < 2 ^ 63 then Some (int n * Second) else None)"
proof (cases "n * 1000000000 \<le> 2 ^ 63")
  case True
  then have "(n * 1000000000) mod 2 ^ 64 = n * 1000000000" by simp
  moreover have "decimal n @ ''s'' \<noteq> ''0''" by (cases "decimal n") auto
  ultimately show ?thesis
    using True by (auto simp: ParseDuration_def parse_components.simps [of _ "_ @ _"]
        parse_components.simps [of _ "[]"] parse_component_seconds Second_def)
next
  case False
  moreover have "decimal n @ ''s'' \<noteq> ''0''" by (cases "decimal n") auto
  ultimately show ?thesis
    by (auto simp: ParseDuration_def parse_components.simps [of _ "_ @ _"] parse_component_seconds)
qed

end
