(* ===== verification/Redis.thy ===== *)
theory Redis
  imports Transactions Go_Float
begin

text \<open>
  The commands of Redis that the program sends, on a store of numbers with an optional time
  of expiry, lists of numbers, and the messages that were published. Times of the server
  are milliseconds. Numbers are stored as text that reads back as the same number: integers
  in decimal and floats with the digits that determine them.

  A call to the server may fail before it takes effect or after, as a statement of
  PostgreSQL may. A pipeline is one call.
\<close>

record redis =
  numbers :: "string \<Rightarrow> (rat \<times> int option) option"
  number_lists :: "string \<Rightarrow> rat list"
  published :: "(string \<times> string) list"

definition empty_redis :: redis where
  "empty_redis = \<lparr>numbers = (\<lambda>_. None), number_lists = (\<lambda>_. []), published = []\<rparr>"

text \<open>A key is gone once the clock of the server has passed its time of expiry.\<close>

definition live :: "int \<Rightarrow> (rat \<times> int option) option \<Rightarrow> (rat \<times> int option) option" where
  "live rnow e = (case e of
       None \<Rightarrow> None
     | Some (v, t) \<Rightarrow> (case t of None \<Rightarrow> Some (v, t) | Some u \<Rightarrow> if u < rnow then None else Some (v, t)))"

definition GET :: "int \<Rightarrow> string \<Rightarrow> redis \<Rightarrow> rat option" where
  "GET rnow key R = map_option fst (live rnow (numbers R key))"

definition SET_EX :: "int \<Rightarrow> string \<Rightarrow> rat \<Rightarrow> int \<Rightarrow> redis \<Rightarrow> redis" where
  "SET_EX rnow key v secs R = R\<lparr>numbers := (numbers R)(key \<mapsto> (v, Some (rnow + secs * 1000)))\<rparr>"

text \<open>\<open>INCR\<close> leaves a value alone that is not an integer below the largest of 64 bits.\<close>

definition INCR :: "int \<Rightarrow> string \<Rightarrow> redis \<Rightarrow> redis" where
  "INCR rnow key R = (case live rnow (numbers R key) of
       None \<Rightarrow> R\<lparr>numbers := (numbers R)(key \<mapsto> (1, None))\<rparr>
     | Some (v, t) \<Rightarrow>
         if of_int \<lfloor>v\<rfloor> = v \<and> v < 2 ^ 63 - 1 then R\<lparr>numbers := (numbers R)(key \<mapsto> (v + 1, t))\<rparr> else R)"

definition EXPIRE :: "int \<Rightarrow> string \<Rightarrow> int \<Rightarrow> redis \<Rightarrow> redis" where
  "EXPIRE rnow key secs R = R\<lparr>numbers := (numbers R)(key :=
     map_option (\<lambda>(v, _). (v, Some (rnow + secs * 1000))) (live rnow (numbers R key)))\<rparr>"

definition LPUSH :: "string \<Rightarrow> rat \<Rightarrow> redis \<Rightarrow> redis" where
  "LPUSH key v R = R\<lparr>number_lists := (number_lists R)(key := v # number_lists R key)\<rparr>"

text \<open>The program's ranges start at 0 and end at a position counted from the front.\<close>

definition LTRIM0 :: "string \<Rightarrow> nat \<Rightarrow> redis \<Rightarrow> redis" where
  "LTRIM0 key stop R = R\<lparr>number_lists := (number_lists R)(key := take (Suc stop) (number_lists R key))\<rparr>"

definition LRANGE0 :: "string \<Rightarrow> nat \<Rightarrow> redis \<Rightarrow> rat list" where
  "LRANGE0 key stop R = take (Suc stop) (number_lists R key)"

definition PUBLISH :: "string \<Rightarrow> string \<Rightarrow> redis \<Rightarrow> redis" where
  "PUBLISH channel message R = R\<lparr>published := published R @ [(channel, message)]\<rparr>"

definition redis_call :: "fault \<Rightarrow> (redis \<Rightarrow> 'a \<times> redis) \<Rightarrow> redis \<Rightarrow> (error + 'a) \<times> redis" where
  "redis_call f act R = (case f of
       NoFault \<Rightarrow> (case act R of (a, R') \<Rightarrow> (Inr a, R'))
     | Refused m \<Rightarrow> (Inl (ErrDriver m), R)
     | ReplyLost m \<Rightarrow> (Inl (ErrDriver m), snd (act R)))"

lemma GET_SET_EX [simp]:
  "GET rnow' key (SET_EX rnow key v secs R) = (if rnow + secs * 1000 < rnow' then None else Some v)"
  "key \<noteq> key' \<Longrightarrow> GET rnow' key (SET_EX rnow key' v secs R) = GET rnow' key R"
  by (simp_all add: GET_def SET_EX_def live_def)

lemma number_lists_simps [simp]:
  "number_lists (SET_EX rnow key v secs R) = number_lists R"
  "number_lists (EXPIRE rnow key secs R) = number_lists R"
  by (simp_all add: SET_EX_def EXPIRE_def)

lemma number_lists_INCR [simp]: "number_lists (INCR rnow key R) = number_lists R"
  by (auto simp: INCR_def split: option.splits)

lemma numbers_simps [simp]:
  "numbers (LPUSH key v R) = numbers R"
  "numbers (LTRIM0 key stop R) = numbers R"
  by (simp_all add: LPUSH_def LTRIM0_def)

lemma GET_INCR:
  assumes "\<And>v. GET rnow key R = Some v \<Longrightarrow> of_int \<lfloor>v\<rfloor> = v \<and> v < 2 ^ 63 - 1"
  shows "GET rnow key (INCR rnow key R) = Some (case GET rnow key R of None \<Rightarrow> 1 | Some v \<Rightarrow> v + 1)"
  using assms by (auto simp: GET_def INCR_def live_def split: option.splits if_splits)

lemma GET_INCR_other [simp]: "key \<noteq> key' \<Longrightarrow> GET rnow key (INCR rnow' key' R) = GET rnow key R"
  by (auto simp: GET_def INCR_def split: option.splits)

lemma GET_EXPIRE [simp]:
  "0 \<le> secs \<Longrightarrow> GET rnow key (EXPIRE rnow key' secs R) = GET rnow key R"
  by (auto simp: GET_def EXPIRE_def live_def split: option.splits)

lemma GET_lists [simp]:
  "GET rnow key (LPUSH key' v R) = GET rnow key R"
  "GET rnow key (LTRIM0 key' stop R) = GET rnow key R"
  by (simp_all add: GET_def)

end
