(* ===== verification/Metrics.thy ===== *)
theory Metrics
  imports Redis Queue_Ops Go_Time
begin

text \<open>
  \<open>src/internal/metrics/metrics.go\<close>: the Prometheus instruments of a process, the
  recorder that keeps recent statistics in Redis, and the snapshot that the API shows.

  An instrument is what was recorded in it: a counter per label values, the observations of
  a histogram, the last value of a gauge. The commands of a pipeline are sent together and
  nobody looks at their outcome: \<open>reached\<close> is the number of them that took effect. The reads
  of a snapshot go to different keys: \<open>answered\<close> says for which the server replied.
\<close>

record instruments =
  JobsEnqueued :: "string \<times> string \<Rightarrow> int"
  JobsCompleted :: "string \<times> string \<Rightarrow> int"
  JobDuration :: "string \<Rightarrow> rat list"
  QueueDepth :: "string \<Rightarrow> rat option"
  EnqueueLatency :: "rat list"

definition no_records :: instruments where
  "no_records = \<lparr>JobsEnqueued = (\<lambda>_. 0), JobsCompleted = (\<lambda>_. 0), JobDuration = (\<lambda>_. []),
     QueueDepth = (\<lambda>_. None), EnqueueLatency = []\<rparr>"

record Snapshot =
  sn_Queue :: string
  sn_Depth :: int
  ThroughputPerSec :: rat
  TotalProcessed :: int
  P50EnqueueLatency :: rat
  P95EnqueueLatency :: rat
  P99EnqueueLatency :: rat
  SampledAt :: time

section \<open>Durations and numbers\<close>

text \<open>\<open>Duration.Microseconds\<close>\<close>

definition Microseconds :: "duration \<Rightarrow> int" where
  "Microseconds d = go_quot d 1000"

definition FormatInt :: "int \<Rightarrow> string" where
  "FormatInt n = (if n < 0 then CHR ''-'' # decimal (nat (- n)) else decimal (nat n))"

text \<open>\<open>Int64()\<close> on the reply of a \<open>GET\<close>: 0 when there is no integer.\<close>

definition Int64_reply :: "rat option \<Rightarrow> int" where
  "Int64_reply v = (case v of None \<Rightarrow> 0 | Some r \<Rightarrow> if of_int \<lfloor>r\<rfloor> = r then \<lfloor>r\<rfloor> else 0)"

section \<open>Recording\<close>

definition pipe_Exec :: "nat \<Rightarrow> (redis \<Rightarrow> redis) list \<Rightarrow> redis \<Rightarrow> redis" where
  "pipe_Exec reached cmds R = fold (\<lambda>cmd. cmd) (take reached cmds) R"

definition latency_key :: "string \<Rightarrow> string" where
  "latency_key queue = ''forge:latency:'' @ queue"

definition completed_key :: "string \<Rightarrow> string \<Rightarrow> string" where
  "completed_key queue status = ''forge:completed:'' @ queue @ '':'' @ status"

definition throughput_key :: "string \<Rightarrow> int \<Rightarrow> string" where
  "throughput_key queue second = ''forge:throughput:'' @ queue @ '':'' @ FormatInt second"

text \<open>\<open>has_redis\<close>: neither the recorder nor its client is nil.\<close>

definition RecordEnqueue ::
  "bool \<Rightarrow> nat \<Rightarrow> int \<Rightarrow> string \<Rightarrow> string \<Rightarrow> duration \<Rightarrow> instruments \<times> redis \<Rightarrow> instruments \<times> redis" where
  "RecordEnqueue has_redis reached rnow queue tenant latency = (\<lambda>(I, R).
     (let I = I\<lparr>JobsEnqueued := (JobsEnqueued I)((queue, tenant) := JobsEnqueued I (queue, tenant) + 1)\<rparr>;
          I = I\<lparr>EnqueueLatency := EnqueueLatency I @ [Seconds latency]\<rparr>
      in if \<not> has_redis then (I, R)
         else (let ms = f64_round (f64_round (of_int (Microseconds latency)) / 1000)
               in (I, pipe_Exec reached
                 [LPUSH (latency_key queue) ms,
                  LTRIM0 (latency_key queue) 1999,
                  INCR rnow (''forge:enqueued:'' @ queue)] R))))"

definition RecordComplete ::
  "bool \<Rightarrow> nat \<Rightarrow> int \<Rightarrow> int \<Rightarrow> string \<Rightarrow> string \<Rightarrow> duration \<Rightarrow> instruments \<times> redis \<Rightarrow> instruments \<times> redis" where
  "RecordComplete has_redis reached rnow second queue status duration = (\<lambda>(I, R).
     (let I = I\<lparr>JobsCompleted := (JobsCompleted I)((queue, status) := JobsCompleted I (queue, status) + 1)\<rparr>;
          I = I\<lparr>JobDuration := (JobDuration I)(queue := JobDuration I queue @ [Seconds duration])\<rparr>
      in if \<not> has_redis then (I, R)
         else (I, pipe_Exec reached
           [INCR rnow (completed_key queue status),
            INCR rnow (throughput_key queue second),
            EXPIRE rnow (throughput_key queue second) 300] R)))"

section \<open>Snapshots\<close>

text \<open>\<open>None\<close> is an index out of range, which panics.\<close>

definition percentile :: "rat list \<Rightarrow> rat \<Rightarrow> rat option" where
  "percentile values p =
     (if length values = 0 then Some 0
      else (let idx = trunc (f64_round (f64_round (of_nat (length values - 1)) * p)) in
            if 0 \<le> idx \<and> idx < int (length values) then Some (values ! nat idx) else None))"

text \<open>The integer at a key, 0 when the read fails.\<close>

definition read_count :: "(string \<Rightarrow> bool) \<Rightarrow> int \<Rightarrow> redis \<Rightarrow> string \<Rightarrow> int" where
  "read_count answered rnow R key = (if answered key then Int64_reply (GET rnow key R) else 0)"

text \<open>\<open>total += value\<close> over a list of keys.\<close>

definition sum_counts :: "(string \<Rightarrow> bool) \<Rightarrow> int \<Rightarrow> redis \<Rightarrow> string list \<Rightarrow> int" where
  "sum_counts answered rnow R keys = foldl (\<lambda>n key. int64 (n + read_count answered rnow R key)) 0 keys"

definition throughput_total :: "(string \<Rightarrow> bool) \<Rightarrow> int \<Rightarrow> string \<Rightarrow> int \<Rightarrow> redis \<Rightarrow> int" where
  "throughput_total answered rnow queue now R =
     sum_counts answered rnow R (map (\<lambda>i. throughput_key queue (now - int i)) [0..<60])"

definition processed_total :: "(string \<Rightarrow> bool) \<Rightarrow> int \<Rightarrow> string \<Rightarrow> redis \<Rightarrow> int" where
  "processed_total answered rnow queue R =
     sum_counts answered rnow R (map (completed_key queue) [''succeeded'', ''dead'', ''failed''])"



definition take_snapshot ::
  "bool \<Rightarrow> (string \<Rightarrow> bool) \<Rightarrow> int \<Rightarrow> time \<Rightarrow> int \<Rightarrow> string \<Rightarrow> int \<Rightarrow> instruments \<times> redis \<Rightarrow>
   Snapshot option \<times> instruments" where
  "take_snapshot has_redis answered rnow sampled now queue depth = (\<lambda>(I, R).
     (let snap = \<lparr>sn_Queue = queue, sn_Depth = depth, ThroughputPerSec = 0, TotalProcessed = 0,
            P50EnqueueLatency = 0, P95EnqueueLatency = 0, P99EnqueueLatency = 0, SampledAt = sampled\<rparr>;
          I = I\<lparr>QueueDepth := (QueueDepth I)(queue \<mapsto> f64_round (of_int depth))\<rparr>
      in if \<not> has_redis then (Some snap, I)
         else (let latencies = (if answered (latency_key queue) then LRANGE0 (latency_key queue) 1999 R else []);
                   values = sort latencies
               in (case (percentile values (f64_round (50 / 100)), percentile values (f64_round (95 / 100)),
                         percentile values (f64_round (99 / 100))) of
                     (Some p50, Some p95, Some p99) \<Rightarrow>
                       (Some (snap\<lparr>P50EnqueueLatency := p50, P95EnqueueLatency := p95, P99EnqueueLatency := p99,
                          ThroughputPerSec :=
                            f64_round (f64_round (of_int (throughput_total answered rnow queue now R)) / 60),
                          TotalProcessed := processed_total answered rnow queue R\<rparr>), I)
                   | _ \<Rightarrow> (None, I)))))"

section \<open>The depth sampler\<close>

text \<open>One tick of \<open>StartDepthSampler\<close>: the gauge of a queue keeps its value when the query fails.\<close>

fun sample_depths :: "string list \<Rightarrow> instruments \<Rightarrow> (pg, instruments) state" where
  "sample_depths [] I = State_Monad.return I"
| "sample_depths (queue # queues) I = do {
     r \<leftarrow> stmt (\<lambda>d. Inr (sql_count (\<lambda>j. Queue j = queue \<and> Status j = Ready) (jobs d), d));
     sample_depths queues (case r of
         Inl e \<Rightarrow> I
       | Inr depth \<Rightarrow> I\<lparr>QueueDepth := (QueueDepth I)(queue \<mapsto> f64_round (of_int depth))\<rparr>) }"

section \<open>Percentiles\<close>

lemma trunc_floor: "0 \<le> r \<Longrightarrow> trunc r = \<lfloor>r\<rfloor>"
  by (simp add: trunc_def)

text \<open>The index is between 0 and the last position, and grows with the percentage.\<close>

definition rank :: "nat \<Rightarrow> rat \<Rightarrow> nat" where
  "rank n p = nat (trunc (f64_round (f64_round (of_nat (n - 1)) * p)))"

lemma rank_le:
  assumes "0 < n" "n \<le> 2 ^ 53" "0 \<le> p" "p \<le> 1"
  shows "rank n p < n" and "0 \<le> trunc (f64_round (f64_round (of_nat (n - 1)) * p))"
proof -
  have len: "f64_round (of_nat (n - 1)) = (of_nat (n - 1) :: rat)"
    using f64_round_of_int [of "int (n - 1)"] assms(1,2) by simp
  have "f64_round (of_nat (n - 1) * p) \<le> f64_round (of_nat (n - 1))"
    using assms(3,4) by (intro f64_round_mono) (auto simp: mult_left_le)
  then have le: "f64_round (of_nat (n - 1) * p) \<le> of_nat (n - 1)" unfolding len .
  have nonneg: "0 \<le> f64_round (of_nat (n - 1) * p)"
    using assms(3) by (intro f64_round_nonneg) simp
  then show "0 \<le> trunc (f64_round (f64_round (of_nat (n - 1)) * p))"
    unfolding len by (simp add: trunc_floor)
  have "\<lfloor>f64_round (of_nat (n - 1) * p)\<rfloor> \<le> int (n - 1)"
    using floor_mono [OF le] by simp
  then show "rank n p < n"
    using assms(1) nonneg unfolding rank_def len by (simp add: trunc_floor nat_less_iff)
qed

lemma rank_mono:
  assumes "0 \<le> p" "p \<le> q"
  shows "rank n p \<le> rank n q"
proof -
  have "0 \<le> f64_round (of_nat (n - 1))" by (intro f64_round_nonneg) simp
  then have "f64_round (f64_round (of_nat (n - 1)) * p) \<le> f64_round (f64_round (of_nat (n - 1)) * q)"
    "0 \<le> f64_round (f64_round (of_nat (n - 1)) * p)"
    using assms by (auto intro!: f64_round_mono f64_round_nonneg mult_left_mono)
  then show ?thesis
    unfolding rank_def by (intro nat_mono) (simp add: trunc_floor floor_mono)
qed

lemma percentile_rank:
  assumes "length vs \<le> 2 ^ 53" "0 \<le> p" "p \<le> 1"
  shows "percentile vs p = Some (if vs = [] then 0 else vs ! rank (length vs) p)"
proof (cases "vs = []")
  case False
  define k where "k = trunc (f64_round (f64_round (of_nat (length vs - 1)) * p))"
  have "nat k < length vs" "0 \<le> k"
    using rank_le [OF _ assms, folded k_def rank_def, unfolded rank_def, folded k_def] False by auto
  with False show ?thesis
    unfolding percentile_def rank_def Let_def k_def [symmetric] by (simp add: nat_less_iff)
qed (simp add: percentile_def)

lemma percent_floats:
  "0 \<le> f64_round (50 / 100)" "f64_round (50 / 100) \<le> f64_round (95 / 100)"
  "f64_round (95 / 100) \<le> f64_round (99 / 100)" "f64_round (99 / 100) \<le> 1"
proof -
  show "f64_round (99 / 100) \<le> 1"
    using f64_round_mono [of "99 / 100" 1] f64_round_of_int [of 1] by simp
qed (auto intro!: f64_round_mono f64_round_nonneg)

lemma take_snapshot_redis:
  obtains p50 p95 p99 where
    "take_snapshot True answered rnow sampled now queue depth (I, R) =
      (Some \<lparr>sn_Queue = queue, sn_Depth = depth,
         ThroughputPerSec = f64_round (f64_round (of_int (throughput_total answered rnow queue now R)) / 60),
         TotalProcessed = processed_total answered rnow queue R,
         P50EnqueueLatency = p50, P95EnqueueLatency = p95, P99EnqueueLatency = p99, SampledAt = sampled\<rparr>,
       I\<lparr>QueueDepth := (QueueDepth I)(queue \<mapsto> f64_round (of_int depth))\<rparr>)"
    "p50 \<le> p95" "p95 \<le> p99"
    "answered (latency_key queue) \<Longrightarrow> LRANGE0 (latency_key queue) 1999 R \<noteq> [] \<Longrightarrow>
       {p50, p95, p99} \<subseteq> set (LRANGE0 (latency_key queue) 1999 R)"
proof -
  define vs where "vs = sort (if answered (latency_key queue) then LRANGE0 (latency_key queue) 1999 R else [])"
  define pc where "pc p = (if vs = [] then 0 else vs ! rank (length vs) p)" for p
  note f = percent_floats
  have "length vs \<le> 2000" by (simp add: vs_def LRANGE0_def)
  then have len: "length vs \<le> 2 ^ 53" by simp
  have perc: "percentile vs p = Some (pc p)" if "0 \<le> p" "p \<le> 1" for p
    using percentile_rank [OF len that] by (simp add: pc_def)
  have sorted: "sorted vs" by (simp add: vs_def)
  have mono: "pc p \<le> pc q" if "0 \<le> p" "p \<le> q" "q \<le> 1" for p q
    using sorted_nth_mono [OF sorted, of "rank (length vs) p" "rank (length vs) q"] rank_mono [OF that(1,2)]
      rank_le(1) [of "length vs" q] len that by (auto simp: pc_def)
  have mem: "pc p \<in> set vs" if "vs \<noteq> []" "0 \<le> p" "p \<le> 1" for p
    using that rank_le(1) [of "length vs" p] len by (simp add: pc_def)
  have in01: "0 \<le> f64_round (50 / 100)" "f64_round (50 / 100) \<le> 1" "0 \<le> f64_round (95 / 100)"
    "f64_round (95 / 100) \<le> 1" "0 \<le> f64_round (99 / 100)" "f64_round (99 / 100) \<le> 1"
    using f by auto
  show ?thesis
  proof
    show "take_snapshot True answered rnow sampled now queue depth (I, R) =
      (Some \<lparr>sn_Queue = queue, sn_Depth = depth,
         ThroughputPerSec = f64_round (f64_round (of_int (throughput_total answered rnow queue now R)) / 60),
         TotalProcessed = processed_total answered rnow queue R,
         P50EnqueueLatency = pc (f64_round (50 / 100)), P95EnqueueLatency = pc (f64_round (95 / 100)),
         P99EnqueueLatency = pc (f64_round (99 / 100)), SampledAt = sampled\<rparr>,
       I\<lparr>QueueDepth := (QueueDepth I)(queue \<mapsto> f64_round (of_int depth))\<rparr>)"
      unfolding take_snapshot_def Let_def prod.case vs_def [symmetric]
      by (simp only: perc [OF in01(1,2)] perc [OF in01(3,4)] perc [OF in01(5,6)]) simp
    show "pc (f64_round (50 / 100)) \<le> pc (f64_round (95 / 100))"
      "pc (f64_round (95 / 100)) \<le> pc (f64_round (99 / 100))"
      by (intro mono f in01)+
    assume "answered (latency_key queue)" "LRANGE0 (latency_key queue) 1999 R \<noteq> []"
    then have "vs \<noteq> []" "set vs = set (LRANGE0 (latency_key queue) 1999 R)"
      by (simp_all add: vs_def) (metis set_empty set_sort)
    with mem in01 show "{pc (f64_round (50 / 100)), pc (f64_round (95 / 100)), pc (f64_round (99 / 100))}
        \<subseteq> set (LRANGE0 (latency_key queue) 1999 R)"
      by auto
  qed
qed

text \<open>
  C37: a snapshot is always produced. Whatever Redis holds and whichever reads fail, no index
  leaves the sample, the three percentiles are in order, and when the latencies were read
  each of them is one of the latencies.\<close>

theorem Snapshot_percentiles:
  "\<exists>snap. fst (take_snapshot has_redis answered rnow sampled now queue depth (I, R)) = Some snap \<and>
     sn_Queue snap = queue \<and> sn_Depth snap = depth \<and>
     P50EnqueueLatency snap \<le> P95EnqueueLatency snap \<and>
     P95EnqueueLatency snap \<le> P99EnqueueLatency snap \<and>
     (has_redis \<and> answered (latency_key queue) \<and> LRANGE0 (latency_key queue) 1999 R \<noteq> [] \<longrightarrow>
       {P50EnqueueLatency snap, P95EnqueueLatency snap, P99EnqueueLatency snap}
         \<subseteq> set (LRANGE0 (latency_key queue) 1999 R))"
proof (cases has_redis)
  case True
  show ?thesis
    by (rule take_snapshot_redis [of answered rnow sampled now queue depth I R]) (simp add: True)
qed (simp add: take_snapshot_def)

lemma Snapshot_percentiles_witness:
  "\<exists>snap. fst (take_snapshot True (\<lambda>_. True) 0 0 0 ''default'' 3
       (no_records, empty_redis\<lparr>number_lists := (\<lambda>_. [7, 5])\<rparr>)) = Some snap \<and>
     P50EnqueueLatency snap \<in> {5, 7}"
  using Snapshot_percentiles [of True "\<lambda>_. True" 0 0 0 "''default''" 3 no_records "empty_redis\<lparr>number_lists := (\<lambda>_. [7, 5])\<rparr>"]
  by (auto simp: LRANGE0_def)

section \<open>Counting completions\<close>

lemma sum_counts_int64:
  "keys \<noteq> [] \<Longrightarrow> sum_counts answered rnow R keys = int64 (\<Sum>key\<leftarrow>keys. read_count answered rnow R key)"
proof (induction keys rule: rev_induct)
  case (snoc key keys)
  then show ?case
    by (cases "keys = []") (simp_all add: sum_counts_def int64_add)
qed simp

lemma sum_list_bump:
  fixes f g :: "'a \<Rightarrow> int"
  assumes "distinct xs" "x \<in> set xs" "g x = f x + 1" "\<And>y. y \<in> set xs \<Longrightarrow> y \<noteq> x \<Longrightarrow> g y = f y"
  shows "(\<Sum>y\<leftarrow>xs. g y) = (\<Sum>y\<leftarrow>xs. f y) + 1"
  using assms
proof (induction xs)
  case (Cons y ys)
  show ?case
  proof (cases "x = y")
    case True
    with Cons.prems have same: "map g ys = map f ys" by (intro map_cong) auto
    from True Cons.prems show ?thesis by (simp add: same)
  next
    case False
    with Cons show ?thesis by simp
  qed
qed simp

lemma sum_counts_bump:
  assumes "distinct keys" "key \<in> set keys"
    and "read_count answered rnow R' key = read_count answered rnow R key + 1"
    and "\<And>k. k \<in> set keys \<Longrightarrow> k \<noteq> key \<Longrightarrow> read_count answered rnow R' k = read_count answered rnow R k"
  shows "sum_counts answered rnow R' keys = int64 (sum_counts answered rnow R keys + 1)"
proof -
  have "keys \<noteq> []" using assms(2) by auto
  then show ?thesis
    using sum_list_bump [OF assms(1,2), of "read_count answered rnow R'" "read_count answered rnow R"] assms(3,4)
    by (simp add: sum_counts_int64 int64_add)
qed

lemma sum_counts_cong:
  "(\<And>k. k \<in> set keys \<Longrightarrow> read_count answered rnow R' k = read_count answered rnow R k) \<Longrightarrow>
   sum_counts answered rnow R' keys = sum_counts answered rnow R keys"
  unfolding sum_counts_def by (rule foldl_cong) auto

lemma sum_counts_if:
  assumes "distinct keys" "key \<in> set keys \<longleftrightarrow> b"
    and "read_count answered rnow R' key = read_count answered rnow R key + 1"
    and "\<And>k. k \<in> set keys \<Longrightarrow> k \<noteq> key \<Longrightarrow> read_count answered rnow R' k = read_count answered rnow R k"
  shows "sum_counts answered rnow R' keys =
    (if b then int64 (sum_counts answered rnow R keys + 1) else sum_counts answered rnow R keys)"
proof (cases b)
  case True
  with assms show ?thesis by (simp add: sum_counts_bump)
next
  case False
  with assms(2) have "key \<notin> set keys" by simp
  then have "read_count answered rnow R' k = read_count answered rnow R k" if "k \<in> set keys" for k
    using that assms(4) [OF that] by blast
  from sum_counts_cong [OF this] False show ?thesis by simp
qed

lemma append_last_sep:
  assumes "c \<notin> set s" "c \<notin> set s'"
  shows "xs @ c # s = ys @ c # s' \<longleftrightarrow> xs = ys \<and> s = s'"
proof
  have tail: "takeWhile (\<lambda>x. x \<noteq> c) (rev (zs @ c # t)) = rev t" if "c \<notin> set t" for zs t
    using that takeWhile_append2 [of "rev t" "\<lambda>x. x \<noteq> c" "c # rev zs"] by auto
  assume eq: "xs @ c # s = ys @ c # s'"
  then have "rev s = rev s'" using tail [OF assms(1), of xs] tail [OF assms(2), of ys] by simp
  with eq show "xs = ys \<and> s = s'" by simp
qed simp

lemma decimal_inj: "decimal m = decimal n \<longleftrightarrow> m = n"
  by (metis digits_value_decimal)

lemma decimal_char: "c \<in> set (decimal n) \<Longrightarrow> c \<noteq> CHR ''-'' \<and> c \<noteq> CHR '':''"
proof -
  have "(of_char (digit k) :: nat) \<noteq> of_char CHR '':''" for k
    using mod_less_divisor [of 10 k] by (simp del: mod_less_divisor)
  then show "c \<in> set (decimal n) \<Longrightarrow> c \<noteq> CHR ''-'' \<and> c \<noteq> CHR '':''"
    using decimal_digits digit_not_dash by metis
qed

lemma FormatInt_colon: "CHR '':'' \<notin> set (FormatInt n)"
  using decimal_char by (auto simp: FormatInt_def)

lemma FormatInt_inj: "FormatInt m = FormatInt n \<longleftrightarrow> m = n"
proof -
  have "decimal k \<noteq> CHR ''-'' # xs" for k xs
    using decimal_char by (metis list.set_intros(1))
  then show ?thesis
    by (auto simp: FormatInt_def decimal_inj nat_eq_iff2 eq_commute [of "CHR ''-'' # _"] split: if_splits)
qed

lemma throughput_key_inj: "throughput_key q s = throughput_key q' s' \<longleftrightarrow> q = q' \<and> s = s'"
  by (simp add: throughput_key_def append_last_sep FormatInt_colon FormatInt_inj)

abbreviation (input) final_status :: "string \<Rightarrow> bool" where
  "final_status s \<equiv> s \<in> set [''succeeded'', ''dead'', ''failed'']"

lemma completed_key_inj:
  "final_status s \<Longrightarrow> final_status s' \<Longrightarrow> completed_key q s = completed_key q' s' \<longleftrightarrow> q = q' \<and> s = s'"
  unfolding completed_key_def same_append_eq
  using append_last_sep [of "CHR '':''" s s' q q'] by auto

lemma keys_differ [simp]: "completed_key q s \<noteq> throughput_key q' n" "throughput_key q' n \<noteq> completed_key q s"
  by (simp_all add: completed_key_def throughput_key_def)

text \<open>A key that \<open>INCR\<close> can count at: absent, or an integer below the largest.\<close>

definition counter_ok :: "int \<Rightarrow> redis \<Rightarrow> string \<Rightarrow> bool" where
  "counter_ok rnow R key \<longleftrightarrow> (case GET rnow key R of None \<Rightarrow> True | Some v \<Rightarrow> of_int \<lfloor>v\<rfloor> = v \<and> v < 2 ^ 63 - 1)"

lemma read_count_INCR:
  assumes "counter_ok rnow R key"
  shows "read_count (\<lambda>_. True) rnow (INCR rnow key R) key = read_count (\<lambda>_. True) rnow R key + 1"
proof -
  have "GET rnow key (INCR rnow key R) = Some (case GET rnow key R of None \<Rightarrow> 1 | Some v \<Rightarrow> v + 1)"
    using assms by (intro GET_INCR) (auto simp: counter_ok_def)
  then show ?thesis
    using assms floor_add_int [of _ 1]
    by (auto simp: read_count_def Int64_reply_def counter_ok_def split: option.splits)
       (metis of_int_1 of_int_add)+
qed

lemma read_count_cong: "GET rnow k R' = GET rnow k R \<Longrightarrow> read_count answered rnow R' k = read_count answered rnow R k"
  by (simp add: read_count_def)

text \<open>
  Completions are counted once and in the right place. When the pipeline of
  \<open>RecordComplete\<close> takes effect, the total of the queue's next snapshot and, within the
  sixty seconds of the window, its throughput grow by one, and those of every other queue
  stay as they are, whatever characters the names of the queues contain.\<close>

theorem Completion_counted:
  assumes "final_status status" "3 \<le> reached" "now - 60 < second" "second \<le> now"
    and "counter_ok rnow R (completed_key queue status)" "counter_ok rnow R (throughput_key queue second)"
    and "RecordComplete True reached rnow second queue status duration (I, R) = (I', R')"
  shows "(processed_total (\<lambda>_. True) rnow q R' =
      (if q = queue then int64 (processed_total (\<lambda>_. True) rnow q R + 1) else processed_total (\<lambda>_. True) rnow q R)) \<and>
    (throughput_total (\<lambda>_. True) rnow q now R' =
      (if q = queue then int64 (throughput_total (\<lambda>_. True) rnow q now R + 1) else throughput_total (\<lambda>_. True) rnow q now R)) \<and>
    (JobsCompleted I' (queue, status) = JobsCompleted I (queue, status) + 1)"
proof -
  let ?c = "completed_key queue status" and ?t = "throughput_key queue second"
  let ?R1 = "INCR rnow ?c R"
  have R': "R' = EXPIRE rnow ?t 300 (INCR rnow ?t ?R1)" and I': "JobsCompleted I' = (JobsCompleted I)((queue, status) := JobsCompleted I (queue, status) + 1)"
    using assms(2,7) by (auto simp: RecordComplete_def pipe_Exec_def Let_def)
  have part1: "JobsCompleted I' (queue, status) = JobsCompleted I (queue, status) + 1"
    by (simp add: I')
  have get: "GET rnow k R' = GET rnow k (INCR rnow ?t ?R1)" for k by (simp add: R')
  have other: "read_count (\<lambda>_. True) rnow R' k = read_count (\<lambda>_. True) rnow R k" if "k \<noteq> ?c" "k \<noteq> ?t" for k
    using that by (intro read_count_cong) (simp add: get)
  have c: "read_count (\<lambda>_. True) rnow R' ?c = read_count (\<lambda>_. True) rnow R ?c + 1"
    using read_count_INCR [OF assms(5)] by (simp add: read_count_def get)
  have "counter_ok rnow ?R1 ?t" using assms(6) by (simp add: counter_ok_def)
  then have t: "read_count (\<lambda>_. True) rnow R' ?t = read_count (\<lambda>_. True) rnow R ?t + 1"
    using read_count_INCR by (simp add: read_count_def get)
  let ?cs = "map (completed_key q) [''succeeded'', ''dead'', ''failed'']"
  let ?ts = "map (\<lambda>i. throughput_key q (now - int i)) [0..<60]"
  have dc: "distinct ?cs" by (simp add: completed_key_def)
  have dt: "distinct ?ts" by (simp add: distinct_map inj_on_def throughput_key_inj)
  have inc: "?c \<in> set ?cs \<longleftrightarrow> q = queue"
    using assms(1) completed_key_inj [OF assms(1), of _ queue q] unfolding set_map by blast
  have int: "?t \<in> set ?ts \<longleftrightarrow> q = queue"
  proof
    assume "q = queue"
    then have "?t = throughput_key q (now - int (nat (now - second)))" "nat (now - second) \<in> {0..<60}"
      using assms(3,4) by auto
    then show "?t \<in> set ?ts" unfolding set_map set_upt by (rule image_eqI)
  qed (auto simp: throughput_key_inj)
  have part2: "processed_total (\<lambda>_. True) rnow q R' =
      (if q = queue then int64 (processed_total (\<lambda>_. True) rnow q R + 1) else processed_total (\<lambda>_. True) rnow q R)"
    unfolding processed_total_def by (rule sum_counts_if [OF dc inc c other]) auto
  have part3: "throughput_total (\<lambda>_. True) rnow q now R' =
      (if q = queue then int64 (throughput_total (\<lambda>_. True) rnow q now R + 1) else throughput_total (\<lambda>_. True) rnow q now R)"
    unfolding throughput_total_def by (rule sum_counts_if [OF dt int t other]) auto
  show ?thesis
    by (rule conjI [OF part2 conjI [OF part3 part1]])
qed

lemma Completion_counted_witness:
  "processed_total (\<lambda>_. True) 0 ''a:b'' (snd (RecordComplete True 3 0 100 ''a:b'' ''dead'' 0 (no_records, empty_redis))) =
     int64 (processed_total (\<lambda>_. True) 0 ''a:b'' empty_redis + 1)"
proof -
  have "counter_ok 0 empty_redis key" for key
    by (simp add: counter_ok_def empty_redis_def GET_def live_def)
  then show ?thesis
    using Completion_counted [of "''dead''" 3 159 100 0 empty_redis "''a:b''" 0 no_records _ _ "''a:b''"]
    by (cases "RecordComplete True 3 0 100 ''a:b'' ''dead'' 0 (no_records, empty_redis)") simp
qed

end
