(* ===== verification/Worker.thy ===== *)
theory Worker
  imports Job_Lifecycle Metrics Go_Number
begin

text \<open>
  \<open>src/internal/worker/pool.go\<close> and \<open>registry.go\<close>: the slots of a worker process, each a loop
  that claims a job, runs its handler with a heartbeat beside it and reports the outcome, and
  the handlers of the default registry.

  Time inside a handler is the duration since it started. A context is the moment at which
  it is done, with the error it then has, or never done; when it ends at the very moment a
  timer fires, the choice of the \<open>select\<close> is a parameter. Decoding a payload with
  \<open>encoding/json\<close> is a parameter too: the fields it fills in and whether it failed.

  While a handler runs, its heartbeats and all other processes work on the database;
  \<open>execute\<close> takes what they did as the argument \<open>meanwhile\<close>, so its theorems hold for
  every interleaving.
\<close>

section \<open>Handlers\<close>

type_synonym go_err = "string option"

record hctx =
  done_at :: "(duration \<times> string) option"
  done_wins :: bool
  exec_fault :: fault

record payload_decoder =
  decode_sleep :: "string \<Rightarrow> bool \<times> string \<times> int"
  decode_message :: "string \<Rightarrow> string"
  strconv_Quote :: "string \<Rightarrow> string"

text \<open>The table \<open>chaos_results\<close>, which no migration creates: \<open>None\<close> when it does not exist.\<close>

type_synonym chaos_table = "uuid list option"

type_synonym handler = "hctx \<Rightarrow> job \<Rightarrow> chaos_table \<Rightarrow> go_err \<times> chaos_table"

type_synonym Registry = "(string \<times> handler) list"

text \<open>\<open>select { case <-ctx.Done(): return ctx.Err(); case <-timer.C: return nil }\<close>\<close>

definition wait_timer :: "hctx \<Rightarrow> duration \<Rightarrow> go_err" where
  "wait_timer c d = (case done_at c of
       None \<Rightarrow> None
     | Some (t, e) \<Rightarrow> if t < max 0 d \<or> (t = max 0 d \<and> done_wins c) then Some e else None)"

definition echoHandler :: handler where
  "echoHandler c job tab = ((case done_at c of None \<Rightarrow> None | Some (t, e) \<Rightarrow> if t \<le> 0 then Some e else None), tab)"

text \<open>The duration that the fields \<open>duration\<close> and \<open>ms\<close> ask for.\<close>

definition payload_duration :: "duration \<Rightarrow> string \<Rightarrow> int \<Rightarrow> duration" where
  "payload_duration fallback dur ms =
     (let duration = (if dur \<noteq> '''' then (case ParseDuration dur of None \<Rightarrow> fallback | Some parsed \<Rightarrow> parsed)
                      else fallback)
      in if ms > 0 then int64 (ms * Millisecond) else duration)"

definition sleepHandler :: "payload_decoder \<Rightarrow> handler" where
  "sleepHandler D c job tab =
     (let (valid, dur, ms) = decode_sleep D (Payload job);
          duration = (if valid then payload_duration (100 * Millisecond) dur ms else 100 * Millisecond)
      in (wait_timer c duration, tab))"

definition failHandler :: "payload_decoder \<Rightarrow> handler" where
  "failHandler D c job tab =
     (let m = decode_message D (Payload job) in
      (Some (if m = '''' then ''intentional failure'' else m), tab))"

text \<open>\<open>INSERT INTO chaos_results \<dots> ON CONFLICT (job_id) DO NOTHING\<close>\<close>

definition insert_chaos :: "fault \<Rightarrow> uuid \<Rightarrow> chaos_table \<Rightarrow> go_err \<times> chaos_table" where
  "insert_chaos f i tab =
     (let tab' = map_option (\<lambda>rows. if i \<in> set rows then rows else rows @ [i]) tab in
      case f of
        Refused m \<Rightarrow> (Some m, tab)
      | ReplyLost m \<Rightarrow> (Some m, tab')
      | NoFault \<Rightarrow> if tab = None then (Some ''relation chaos_results does not exist'', tab) else (None, tab'))"

definition chaosHandler :: "payload_decoder \<Rightarrow> bool \<Rightarrow> handler" where
  "chaosHandler D has_db c job tab =
     (if \<not> has_db then (Some ''chaos handler requires database'', tab)
      else (let (valid, dur, ms) = decode_sleep D (Payload job);
                duration = payload_duration (8 * Millisecond) dur ms
            in (case insert_chaos (exec_fault c) (ID job) tab of
                  (Some e, tab') \<Rightarrow> (Some e, tab')
                | (None, tab') \<Rightarrow> (wait_timer c duration, tab'))))"

definition DefaultRegistry :: "payload_decoder \<Rightarrow> bool \<Rightarrow> Registry" where
  "DefaultRegistry D has_db =
     [(''echo'', echoHandler), (''sleep'', sleepHandler D), (''fail'', failHandler D),
      (''chaos'', chaosHandler D has_db)]"

section \<open>The pool\<close>

record Pool =
  pl_Queues :: "string list"
  pl_Registry :: "Registry option"
  pl_Concurrency :: int
  pl_WorkerID :: string
  pl_Lease :: duration
  pl_JobTimeout :: duration
  pl_PollInterval :: duration
  pl_ShutdownGrace :: duration
  pl_Events :: bool
  pl_Stats :: bool

text \<open>Each field is defaulted on its own; \<open>defaults\<close> is the default registry over the pool's database.\<close>

definition normalize :: "Registry \<Rightarrow> Pool \<Rightarrow> Pool" where
  "normalize defaults p =
     p\<lparr>pl_Concurrency := (if pl_Concurrency p \<le> 0 then 4 else pl_Concurrency p),
       pl_Queues := (if length (pl_Queues p) = 0 then [''default''] else pl_Queues p),
       pl_WorkerID := (if pl_WorkerID p = '''' then ''worker'' else pl_WorkerID p),
       pl_Lease := (if pl_Lease p \<le> 0 then 10 * Second else pl_Lease p),
       pl_JobTimeout := (if pl_JobTimeout p \<le> 0 then 30 * Second else pl_JobTimeout p),
       pl_PollInterval := (if pl_PollInterval p \<le> 0 then 100 * Millisecond else pl_PollInterval p),
       pl_ShutdownGrace := (if pl_ShutdownGrace p \<le> 0 then 20 * Second else pl_ShutdownGrace p),
       pl_Registry := (case pl_Registry p of None \<Rightarrow> Some defaults | Some r \<Rightarrow> Some r)\<rparr>"

text \<open>The calls that a slot makes to the event bridge and to the recorder, in order.\<close>

datatype worker_event =
    JobStarted job
  | JobFailed job bool duration string duration string
  | JobSucceeded job duration string

datatype side_call = PublishCall worker_event | RecordCompleteCall string string duration

definition publish :: "Pool \<Rightarrow> worker_event \<Rightarrow> side_call list" where
  "publish p e = (if pl_Events p then [PublishCall e] else [])"

definition recordComplete :: "Pool \<Rightarrow> string \<Rightarrow> string \<Rightarrow> duration \<Rightarrow> side_call list" where
  "recordComplete p queueName status duration =
     (if pl_Stats p then [RecordCompleteCall queueName status duration] else [])"

definition lookup_handler :: "payload_decoder \<Rightarrow> Pool \<Rightarrow> string \<Rightarrow> handler" where
  "lookup_handler D p name = (case map_of (case pl_Registry p of None \<Rightarrow> [] | Some reg \<Rightarrow> reg) name of
       Some h \<Rightarrow> h
     | None \<Rightarrow> (\<lambda>c job tab. (Some (''unknown handler '' @ strconv_Quote D name), tab)))"

text \<open>
  \<open>context.WithTimeout(parent, p.JobTimeout)\<close>: done when the parent is or after the timeout,
  whichever comes first.
\<close>

definition job_ctx :: "Pool \<Rightarrow> hctx \<Rightarrow> hctx" where
  "job_ctx p parent = parent\<lparr>done_at :=
     (case done_at parent of
        Some (t, e) \<Rightarrow> if t \<le> pl_JobTimeout p then Some (t, e)
                       else Some (pl_JobTimeout p, ''context deadline exceeded'')
      | None \<Rightarrow> Some (pl_JobTimeout p, ''context deadline exceeded''))\<rparr>"

text \<open>\<open>execute\<close> after the handler returned: \<open>Nack\<close> or \<open>Ack\<close>, then the event and the statistics.\<close>

definition report ::
  "(float64 \<Rightarrow> int) \<Rightarrow> queue_state \<Rightarrow> Pool \<Rightarrow> time \<Rightarrow> duration \<Rightarrow> job \<Rightarrow> go_err \<Rightarrow> (pg, side_call list) state" where
  "report oob q p now duration job err =
     (case err of
        Some message \<Rightarrow> do {
          r \<leftarrow> Nack oob q now (ID job) (pl_WorkerID p) (Some message);
          State_Monad.return (case r of
              Inl nackErr \<Rightarrow> []
            | Inr (updated, dead, delay) \<Rightarrow>
                recordComplete p (Queue updated) (if dead then ''dead'' else ''failed'') duration @
                publish p (JobFailed updated dead delay message duration (pl_WorkerID p))) }
      | None \<Rightarrow> do {
          r \<leftarrow> Ack now (ID job) (pl_WorkerID p);
          State_Monad.return (case r of
              Inl err \<Rightarrow> []
            | Inr updated \<Rightarrow>
                recordComplete p (Queue updated) ''succeeded'' duration @
                publish p (JobSucceeded updated duration (pl_WorkerID p))) })"

definition execute ::
  "(float64 \<Rightarrow> int) \<Rightarrow> payload_decoder \<Rightarrow> queue_state \<Rightarrow> Pool \<Rightarrow> hctx \<Rightarrow> (pg \<Rightarrow> pg) \<Rightarrow> time \<Rightarrow> duration \<Rightarrow> job \<Rightarrow>
   pg \<times> chaos_table \<Rightarrow> side_call list \<times> pg \<times> chaos_table" where
  "execute oob D q p parent meanwhile now duration job = (\<lambda>(s, tab).
     (let started = publish p (JobStarted job);
          (err, tab') = lookup_handler D p (Handler job) (job_ctx p parent) job tab;
          (outs, s') = run_state (report oob q p now duration job err) (meanwhile s)
      in (started @ outs, s', tab')))"

section \<open>Heartbeats\<close>

definition heartbeat_interval :: "Pool \<Rightarrow> duration" where
  "heartbeat_interval p =
     (let interval = go_quot (pl_Lease p) 3 in
      if interval \<le> 0 \<or> interval > 5 * Second then 5 * Second else interval)"

text \<open>
  The heartbeat goroutine: one \<open>ExtendLease\<close> per tick, at the database times \<open>ticks\<close>, until
  its context is done (the end of the list) or a call fails. \<open>others\<close> is what the rest of the
  system does before each tick.
\<close>

fun heartbeat :: "Pool \<Rightarrow> job \<Rightarrow> (time \<times> (pg \<Rightarrow> pg)) list \<Rightarrow> pg \<Rightarrow> pg" where
  "heartbeat p job [] s = s"
| "heartbeat p job ((now, others) # ticks) s =
     (case run_state (ExtendLease now (ID job) (pl_WorkerID p) (pl_Lease p)) (others s) of
        (Inl e, s') \<Rightarrow> s'
      | (Inr _, s') \<Rightarrow> heartbeat p job ticks s')"

section \<open>The loop of a slot\<close>

datatype action = Sleep duration | Executed "side_call list" | Stopped

text \<open>One round of \<open>loop\<close>; \<open>cancelled\<close> is the first \<open>select\<close>.\<close>

definition loop_round ::
  "(float64 \<Rightarrow> int) \<Rightarrow> payload_decoder \<Rightarrow> queue_state \<Rightarrow> Pool \<Rightarrow> bool \<Rightarrow> time \<Rightarrow> (nat \<Rightarrow> uuid) \<Rightarrow> uuid list \<Rightarrow>
   hctx \<Rightarrow> (pg \<Rightarrow> pg) \<Rightarrow> time \<Rightarrow> duration \<Rightarrow> pg \<times> chaos_table \<Rightarrow> action \<times> pg \<times> chaos_table" where
  "loop_round oob D q p cancelled now newids locked parent meanwhile now2 duration = (\<lambda>(s, tab).
     (if cancelled then (Stopped, s, tab)
      else (case run_state (Dequeue now newids locked (pl_Queues p) 1 (pl_WorkerID p) (pl_Lease p)) s of
          (Inl err, s') \<Rightarrow> (Sleep (pl_PollInterval p), s', tab)
        | (Inr [], s') \<Rightarrow> (Sleep (pl_PollInterval p), s', tab)
        | (Inr (job # _), s') \<Rightarrow>
            (case execute oob D q p parent meanwhile now2 duration job (s', tab) of
               (outs, s'', tab') \<Rightarrow> (Executed outs, s'', tab')))))"

section \<open>What a slot does to its job\<close>

text \<open>
  C7: the outcome of one execution, whatever the handler did and whatever happened to the
  database meanwhile, when the connection works. If the job still runs for this worker, a
  handler without error completes it, one with an error returns it to the queue or, without
  budget, buries it, the run is closed accordingly, and the calls to the recorder and the
  event bridge say which of the three it was. If the lease was lost, nothing of the database
  changes and nothing but the start is announced.\<close>

theorem Execute_outcome:
  assumes "working (meanwhile s) = None" "faults (meanwhile s) = []" "db_ok (committed (meanwhile s))"
    and "lookup_handler D p (Handler job) (job_ctx p parent) job tab = (err, tab')"
    and "execute oob D q p parent meanwhile now duration job (s, tab) = (outs, s', tab'')"
  defines "d \<equiv> committed (meanwhile s)" and "w \<equiv> pl_WorkerID p"
  shows "case find (running_for (ID job) w) (jobs d) of
      None \<Rightarrow> outs = publish p (JobStarted job) \<and> s' = meanwhile s
    | Some j \<Rightarrow>
        (case err of
           None \<Rightarrow> run_finished now Succeeded None j (ack_row now j) d (committed s') \<and>
             outs = publish p (JobStarted job) @ recordComplete p (Queue j) ''succeeded'' duration @
               publish p (JobSucceeded (ack_row now j) duration w)
         | Some m \<Rightarrow>
             if Attempts j < MaxAttempts j then
               (let delay = backoff oob q (Attempts j); j' = retry_row now delay m j in
                run_finished now Failed (nullif m '''') j j' d (committed s') \<and>
                dead_letters (committed s') = dead_letters d \<and>
                outs = publish p (JobStarted job) @ recordComplete p (Queue j) ''failed'' duration @
                  publish p (JobFailed j' False delay m duration w))
             else
               (let j' = dead_row now m j in
                run_finished now Dead (nullif m '''') j j' d (committed s') \<and>
                dead_letters (committed s') =
                  dead_letters d @ [\<lparr>d_job_id = ID job, d_dead_at = now, d_reason = Some m\<rparr>] \<and>
                outs = publish p (JobStarted job) @ recordComplete p (Queue j) ''dead'' duration @
                  publish p (JobFailed j' True 0 m duration w)))"
proof -
  obtain outs' where rep: "run_state (report oob q p now duration job err) (meanwhile s) = (outs', s')"
    "outs = publish p (JobStarted job) @ outs'"
    using assms(4,5) by (auto simp: execute_def split: prod.splits)
  have queue [simp]: "Queue (ack_row now j) = Queue j" "Queue (retry_row now dl m j) = Queue j"
    "Queue (dead_row now m j) = Queue j" for j dl m
    by (simp_all add: ack_row_def retry_row_def dead_row_def)
  show ?thesis
  proof (cases "find (running_for (ID job) w) (jobs d)")
    case None
    then have none: "\<forall>j \<in> set (jobs (committed (meanwhile s))). \<not> running_for (ID job) w j"
      by (simp add: find_None_iff d_def)
    show ?thesis
      using rep ack.fault_free [OF assms(1,2)] nack.fault_free [OF assms(1,2)]
      by (auto simp: None report_def w_def [symmetric] ack_refused [OF none] nack_refused [OF none]
          split: option.splits)
  next
    case (Some j)
    then have j: "j \<in> set (jobs (committed (meanwhile s)))" "running_for (ID job) w j"
      by (auto simp: find_Some_iff d_def)
    show ?thesis
    proof (cases err)
      case None
      then show ?thesis
        using rep ack_finishes [OF assms(1-3) j, of now]
        by (auto simp: Some report_def d_def [symmetric] w_def [symmetric])
    next
      case (Some m)
      then show ?thesis
        using rep nack_finishes [OF assms(1-3) j, of oob q now "Some m"]
          \<open>find (running_for (ID job) w) (jobs d) = Some j\<close>
        by (auto simp: report_def d_def [symmetric] w_def [symmetric] Let_def errorString_def split: if_splits)
    qed
  qed
qed

text \<open>A pool for the concrete runs below.\<close>

definition sample_pool :: "string \<Rightarrow> Pool" where
  "sample_pool w =
     \<lparr>pl_Queues = [''default''], pl_Registry = Some [(''echo'', echoHandler)], pl_Concurrency = 4,
      pl_WorkerID = w, pl_Lease = 10 * Second, pl_JobTimeout = 30 * Second, pl_PollInterval = 100 * Millisecond,
      pl_ShutdownGrace = 20 * Second, pl_Events = True, pl_Stats = True\<rparr>"

definition sample_ctx :: hctx where
  "sample_ctx = \<lparr>done_at = None, done_wins = False, exec_fault = NoFault\<rparr>"

definition sample_decoder :: payload_decoder where
  "sample_decoder = \<lparr>decode_sleep = (\<lambda>_. (True, '''', 0)), decode_message = (\<lambda>_. ''''), strconv_Quote = (\<lambda>s. s)\<rparr>"

lemma sample_pool_simps [simp]:
  "pl_WorkerID (sample_pool w) = w" "pl_Events (sample_pool w)" "pl_Stats (sample_pool w)"
  "pl_Lease (sample_pool w) = 10 * Second"
  by (simp_all add: sample_pool_def)

lemma sample_echo:
  "lookup_handler sample_decoder (sample_pool w) ''echo'' (job_ctx (sample_pool w) sample_ctx) job tab = (None, tab)"
  by (simp add: lookup_handler_def sample_pool_def job_ctx_def sample_ctx_def echoHandler_def Second_def)

lemma Execute_outcome_witness:
  "fst (execute (\<lambda>_. 0) sample_decoder (New (\<lambda>_. 0)) (sample_pool ''w1'') sample_ctx (\<lambda>s. s) 60 5
     (sample_job Running) (sample_pg (sample_db Running), None)) =
   [PublishCall (JobStarted (sample_job Running)), RecordCompleteCall ''default'' ''succeeded'' 5,
    PublishCall (JobSucceeded (ack_row 60 (sample_job Running)) 5 ''w1'')]"
proof -
  let ?run = "execute (\<lambda>_. 0) sample_decoder (New (\<lambda>_. 0)) (sample_pool ''w1'') sample_ctx (\<lambda>s. s) 60 5
     (sample_job Running) (sample_pg (sample_db Running), None)"
  obtain outs s' tab' where run: "?run = (outs, s', tab')" by (rule prod_cases3)
  have j: "Handler (sample_job Running) = ''echo''" "running_for 7 ''w1'' (sample_job Running)"
    "Queue (sample_job Running) = ''default''"
    by (simp_all add: sample_job_def running_for_def)
  have "outs = publish (sample_pool ''w1'') (JobStarted (sample_job Running)) @
      recordComplete (sample_pool ''w1'') ''default'' ''succeeded'' 5 @
      publish (sample_pool ''w1'') (JobSucceeded (ack_row 60 (sample_job Running)) 5 ''w1'')"
    using Execute_outcome [OF _ _ _ _ run] by (simp add: sample_db_ok j sample_echo)
  then show ?thesis by (simp add: run publish_def recordComplete_def)
qed

text \<open>
  The slots of one pool are one worker to the database. When a slot has lost the lease of
  a job and another slot of the same pool has claimed it again, the report of the first slot
  is accepted as if it came from the second: the job becomes succeeded and the run of the
  second attempt is closed, and whatever the second slot then reports is dropped.\<close>

theorem Slots_share_identity:
  assumes "working s = None" "faults s = []" "db_ok (committed s)"
    and "j \<in> set (jobs (committed s))" "running_for (ID j) (pl_WorkerID p) j" "ID stale = ID j"
    and "run_state (report oob q p now duration stale None) s = (outs1, s1)"
    and "run_state (report oob q p now2 duration2 j err) s1 = (outs2, s2)"
  shows "run_finished now Succeeded None j (ack_row now j) (committed s) (committed s1) \<and>
    outs1 = recordComplete p (Queue j) ''succeeded'' duration @
      publish p (JobSucceeded (ack_row now j) duration (pl_WorkerID p)) \<and>
    outs2 = [] \<and>
    s2 = s1"
proof (intro conjI)
  let ?w = "pl_WorkerID p"
  have queue: "Queue (ack_row now j) = Queue j" by (simp add: ack_row_def)
  obtain s' where ack: "run_state (Ack now (ID j) ?w) s = (Inr (ack_row now j), s')"
    "run_finished now Succeeded None j (ack_row now j) (committed s) (committed s')"
    using ack_finishes [OF assms(1-5)] by blast
  then have s1: "s' = s1" and outs1: "outs1 = recordComplete p (Queue j) ''succeeded'' duration @
      publish p (JobSucceeded (ack_row now j) duration ?w)"
    using assms(6,7) by (auto simp: report_def queue)
  then show "run_finished now Succeeded None j (ack_row now j) (committed s) (committed s1)"
    "outs1 = recordComplete p (Queue j) ''succeeded'' duration @
      publish p (JobSucceeded (ack_row now j) duration ?w)"
    using ack(2) by simp_all
  note clean = ack.closed [OF assms(1) ack(1)] atomicD(6) [OF ack.atomic assms(1) ack(1) assms(2)]
  have ok: "db_ok (committed s')" using ack_preserves [OF assms(3) ack.success [OF assms(1) ack(1)]] .
  have "find_job (ID j) (committed s') = Some (ack_row now j)" using ack(2) by (simp add: run_finished_def)
  then have "\<forall>x \<in> set (jobs (committed s')). \<not> running_for (ID j) ?w x"
    using find_job_eq [OF db_okD(1) [OF ok], of "ID j"] by (metis option.inject row_simps(1) running_for_def status.distinct(9))
  note refused = ack_refused [OF this] nack_refused [OF this]
  show "outs2 = []" "s2 = s1"
    using assms(8) ack.fault_free [OF clean] nack.fault_free [OF clean] refused
    by (auto simp: report_def s1 split: option.splits)
qed

lemma Slots_share_identity_witness:
  "snd (run_state (report (\<lambda>_. 0) (New (\<lambda>_. 0)) (sample_pool ''w1'') 61 9 (sample_job Running) (Some ''boom''))
     (snd (run_state (report (\<lambda>_. 0) (New (\<lambda>_. 0)) (sample_pool ''w1'') 60 5
       ((sample_job Running)\<lparr>Attempts := 0\<rparr>) None) (sample_pg (sample_db Running))))) =
   snd (run_state (report (\<lambda>_. 0) (New (\<lambda>_. 0)) (sample_pool ''w1'') 60 5
       ((sample_job Running)\<lparr>Attempts := 0\<rparr>) None) (sample_pg (sample_db Running)))"
proof -
  have "running_for 7 ''w1'' (sample_job Running)" by (simp add: sample_job_def running_for_def)
  then show ?thesis
    using Slots_share_identity [OF _ _ _ _ _ _ prod.collapse [symmetric] prod.collapse [symmetric],
        where s = "sample_pg (sample_db Running)" and j = "sample_job Running" and p = "sample_pool ''w1''"
          and stale = "(sample_job Running)\<lparr>Attempts := 0\<rparr>"]
    by (simp add: sample_db_ok)
qed

section \<open>Heartbeats keep the lease\<close>

text \<open>The calls of \<open>Dequeue\<close> that other slots and workers make between two ticks.\<close>

type_synonym dequeue_call = "time \<times> (nat \<Rightarrow> uuid) \<times> uuid list \<times> string list \<times> int \<times> string \<times> duration"

definition run_dequeue :: "dequeue_call \<Rightarrow> pg \<Rightarrow> (error + job list) \<times> pg" where
  "run_dequeue c = (case c of (now, newids, locked, queues, limit, w, lease) \<Rightarrow>
     run_state (Dequeue now newids locked queues limit w lease))"

definition run_dequeues :: "dequeue_call list \<Rightarrow> pg \<Rightarrow> pg" where
  "run_dequeues cs s = fold (\<lambda>c s. snd (run_dequeue c s)) cs s"

text \<open>The job is leased to the worker until \<open>u\<close>, and the connection works.\<close>

definition holds_lease :: "uuid \<Rightarrow> string \<Rightarrow> time \<Rightarrow> pg \<Rightarrow> bool" where
  "holds_lease i w u s \<longleftrightarrow> working s = None \<and> faults s = [] \<and> db_ok (committed s) \<and>
     (\<exists>j \<in> set (jobs (committed s)). leased_to i w j \<and> LockedUntil j = Some u)"

text \<open>
  The beats follow the ticker: each comes at most \<open>heartbeat_interval\<close> and \<open>late\<close> nanoseconds after
  the one before (for the first, after the claim), where \<open>late\<close> bounds the delay of the goroutine
  and of the round trip; database times are microseconds. What the others do before a beat, they
  do at times up to the beat.
\<close>

fun on_schedule :: "Pool \<Rightarrow> duration \<Rightarrow> time \<Rightarrow> (time \<times> dequeue_call list) list \<Rightarrow> bool" where
  "on_schedule p late t0 [] \<longleftrightarrow> True"
| "on_schedule p late t0 ((t, cs) # beats) \<longleftrightarrow>
     1000 * (t - t0) \<le> heartbeat_interval p + late \<and> list_all (\<lambda>c. fst c \<le> t) cs \<and> on_schedule p late t beats"

fun last_beat :: "time \<Rightarrow> (time \<times> dequeue_call list) list \<Rightarrow> time" where
  "last_beat t0 [] = t0"
| "last_beat t0 ((t, cs) # beats) = last_beat t beats"

lemma dequeue_keeps_lease:
  assumes "holds_lease i w u s" "fst c \<le> u"
  shows "holds_lease i w u (snd (run_dequeue c s))"
    and "fst (run_dequeue c s) = Inr js \<Longrightarrow> i \<notin> ID ` set js"
proof -
  obtain now newids locked queues limit w2 lease where c: "c = (now, newids, locked, queues, limit, w2, lease)"
    by (rule prod_cases7)
  obtain r s' where run: "run_dequeue c s = (r, s')" by force
  then have run': "run_state (Dequeue now newids locked queues limit w2 lease) s = (r, s')"
    by (simp add: run_dequeue_def c)
  from assms obtain j where h: "working s = None" "faults s = []" "db_ok (committed s)"
    and j: "j \<in> set (jobs (committed s))" "leased_to i w j" "LockedUntil j = Some u"
    by (auto simp: holds_lease_def)
  have "Status j = Running" "\<not> expired now j" "ID j = i"
    using j assms(2) by (auto simp: leased_to_def expired_def c)
  with dequeue_keeps_running [OF h(1,3) run' j(1)] atomicD(1,6) [OF dequeue.atomic h(1) run'] h j
    dequeue_run_preserves [OF h(1) run' h(3)]
  show "holds_lease i w u (snd (run_dequeue c s))" "fst (run_dequeue c s) = Inr js \<Longrightarrow> i \<notin> ID ` set js"
    by (auto simp: holds_lease_def run)
qed

lemma run_dequeues_keep_lease:
  "holds_lease i w u s \<Longrightarrow> list_all (\<lambda>c. fst c \<le> u) cs \<Longrightarrow> holds_lease i w u (run_dequeues cs s)"
  by (induction cs arbitrary: s) (simp_all add: run_dequeues_def dequeue_keeps_lease(1))

lemma extend_renews_lease:
  assumes "holds_lease i w u s"
  shows "\<exists>s'. run_state (ExtendLease now i w lease) s = (Inr (), s') \<and>
    holds_lease i w (now + intervalLiteral lease) s'"
proof -
  from assms obtain j where h: "working s = None" "faults s = []" "db_ok (committed s)"
    and j: "j \<in> set (jobs (committed s))" "leased_to i w j"
    by (auto simp: holds_lease_def)
  note eff = extend_effect [OF h(3) j, of now lease]
  let ?j = "extend_row now lease j"
  have "?j \<in> set (sql_update (\<lambda>x. ID x = i) (extend_row now lease) (jobs (committed s)))"
    using j by (auto simp: set_sql_update leased_to_def)
  moreover have "leased_to i w ?j" "LockedUntil ?j = Some (now + intervalLiteral lease)"
    using j(2) by (simp_all add: leased_to_def extend_row_def)
  ultimately show ?thesis
    using extend.fault_free [OF h(1,2), of now i w lease] eff extend_preserves [OF h(3) eff] h
    by (auto simp: holds_lease_def)
qed

lemma heartbeat_interval_bounds:
  assumes "3 \<le> pl_Lease p"
  shows "0 < heartbeat_interval p" "heartbeat_interval p \<le> 5 * Second" "3 * heartbeat_interval p \<le> pl_Lease p"
proof -
  have q: "go_quot (pl_Lease p) 3 = pl_Lease p div 3" using assms by (simp add: go_quot_def)
  show "0 < heartbeat_interval p" "heartbeat_interval p \<le> 5 * Second" "3 * heartbeat_interval p \<le> pl_Lease p"
    using assms by (auto simp: heartbeat_interval_def Let_def q Second_def)
qed

text \<open>A time that is on schedule comes before the lease of the last beat is over.\<close>

lemma scheduled_in_lease:
  assumes "pl_Lease p = 1000 * us" "0 < us" "us \<le> 10 ^ 12" "3 * late \<le> 2 * pl_Lease p"
    and "1000 * (t - t0) \<le> heartbeat_interval p + late"
  shows "t \<le> t0 + intervalLiteral (pl_Lease p)"
proof -
  have "3 * heartbeat_interval p \<le> pl_Lease p" using assms(1,2) by (intro heartbeat_interval_bounds) simp
  with assms(1,4,5) have "3 * (1000 * (t - t0)) \<le> 3 * (1000 * us)" by linarith
  then have "t - t0 \<le> us" by simp
  then show ?thesis using assms(1) intervalLiteral_exact [OF assms(2,3)] by simp
qed

lemma heartbeat_renews:
  assumes "pl_Lease p = 1000 * us" "0 < us" "us \<le> 10 ^ 12" "3 * late \<le> 2 * pl_Lease p"
  shows "holds_lease (ID job) (pl_WorkerID p) (t0 + intervalLiteral (pl_Lease p)) s \<Longrightarrow> on_schedule p late t0 beats \<Longrightarrow>
   holds_lease (ID job) (pl_WorkerID p) (last_beat t0 beats + intervalLiteral (pl_Lease p))
     (heartbeat p job (map (\<lambda>(t, cs). (t, run_dequeues cs)) beats) s)"
proof (induction beats arbitrary: t0 s)
  case (Cons beat beats)
  obtain t cs where beat: "beat = (t, cs)" by force
  have "t \<le> t0 + intervalLiteral (pl_Lease p)" using Cons.prems(2) by (intro scheduled_in_lease [OF assms]) (simp add: beat)
  then have "list_all (\<lambda>c. fst c \<le> t0 + intervalLiteral (pl_Lease p)) cs"
    using Cons.prems(2) by (auto simp: beat list_all_iff)
  then have "holds_lease (ID job) (pl_WorkerID p) (t0 + intervalLiteral (pl_Lease p)) (run_dequeues cs s)"
    by (rule run_dequeues_keep_lease [OF Cons.prems(1)])
  from extend_renews_lease [OF this] obtain s' where
    "run_state (ExtendLease t (ID job) (pl_WorkerID p) (pl_Lease p)) (run_dequeues cs s) = (Inr (), s')"
    "holds_lease (ID job) (pl_WorkerID p) (t + intervalLiteral (pl_Lease p)) s'" by blast
  with Cons show ?case by (simp add: beat)
qed simp

text \<open>
  C11: a heartbeat on schedule keeps the job. The worker has claimed the job at \<open>t0\<close>; its ticker
  fires every \<open>heartbeat_interval\<close>, and every beat reaches the database at most two thirds of a
  lease late (the delay of the tick, of the goroutine and of the round trip together); the lease is
  a whole number of microseconds, of at most eleven days; no round trip fails. Whatever \<open>Dequeue\<close>
  calls anybody makes between the beats, every beat succeeds, the job stays leased to its worker
  until one lease after the last beat, and no \<open>Dequeue\<close> within the time in which the next beat is
  due hands it out: the interval is short enough for the lease, being positive, at most five
  seconds and at most a third of the lease.\<close>

theorem Heartbeat_keeps_job:
  assumes "holds_lease (ID job) (pl_WorkerID p) (t0 + intervalLiteral (pl_Lease p)) s" "on_schedule p late t0 beats"
    and "pl_Lease p = 1000 * us" "0 < us" "us \<le> 10 ^ 12" "3 * late \<le> 2 * pl_Lease p"
    and "1000 * (fst c - last_beat t0 beats) \<le> heartbeat_interval p + late"
    and "s' = heartbeat p job (map (\<lambda>(t, cs). (t, run_dequeues cs)) beats) s"
  shows "holds_lease (ID job) (pl_WorkerID p) (last_beat t0 beats + intervalLiteral (pl_Lease p)) s' \<and>
    (fst (run_dequeue c s') = Inr js \<longrightarrow> ID job \<notin> ID ` set js) \<and>
    0 < heartbeat_interval p \<and> heartbeat_interval p \<le> 5 * Second \<and> 3 * heartbeat_interval p \<le> pl_Lease p"
proof (intro conjI impI)
  show held: "holds_lease (ID job) (pl_WorkerID p) (last_beat t0 beats + intervalLiteral (pl_Lease p)) s'"
    using heartbeat_renews [OF assms(3-6) assms(1,2)] assms(8) by simp
  have "fst c \<le> last_beat t0 beats + intervalLiteral (pl_Lease p)" by (rule scheduled_in_lease [OF assms(3-7)])
  then show "ID job \<notin> ID ` set js" if "fst (run_dequeue c s') = Inr js"
    using that by (rule dequeue_keeps_lease(2) [OF held])
  show "0 < heartbeat_interval p" "heartbeat_interval p \<le> 5 * Second" "3 * heartbeat_interval p \<le> pl_Lease p"
    using assms(3,4) heartbeat_interval_bounds [of p] by simp_all
qed

text \<open>
  A lease of ten seconds that ends at 100; a beat 3.5 seconds after the claim, 0.2 seconds late, just
  after another worker's \<open>Dequeue\<close>.
\<close>

lemma Heartbeat_keeps_job_witness:
  "holds_lease 7 ''w1'' (- 6499900 + intervalLiteral (10 * Second))
     (heartbeat (sample_pool ''w1'') (sample_job Running)
       (map (\<lambda>(t, cs). (t, run_dequeues cs)) [(- 6499900, [(- 6499999, (\<lambda>_. 0), [], [''default''], 1, ''w2'', Second)])])
       (sample_pg (sample_db Running)))"
proof -
  have "holds_lease 7 ''w1'' 100 (sample_pg (sample_db Running))"
    by (simp add: holds_lease_def sample_db_ok) (simp add: leased_to_def sample_job_def)
  then have "holds_lease (ID (sample_job Running)) (pl_WorkerID (sample_pool ''w1''))
      (- 9999900 + intervalLiteral (pl_Lease (sample_pool ''w1''))) (sample_pg (sample_db Running))"
    using intervalLiteral_exact [of 10000000] by (simp add: Second_def)
  moreover have "heartbeat_interval (sample_pool ''w1'') = 3333333333"
    by (simp add: heartbeat_interval_def Second_def go_quot_def)
  ultimately show ?thesis
    using Heartbeat_keeps_job [of "sample_job Running" "sample_pool ''w1''" "- 9999900" "sample_pg (sample_db Running)" 200000000
        "[(- 6499900, [(- 6499999, (\<lambda>_. 0), [], [''default''], 1, ''w2'', Second)])]" 10000000
        "(- 6499900, (\<lambda>_. 0), [], [], 1, ''w2'', Second)", OF _ _ _ _ _ _ _ refl]
    by (simp add: Second_def)
qed

end
