(* ===== verification/RateLimit.thy ===== *)
theory RateLimit
  imports Redis
begin

text \<open>
  \<open>src/internal/ratelimit/ratelimit.go\<close>: the token bucket per tenant, a Lua script that
  Redis runs. A number of Lua is a float: every operation rounds. \<open>now\<close> is the clock of
  the caller in milliseconds, which the script uses to credit tokens; \<open>rnow\<close> is the
  clock of the Redis server, which expires the keys.
\<close>

record Limiter =
  lim_rate :: int
  lim_burst :: int

text \<open>A nil limiter is \<open>None\<close>.\<close>

definition NewLimiter :: "bool \<Rightarrow> int \<Rightarrow> int \<Rightarrow> Limiter option" where
  "NewLimiter has_redis rate burst =
     (if rate \<le> 0 \<or> \<not> has_redis then None
      else (let burst = (if burst \<le> 0 then rate else burst) in Some \<lparr>lim_rate = rate, lim_burst = burst\<rparr>))"

definition tokens_key :: "string \<Rightarrow> string" where
  "tokens_key key = key @ '':tokens''"

definition ts_key :: "string \<Rightarrow> string" where
  "ts_key key = key @ '':ts''"

text \<open>The tokens of the bucket at \<open>now\<close>, before the request is charged.\<close>

definition refilled :: "int \<Rightarrow> string \<Rightarrow> rat \<Rightarrow> rat \<Rightarrow> rat \<Rightarrow> redis \<Rightarrow> rat" where
  "refilled rnow key rate burst now R =
     (let tokens = (case GET rnow (tokens_key key) R of Some v \<Rightarrow> v | None \<Rightarrow> burst);
          ts = (case GET rnow (ts_key key) R of Some v \<Rightarrow> v | None \<Rightarrow> now);
          elapsed = f64_round (max 0 (f64_round (now - ts)) / 1000)
      in min burst (f64_round (tokens + f64_round (elapsed * rate))))"

definition save_bucket :: "int \<Rightarrow> string \<Rightarrow> rat \<Rightarrow> rat \<Rightarrow> redis \<Rightarrow> redis" where
  "save_bucket rnow key tokens now R =
     SET_EX rnow (ts_key key) now 60 (SET_EX rnow (tokens_key key) tokens 60 R)"

definition bucketScript :: "int \<Rightarrow> string \<Rightarrow> int \<Rightarrow> int \<Rightarrow> int \<Rightarrow> redis \<Rightarrow> int \<times> redis" where
  "bucketScript rnow key rate burst now R =
     (let rate = f64_round (of_int rate); burst = f64_round (of_int burst); now = f64_round (of_int now);
          tokens = refilled rnow key rate burst now R
      in if tokens < 1 then (- 1, save_bucket rnow key tokens now R)
         else (let tokens = f64_round (tokens - 1) in (trunc tokens, save_bucket rnow key tokens now R)))"

definition bucket_key :: "string \<Rightarrow> string" where
  "bucket_key tenant = ''forge:rl:'' @ tenant"

definition Allow ::
  "fault \<Rightarrow> int \<Rightarrow> int \<Rightarrow> Limiter option \<Rightarrow> string \<Rightarrow> redis \<Rightarrow> (bool \<times> duration \<times> error option) \<times> redis" where
  "Allow f rnow now l tenant R =
     (case l of
        None \<Rightarrow> ((True, 0, None), R)
      | Some l \<Rightarrow>
          (case redis_call f (bucketScript rnow (bucket_key tenant) (lim_rate l) (lim_burst l) now) R of
             (Inl e, R') \<Rightarrow> ((True, 0, Some e), R')
           | (Inr result, R') \<Rightarrow>
               if result \<ge> 0 then ((True, 0, None), R') else ((False, Second, None), R')))"

section \<open>A bucket stays within its bounds\<close>

lemma bucket_keys_differ [simp]: "tokens_key key \<noteq> ts_key key" "ts_key key \<noteq> tokens_key key"
  by (simp_all add: tokens_key_def ts_key_def)

lemma GET_save_bucket [simp]:
  "GET rnow' (tokens_key key) (save_bucket rnow key tokens now R) =
     (if rnow + 60000 < rnow' then None else Some tokens)"
  "GET rnow' (ts_key key) (save_bucket rnow key tokens now R) =
     (if rnow + 60000 < rnow' then None else Some now)"
  by (simp_all add: save_bucket_def)

lemma trunc_nonneg: "0 \<le> r \<Longrightarrow> 0 \<le> trunc r"
  by (simp add: trunc_def)

text \<open>\<open>bucket_ok\<close>: what the script stores, and what it may find stored.\<close>

definition bucket_ok :: "string \<Rightarrow> int \<Rightarrow> redis \<Rightarrow> bool" where
  "bucket_ok key burst R \<longleftrightarrow> (\<forall>v t. numbers R (tokens_key key) = Some (v, t) \<longrightarrow> 0 \<le> v \<and> v \<le> of_int burst)"

lemma bucket_okD: "bucket_ok key burst R \<Longrightarrow> GET rnow (tokens_key key) R = Some v \<Longrightarrow> 0 \<le> v \<and> v \<le> of_int burst"
  by (auto simp: bucket_ok_def GET_def live_def split: option.splits if_splits)

lemma f64_round_le_int: "0 \<le> x \<Longrightarrow> x \<le> of_int n \<Longrightarrow> n < 2 ^ 53 \<Longrightarrow> f64_round x \<le> of_int n"
  using f64_round_mono [of x "of_int n"] f64_round_of_int [of n] by (simp add: order_trans [of 0 x])

lemma refilled_bounds:
  assumes "0 \<le> rate" "0 \<le> burst"
    and "\<And>v. GET rnow (tokens_key key) R = Some v \<Longrightarrow> 0 \<le> v"
  shows "0 \<le> refilled rnow key rate burst now R" "refilled rnow key rate burst now R \<le> burst"
  using assms by (auto simp: refilled_def Let_def intro!: f64_round_nonneg mult_nonneg_nonneg
      add_nonneg_nonneg split: option.splits)

lemma bucketScript_saves:
  assumes "bucket_ok key burst R" "1 \<le> rate" "1 \<le> burst" "burst < 2 ^ 53"
    and "bucketScript rnow key rate burst now R = (r, R')"
  obtains t where "R' = save_bucket rnow key t (f64_round (of_int now)) R"
    "0 \<le> t" "t \<le> of_int burst"
    "0 \<le> r \<Longrightarrow> 1 \<le> refilled rnow key (f64_round (of_int rate)) (of_int burst) (f64_round (of_int now)) R \<and>
       t = f64_round (refilled rnow key (f64_round (of_int rate)) (of_int burst) (f64_round (of_int now)) R - 1)"
    "r < 0 \<Longrightarrow> t = refilled rnow key (f64_round (of_int rate)) (of_int burst) (f64_round (of_int now)) R"
proof -
  let ?t = "refilled rnow key (f64_round (of_int rate)) (of_int burst) (f64_round (of_int now)) R"
  have b: "f64_round (of_int burst) = of_int burst" by (rule f64_round_of_int) (use assms in auto)
  have t: "0 \<le> ?t" "?t \<le> of_int burst"
    using assms by (auto intro!: refilled_bounds f64_round_nonneg dest: bucket_okD)
  show ?thesis
  proof (cases "?t < 1")
    case True
    with assms(5) b t show ?thesis by (auto simp: bucketScript_def Let_def intro: that)
  next
    case False
    then have "0 \<le> f64_round (?t - 1)" "f64_round (?t - 1) \<le> of_int burst"
      using t assms(4) by (auto intro!: f64_round_nonneg f64_round_le_int)
    moreover from False assms(5) b have "r = trunc (f64_round (?t - 1))"
      "R' = save_bucket rnow key (f64_round (?t - 1)) (f64_round (of_int now)) R"
      by (auto simp: bucketScript_def Let_def)
    ultimately show ?thesis
      using False by (intro that [of "f64_round (?t - 1)"]) (auto dest: trunc_nonneg)
  qed
qed

lemma bucket_ok_save: "0 \<le> t \<Longrightarrow> t \<le> of_int burst \<Longrightarrow> bucket_ok key burst (save_bucket rnow key t now R)"
  by (simp add: bucket_ok_def save_bucket_def SET_EX_def)

section \<open>The number of admitted requests\<close>

text \<open>One step of the bucket: what it grants is paid for by its tokens and the time that passed.\<close>

lemma credit_bound:
  fixes rate d :: int
  assumes "1 \<le> rate" "0 \<le> d"
  defines "c \<equiv> of_int (rate * d) / 1000"
  shows "0 \<le> f64_round (f64_round (of_int d / 1000) * of_int rate)"
    and "f64_round (f64_round (of_int d / 1000) * of_int rate) \<le> c * (1 + 1 / 2 ^ 53) ^ 2"
proof -
  let ?a = "of_int d / (1000::rat)" and ?r = "of_int rate :: rat"
  let ?e = "f64_round ?a"
  have r: "1 \<le> ?r" using assms(1) by simp
  have small: "(2::rat) powi (- 1022) \<le> 2 powi (- 10)" by (subst powi_mono_iff) simp
  have ten: "(2::rat) powi (- 10) = 1 / 1024" by (simp add: power_int_def power_one_over)
  have e: "0 \<le> ?e" using assms(2) by (intro f64_round_nonneg) simp
  then show "0 \<le> f64_round (?e * ?r)" using r by (intro f64_round_nonneg) simp
  show "f64_round (?e * ?r) \<le> c * (1 + 1 / 2 ^ 53) ^ 2"
  proof (cases "d = 0")
    case False
    then have "1 \<le> (of_int d :: rat)" using assms(2) by simp
    then have a: "2 powi (- 10) \<le> ?a" by (simp add: ten)
    have "f64_round (2 powi (- 10)) \<le> ?e" by (rule f64_round_mono) (use a in \<open>simp_all add: ten\<close>)
    then have "2 powi (- 10) \<le> ?e" using f64_round_exact [of 1 "- 10"] by simp
    then have "2 powi (- 10) \<le> ?e * ?r"
      using mult_left_mono [OF r e] by linarith
    then have "f64_round (?e * ?r) \<le> ?e * ?r + ?e * ?r / 2 ^ 53"
      using small e r by (intro f64_round_rel) auto
    also have "\<dots> = ?e * ?r * (1 + 1 / 2 ^ 53)" by (simp add: algebra_simps)
    also have "\<dots> \<le> (?a + ?a / 2 ^ 53) * ?r * (1 + 1 / 2 ^ 53)"
    proof (intro mult_right_mono)
      show "?e \<le> ?a + ?a / 2 ^ 53"
        using a small by (intro f64_round_rel) (auto simp: assms(2))
    qed (use r in auto)
    also have "\<dots> = c * (1 + 1 / 2 ^ 53) ^ 2"
      by (simp add: c_def power2_eq_square field_simps)
    finally show ?thesis .
  qed (simp add: c_def)
qed

lemma refilled_upper:
  assumes "GET rnow (tokens_key key) R = Some t" "GET rnow (ts_key key) R = Some (of_int ts)"
    and "0 \<le> t" "t \<le> of_int burst" "1 \<le> rate" "1 \<le> burst" "ts \<le> now" "now - ts < 2 ^ 53"
  shows "refilled rnow key (of_int rate) (of_int burst) (of_int now) R
    \<le> t + of_int (rate * (now - ts)) / 1000 +
      (4 * (of_int (rate * (now - ts)) / 1000) + 2 * of_int burst) / 2 ^ 53"
proof -
  let ?d = "now - ts" and ?eps = "1 / 2 ^ 53 :: rat"
  let ?c = "of_int (rate * ?d) / 1000 :: rat"
  let ?e = "f64_round (f64_round (of_int ?d / 1000) * of_int rate)"
  have d: "f64_round (of_int now - of_int ts) = of_int ?d"
    using f64_round_of_int [of ?d] assms(7,8) by simp
  have c: "0 \<le> ?c" using assms(5,7) by simp
  have "refilled rnow key (of_int rate) (of_int burst) (of_int now) R \<le> f64_round (t + ?e)"
    using assms(1,2,7) d by (simp add: refilled_def Let_def)
  also have "\<dots> \<le> t + ?e + (t + ?e + 1) / 2 ^ 53"
    using credit_bound(1) [of rate ?d] assms(3,5,7) by (intro f64_round_upper) simp
  also have "\<dots> = t + (t + 1) / 2 ^ 53 + ?e * (1 + ?eps)"
    by (simp add: field_simps)
  also have "\<dots> \<le> t + (2 * of_int burst) / 2 ^ 53 + ?c * (1 + ?eps) ^ 2 * (1 + ?eps)"
  proof (intro add_mono mult_right_mono divide_right_mono)
    show "?e \<le> ?c * (1 + ?eps) ^ 2"
      using credit_bound(2) [of rate ?d] assms(5,7) by simp
    show "t + 1 \<le> 2 * of_int burst" using assms(4,6) by simp
  qed auto
  also have "\<dots> = t + (2 * of_int burst) / 2 ^ 53 + ?c * (1 + ?eps) ^ 3"
    by (simp add: power2_eq_square power3_eq_cube)
  also have "\<dots> \<le> t + (2 * of_int burst) / 2 ^ 53 + ?c * (1 + 4 * ?eps)"
    using c by (intro add_mono mult_left_mono order_refl) (simp_all add: power3_eq_cube)
  also have "\<dots> = t + ?c + (4 * ?c + 2 * of_int burst) / 2 ^ 53"
    by (simp add: field_simps)
  finally show ?thesis .
qed

text \<open>
  A run of requests of one tenant: for each the clock of Redis and the clock of the caller.
  The result counts the requests that were let through.
\<close>

fun allowed :: "Limiter \<Rightarrow> string \<Rightarrow> (int \<times> int) list \<Rightarrow> redis \<Rightarrow> nat \<times> redis" where
  "allowed l tenant [] R = (0, R)"
| "allowed l tenant ((rnow, now) # cs) R =
     (case Allow NoFault rnow now (Some l) tenant R of ((admit, _, _), R') \<Rightarrow>
       (case allowed l tenant cs R' of (n, R'') \<Rightarrow> (of_bool admit + n, R'')))"

text \<open>The caller's clocks do not run backwards and no pause outlives the keys.\<close>

fun spaced :: "int \<Rightarrow> int \<Rightarrow> (int \<times> int) list \<Rightarrow> bool" where
  "spaced rnow now [] \<longleftrightarrow> True"
| "spaced rnow now ((rnow', now') # cs) \<longleftrightarrow>
     rnow' \<le> rnow + 60000 \<and> now \<le> now' \<and> now' < 2 ^ 53 \<and> spaced rnow' now' cs"

definition slack :: "rat \<Rightarrow> int \<Rightarrow> nat \<Rightarrow> rat" where
  "slack c burst n = (4 * c + 3 * of_nat n * of_int burst) / 2 ^ 53"

lemma slack_add: "slack c burst m + slack c' burst n = slack (c + c') burst (m + n)"
  by (simp add: slack_def field_simps)

lemma slack_Suc: "slack 0 burst 1 + slack c burst n = slack c burst (Suc n)"
  using slack_add [of 0 burst 1 c n] by simp

lemma Allow_NoFault:
  "Allow NoFault rnow now (Some l) tenant R =
     (case bucketScript rnow (bucket_key tenant) (lim_rate l) (lim_burst l) now R of
        (r, R') \<Rightarrow> ((0 \<le> r, if 0 \<le> r then 0 else Second, None), R'))"
  by (simp add: Allow_def redis_call_def split: prod.splits)

lemma fst_allowed_Cons:
  "bucketScript rnow (bucket_key tenant) (lim_rate l) (lim_burst l) now R = (r, R') \<Longrightarrow>
   fst (allowed l tenant ((rnow, now) # cs) R) = of_bool (0 \<le> r) + fst (allowed l tenant cs R')"
  by (simp add: Allow_NoFault split: prod.splits)

lemma charge_bound:
  assumes "1 \<le> x" "x \<le> of_int burst"
  shows "f64_round (x - 1) + 1 \<le> x + of_int burst / 2 ^ 53"
proof -
  have "f64_round (x - 1) \<le> x - 1 + x / 2 ^ 53"
    using f64_round_upper [of "x - 1"] assms(1) by simp
  also have "x / 2 ^ 53 \<le> of_int burst / 2 ^ 53"
    using assms(2) by (rule divide_right_mono) simp
  finally show ?thesis by simp
qed

lemma bucket_step:
  assumes "bucket_ok key burst R" "1 \<le> rate" "rate < 2 ^ 53" "1 \<le> burst" "burst < 2 ^ 53"
    "0 \<le> now" "now < 2 ^ 53"
    and run: "bucketScript rnow key rate burst now R = (r, R')"
    and le: "refilled rnow key (of_int rate) (of_int burst) (of_int now) R \<le> x"
  obtains t where "R' = save_bucket rnow key t (of_int now) R" "0 \<le> t" "t \<le> of_int burst"
    "t + of_bool (0 \<le> r) \<le> x + of_int burst / 2 ^ 53"
proof -
  let ?x = "refilled rnow key (of_int rate) (of_int burst) (of_int now) R"
  have exact: "f64_round (of_int rate) = of_int rate" "f64_round (of_int now) = of_int now"
    using assms by (auto intro!: f64_round_of_int)
  have "?x \<le> of_int burst"
    using assms by (intro refilled_bounds(2)) (auto dest: bucket_okD)
  then have charge: "1 \<le> ?x \<Longrightarrow> f64_round (?x - 1) + 1 \<le> ?x + of_int burst / 2 ^ 53"
    by (rule charge_bound [rotated])
  have "0 \<le> (of_int burst :: rat) / 2 ^ 53" using assms by simp
  moreover from bucketScript_saves [OF assms(1,2,4,5) run, unfolded exact]
  obtain t where "R' = save_bucket rnow key t (of_int now) R" "0 \<le> t" "t \<le> of_int burst"
    "0 \<le> r \<Longrightarrow> 1 \<le> ?x \<and> t = f64_round (?x - 1)" "r < 0 \<Longrightarrow> t = ?x" by blast
  ultimately show ?thesis
    using charge le by (intro that [of t]) (cases "0 \<le> r"; fastforce)+
qed

lemma allowed_bound:
  assumes "1 \<le> lim_rate l" "lim_rate l < 2 ^ 53" "1 \<le> lim_burst l" "lim_burst l < 2 ^ 53"
  shows "R = save_bucket rnow (bucket_key tenant) t (of_int now) R0 \<Longrightarrow> 0 \<le> t \<Longrightarrow> t \<le> of_int (lim_burst l) \<Longrightarrow>
    0 \<le> now \<Longrightarrow> spaced rnow now cs \<Longrightarrow>
    (let C = of_int (lim_rate l * (snd (last ((rnow, now) # cs)) - now)) / 1000 in
     of_nat (fst (allowed l tenant cs R)) \<le> t + C + slack C (lim_burst l) (length cs))"
proof (induction cs arbitrary: R rnow now t R0)
  case Nil
  then show ?case by (simp add: slack_def)
next
  case (Cons c cs)
  obtain rnow' now' where c: "c = (rnow', now')" by force
  let ?key = "bucket_key tenant"
  let ?C1 = "of_int (lim_rate l * (now' - now)) / 1000 :: rat"
  let ?C2 = "of_int (lim_rate l * (snd (last ((rnow', now') # cs)) - now')) / 1000 :: rat"
  let ?B = "of_int (lim_burst l) / 2 ^ 53 :: rat"
  have sp: "rnow' \<le> rnow + 60000" "now \<le> now'" "now' < 2 ^ 53" "spaced rnow' now' cs"
    using Cons.prems(5) c by auto
  have ok: "bucket_ok ?key (lim_burst l) R"
    using Cons.prems by (simp add: bucket_ok_save)
  obtain r R' where run: "bucketScript rnow' ?key (lim_rate l) (lim_burst l) now' R = (r, R')" by force
  have now': "0 \<le> now'" using Cons.prems(4) sp(2) by simp
  have "refilled rnow' ?key (of_int (lim_rate l)) (of_int (lim_burst l)) (of_int now') R
      \<le> t + ?C1 + (4 * ?C1 + 2 * of_int (lim_burst l)) / 2 ^ 53"
    by (rule refilled_upper) (use Cons.prems assms sp in auto)
  from bucket_step [OF ok assms now' sp(3) run this]
  obtain t' where t': "R' = save_bucket rnow' ?key t' (of_int now') R" "0 \<le> t'"
      "t' \<le> of_int (lim_burst l)"
      "t' + of_bool (0 \<le> r) \<le> t + ?C1 + (4 * ?C1 + 2 * of_int (lim_burst l)) / 2 ^ 53 + ?B"
    by blast
  have one: "(4 * ?C1 + 2 * of_int (lim_burst l)) / 2 ^ 53 + ?B = slack ?C1 (lim_burst l) 1"
    by (simp add: slack_def field_simps)
  have rest: "of_nat (fst (allowed l tenant cs R')) \<le> t' + ?C2 + slack ?C2 (lim_burst l) (length cs)"
    using Cons.IH [OF t'(1-3) now' sp(4)] by (simp add: Let_def)
  have last: "last ((rnow, now) # c # cs) = last ((rnow', now') # cs)" by (simp add: c)
  have sum: "?C1 + ?C2 = of_int (lim_rate l * (snd (last ((rnow', now') # cs)) - now)) / 1000"
    by (simp add: field_simps)
  have "of_nat (fst (allowed l tenant (c # cs) R)) =
      of_bool (0 \<le> r) + of_nat (fst (allowed l tenant cs R'))"
    by (simp add: c fst_allowed_Cons [OF run] del: allowed.simps)
  also have "\<dots> \<le> t + (?C1 + ?C2) + (slack ?C1 (lim_burst l) 1 + slack ?C2 (lim_burst l) (length cs))"
    using t'(4) rest one by linarith
  finally show ?case
    unfolding slack_add sum last Let_def by simp
qed

text \<open>
  C12: the limiter limits a tenant that keeps calling. Over any run of requests of one tenant that
  Redis answers, whose caller clocks do not run backwards and of which no two that follow each
  other are more than 60 seconds apart by the clock of Redis (the life of the keys), it lets
  through at most the burst plus the rate times the time that passed, up to the rounding of
  the floats of the script, whatever tokens were stored at the start. (After a longer pause the
  keys are gone and the bucket is full again, see \<open>Idle_minute_refills\<close>.)\<close>

theorem Rate_bound:
  assumes "1 \<le> lim_rate l" "lim_rate l < 2 ^ 53" "1 \<le> lim_burst l" "lim_burst l < 2 ^ 53"
    and "bucket_ok (bucket_key tenant) (lim_burst l) R" "0 \<le> now" "now < 2 ^ 53" "spaced rnow now cs"
  defines "C \<equiv> of_int (lim_rate l * (snd (last ((rnow, now) # cs)) - now)) / 1000"
  shows "of_nat (fst (allowed l tenant ((rnow, now) # cs) R))
    \<le> of_int (lim_burst l) + C + slack C (lim_burst l) (Suc (length cs))"
proof -
  let ?key = "bucket_key tenant"
  obtain r R' where run: "bucketScript rnow ?key (lim_rate l) (lim_burst l) now R = (r, R')" by force
  have "refilled rnow ?key (of_int (lim_rate l)) (of_int (lim_burst l)) (of_int now) R
      \<le> of_int (lim_burst l)"
    using assms by (intro refilled_bounds(2)) (auto dest: bucket_okD)
  from bucket_step [OF assms(5,1-4,6,7) run this]
  obtain t where t: "R' = save_bucket rnow ?key t (of_int now) R" "0 \<le> t" "t \<le> of_int (lim_burst l)"
      "t + of_bool (0 \<le> r) \<le> of_int (lim_burst l) + of_int (lim_burst l) / 2 ^ 53"
    by blast
  have rest: "of_nat (fst (allowed l tenant cs R')) \<le> t + C + slack C (lim_burst l) (length cs)"
    using allowed_bound [OF assms(1-4) t(1-3) assms(6,8)] by (simp add: C_def Let_def)
  have "of_int (lim_burst l) / 2 ^ 53 \<le> slack 0 (lim_burst l) 1"
    using assms(3) by (simp add: slack_def divide_right_mono)
  moreover have "of_nat (fst (allowed l tenant ((rnow, now) # cs) R)) =
      of_bool (0 \<le> r) + (of_nat (fst (allowed l tenant cs R')) :: rat)"
    by (simp add: fst_allowed_Cons [OF run] del: allowed.simps)
  ultimately show ?thesis
    using t(4) rest slack_Suc [of "lim_burst l" C "length cs"] by linarith
qed

lemma Rate_bound_witness:
  "fst (allowed \<lparr>lim_rate = 10, lim_burst = 20\<rparr> ''t'' ((0, 0) # replicate 29 (0, 0)) empty_redis) \<le> 20"
proof -
  let ?n = "fst (allowed \<lparr>lim_rate = 10, lim_burst = 20\<rparr> ''t'' ((0, 0) # replicate 29 (0, 0)) empty_redis)"
  have "bucket_ok key burst empty_redis" for key burst by (simp add: bucket_ok_def empty_redis_def)
  moreover have "spaced 0 0 (replicate 29 (0, 0))" by code_simp
  ultimately have "of_nat ?n \<le> (20::rat) + slack 0 20 30"
    using Rate_bound [of "\<lparr>lim_rate = 10, lim_burst = 20\<rparr>" "''t''" empty_redis 0 0 "replicate 29 (0, 0)"]
    by simp
  then have "of_nat ?n < (of_nat 21 :: rat)" by (simp add: slack_def del: allowed.simps)
  then show ?thesis unfolding of_nat_less_iff by linarith
qed

section \<open>Clocks and expiry\<close>

lemma refilled_skew:
  assumes "GET rnow (tokens_key key) R = Some t" "GET rnow (ts_key key) R = Some (of_int (now - 1000))"
    and "0 \<le> t" "1 \<le> rate" "rate < 2 ^ 53" "1 \<le> burst"
  shows "1 \<le> refilled rnow key (of_int rate) (of_int burst) (of_int now) R"
proof -
  have "f64_round 1000 = 1000" "f64_round 1 = 1"
    using f64_round_of_int [of 1000] f64_round_of_int [of 1] by simp_all
  moreover have "f64_round 1 \<le> f64_round (t + of_int rate)"
    using assms(3,4) by (intro f64_round_mono) (auto simp: add_increasing)
  ultimately show ?thesis
    using assms f64_round_of_int [of rate] by (simp add: refilled_def Let_def)
qed

text \<open>
  The limit relies on one clock. The script stores the caller's time even when it is
  earlier than the stored one, so two API servers whose clocks differ by a second credit
  that second again and again: of every two alternating requests one is let through,
  without any time passing.\<close>

theorem Clock_skew_defeats_limit:
  assumes "1 \<le> lim_rate l" "lim_rate l < 2 ^ 53" "1 \<le> lim_burst l" "lim_burst l < 2 ^ 53"
    and "bucket_ok (bucket_key tenant) (lim_burst l) R" "1000 \<le> now" "now < 2 ^ 53"
  shows "n \<le> fst (allowed l tenant (concat (replicate n [(rnow, now - 1000), (rnow, now)])) R)"
  using assms(5)
proof (induction n arbitrary: R)
  case (Suc n)
  let ?key = "bucket_key tenant"
  have now: "0 \<le> now" "0 \<le> now - 1000" "now - 1000 < 2 ^ 53" using assms(6,7) by auto
  obtain r1 R1 where run1: "bucketScript rnow ?key (lim_rate l) (lim_burst l) (now - 1000) R = (r1, R1)"
    by force
  obtain r2 R2 where run2: "bucketScript rnow ?key (lim_rate l) (lim_burst l) now R1 = (r2, R2)"
    by force
  obtain t1 where t1: "R1 = save_bucket rnow ?key t1 (of_int (now - 1000)) R" "0 \<le> t1"
      "t1 \<le> of_int (lim_burst l)"
    by (rule bucket_step [OF Suc.prems assms(1-4) now(2,3) run1 order_refl])
  have ok1: "bucket_ok ?key (lim_burst l) R1" using t1 by (simp add: bucket_ok_save)
  obtain t2 where t2: "R2 = save_bucket rnow ?key t2 (of_int now) R1" "0 \<le> t2" "t2 \<le> of_int (lim_burst l)"
    by (rule bucket_step [OF ok1 assms(1-4) now(1) assms(7) run2 order_refl])
  have ok2: "bucket_ok ?key (lim_burst l) R2" using t2 by (simp add: bucket_ok_save)
  have "1 \<le> refilled rnow ?key (of_int (lim_rate l)) (of_int (lim_burst l)) (of_int now) R1"
    by (rule refilled_skew [where t = t1]) (use assms t1 in auto)
  moreover have "f64_round (of_int (lim_rate l)) = of_int (lim_rate l)"
    "f64_round (of_int (lim_burst l)) = of_int (lim_burst l)" "f64_round (of_int now) = of_int now"
    using assms by (auto intro!: f64_round_of_int)
  ultimately have "0 \<le> r2"
    using run2 by (auto simp: bucketScript_def Let_def intro!: trunc_nonneg f64_round_nonneg split: if_splits)
  then show ?case
    using Suc.IH [OF ok2] by (simp add: fst_allowed_Cons [OF run1] fst_allowed_Cons [OF run2] del: allowed.simps)
qed simp

lemma Clock_skew_defeats_limit_witness:
  "50 \<le> fst (allowed \<lparr>lim_rate = 1, lim_burst = 1\<rparr> ''t''
     (concat (replicate 50 [(0, 2000 - 1000), (0, 2000)])) empty_redis)"
proof -
  have "bucket_ok key burst empty_redis" for key burst by (simp add: bucket_ok_def empty_redis_def)
  then show ?thesis
    using Clock_skew_defeats_limit [of "\<lparr>lim_rate = 1, lim_burst = 1\<rparr>" "''t''" empty_redis 2000 50 0]
    by (simp del: replicate.simps)
qed

lemma allowed_burst:
  assumes "1 \<le> lim_rate l" "lim_rate l < 2 ^ 53" "lim_burst l < 2 ^ 53" "0 \<le> now" "now < 2 ^ 53"
  shows "int n \<le> k \<Longrightarrow> k \<le> lim_burst l \<Longrightarrow>
    R = save_bucket rnow (bucket_key tenant) (of_int k) (of_int now) R0 \<Longrightarrow>
    fst (allowed l tenant (replicate n (rnow, now)) R) = n"
proof (induction n arbitrary: k R R0)
  case (Suc n)
  have exact: "f64_round (of_int m) = of_int m" if "m \<in> {k, k - 1, now, lim_rate l, lim_burst l}" for m
    using that assms Suc.prems by (intro f64_round_of_int) auto
  then have "f64_round (of_int k - 1) = of_int (k - 1)" using exact [of "k - 1"] by simp
  then have run: "bucketScript rnow (bucket_key tenant) (lim_rate l) (lim_burst l) now R =
      (k - 1, save_bucket rnow (bucket_key tenant) (of_int (k - 1)) (of_int now) R)"
    using Suc.prems exact by (simp add: bucketScript_def refilled_def Let_def trunc_def)
  show ?case
    using Suc.IH [OF _ _ refl, of "k - 1"] Suc.prems(1,2)
    by (simp add: fst_allowed_Cons [OF run] del: allowed.simps)
qed simp

text \<open>
  C40: a burst is let through whole after a pause. Once a minute has passed on the clock of Redis since the
  last request of the tenant, the next requests up to the burst are all admitted at once,
  also when the rate would not have refilled the bucket in that minute.\<close>

theorem Idle_minute_refills:
  assumes "1 \<le> lim_rate l" "lim_rate l < 2 ^ 53" "1 \<le> lim_burst l" "lim_burst l < 2 ^ 53"
    and "0 \<le> now" "now < 2 ^ 53" "rnow0 + 60000 < rnow"
    and "Allow NoFault rnow0 now0 (Some l) tenant R0 = (res, R)"
  shows "fst (allowed l tenant (replicate (nat (lim_burst l)) (rnow, now)) R) = nat (lim_burst l)"
proof -
  let ?key = "bucket_key tenant" and ?b = "lim_burst l"
  have gone: "GET rnow (tokens_key ?key) R = None" "GET rnow (ts_key ?key) R = None"
    using assms(7,8) by (auto simp: Allow_NoFault bucketScript_def Let_def split: prod.splits if_splits)
  have exact: "f64_round (of_int m) = of_int m" if "m \<in> {?b, ?b - 1, now, lim_rate l}" for m
    using that assms by (intro f64_round_of_int) auto
  then have "f64_round (of_int ?b - 1) = of_int (?b - 1)" using exact [of "?b - 1"] by simp
  then have run: "bucketScript rnow ?key (lim_rate l) ?b now R =
      (?b - 1, save_bucket rnow ?key (of_int (?b - 1)) (of_int now) R)"
    using assms(3) exact gone by (simp add: bucketScript_def refilled_def Let_def trunc_def)
  obtain n where n: "nat ?b = Suc n" using assms(3) by (cases "nat ?b") auto
  have "fst (allowed l tenant (replicate n (rnow, now))
      (save_bucket rnow ?key (of_int (?b - 1)) (of_int now) R)) = n"
    using assms n by (intro allowed_burst [OF _ _ _ _ _ _ _ refl]) auto
  then show ?thesis
    using assms(3) by (simp add: n fst_allowed_Cons [OF run] del: allowed.simps)
qed

lemma Idle_minute_refills_witness:
  "fst (allowed \<lparr>lim_rate = 1, lim_burst = 100\<rparr> ''t'' (replicate 100 (60001, 60001))
     (snd (Allow NoFault 0 0 (Some \<lparr>lim_rate = 1, lim_burst = 100\<rparr>) ''t'' empty_redis))) = 100"
  using Idle_minute_refills [of "\<lparr>lim_rate = 1, lim_burst = 100\<rparr>" 60001 0 60001 0 "''t''" empty_redis]
  by (cases "Allow NoFault 0 0 (Some \<lparr>lim_rate = 1, lim_burst = 100\<rparr>) ''t'' empty_redis") (simp del: replicate.simps)

end
