(* ===== verification/Commands.thy ===== *)
theory Commands
  imports Config Worker RateLimit
begin

text \<open>
  How the commands \<open>src/cmd/forge-worker/main.go\<close> and \<open>src/cmd/forge-api/main.go\<close> put the
  components together: the pool and the limiter that a configuration leads to. Starting and
  ending the processes is in \<open>Processes\<close>.
\<close>

definition worker_pool :: "Registry \<Rightarrow> Config \<Rightarrow> Pool" where
  "worker_pool registry cfg =
     \<lparr>pl_Queues = cfg_Queues cfg, pl_Registry = Some registry, pl_Concurrency = cfg_Concurrency cfg,
      pl_WorkerID = cfg_WorkerID cfg, pl_Lease = LeaseDuration cfg, pl_JobTimeout = cfg_JobTimeout cfg,
      pl_PollInterval = 100 * Millisecond, pl_ShutdownGrace = cfg_ShutdownGrace cfg,
      pl_Events = True, pl_Stats = True\<rparr>"

definition api_limiter :: "Config \<Rightarrow> Limiter option" where
  "api_limiter cfg = NewLimiter True (RateLimitPerSec cfg) (RateLimitBurst cfg)"

lemma split_not_Nil: "split v \<noteq> []"
  by (simp add: split_def Let_def)

text \<open>The variables that \<open>.env.example\<close> sets for a worker and for the limiter.\<close>

definition example_env :: "string \<Rightarrow> string" where
  "example_env key =
     (if key = ''QUEUES'' then ''default'' else if key = ''CONCURRENCY'' then ''8''
      else if key = ''LEASE_DURATION'' then ''5s'' else if key = ''JOB_TIMEOUT'' then ''30s''
      else if key = ''SHUTDOWN_GRACE'' then ''20s'' else if key = ''RATE_LIMIT_PER_SEC'' then ''0''
      else if key = ''RATE_LIMIT_BURST'' then ''100'' else '''')"

text \<open>
  C35: no environment yields a broken process. Whatever the variables hold, a worker serves at
  least one queue with at least one slot under a name that is not empty, its lease, timeout,
  poll interval and grace period are positive, and a limiter, if there is one, has a rate and
  a burst of at least one. With no variable set the code's defaults apply: one queue, eight slots, a
  lease of ten seconds, and no limiter. The values of \<open>.env.example\<close> give the same but for the lease,
  which is five seconds there.\<close>

theorem Any_environment_works:
  shows "(let p = normalize registry (worker_pool registry (Load Getenv hostname)) in
     pl_Queues p \<noteq> [] \<and> 0 < pl_Concurrency p \<and> pl_WorkerID p \<noteq> '''' \<and> 0 < pl_Lease p \<and>
     0 < pl_JobTimeout p \<and> 0 < pl_PollInterval p \<and> 0 < pl_ShutdownGrace p \<and> pl_Registry p = Some registry) \<and>
    (case api_limiter (Load Getenv hostname) of None \<Rightarrow> True | Some l \<Rightarrow> 1 \<le> lim_rate l \<and> 1 \<le> lim_burst l) \<and>
    worker_pool registry (Load (\<lambda>_. '''') hostname) =
     \<lparr>pl_Queues = [''default''], pl_Registry = Some registry, pl_Concurrency = 8, pl_WorkerID = hostname,
      pl_Lease = 10 * Second, pl_JobTimeout = 30 * Second, pl_PollInterval = 100 * Millisecond,
      pl_ShutdownGrace = 20 * Second, pl_Events = True, pl_Stats = True\<rparr> \<and>
    api_limiter (Load (\<lambda>_. '''') hostname) = None \<and>
    worker_pool registry (Load example_env hostname) =
      (worker_pool registry (Load (\<lambda>_. '''') hostname))\<lparr>pl_Lease := 5 * Second\<rparr> \<and>
    api_limiter (Load example_env hostname) = None"
proof (intro conjI)
  show "let p = normalize registry (worker_pool registry (Load Getenv hostname)) in
     pl_Queues p \<noteq> [] \<and> 0 < pl_Concurrency p \<and> pl_WorkerID p \<noteq> '''' \<and> 0 < pl_Lease p \<and>
     0 < pl_JobTimeout p \<and> 0 < pl_PollInterval p \<and> 0 < pl_ShutdownGrace p \<and> pl_Registry p = Some registry"
    by (simp add: normalize_def worker_pool_def Load_def split_not_Nil Second_def Millisecond_def)
  show "case api_limiter (Load Getenv hostname) of None \<Rightarrow> True | Some l \<Rightarrow> 1 \<le> lim_rate l \<and> 1 \<le> lim_burst l"
    by (simp add: api_limiter_def NewLimiter_def Let_def)
  have "split ''default'' = [''default'']" by code_simp
  then show "worker_pool registry (Load (\<lambda>_. '''') hostname) =
     \<lparr>pl_Queues = [''default''], pl_Registry = Some registry, pl_Concurrency = 8, pl_WorkerID = hostname,
      pl_Lease = 10 * Second, pl_JobTimeout = 30 * Second, pl_PollInterval = 100 * Millisecond,
      pl_ShutdownGrace = 20 * Second, pl_Events = True, pl_Stats = True\<rparr>"
    by (simp add: worker_pool_def Load_def env_def envInt_def envDuration_def)
  show "api_limiter (Load (\<lambda>_. '''') hostname) = None"
    by (simp add: api_limiter_def NewLimiter_def Load_def env_def envInt_def)
  have decimals: "decimal 0 = ''0''" "decimal 8 = ''8''" "decimal 5 = ''5''" "decimal 30 = ''30''" "decimal 20 = ''20''" by code_simp+
  have "Atoi ''0'' = Some 0" "Atoi ''8'' = Some 8" "ParseDuration ''5s'' = Some (5 * Second)"
      "ParseDuration ''30s'' = Some (30 * Second)" "ParseDuration ''20s'' = Some (20 * Second)"
    using Atoi_decimal [of 0] Atoi_decimal [of 8] ParseDuration_seconds [of 5] ParseDuration_seconds [of 30] ParseDuration_seconds [of 20]
    by (simp_all add: decimals Second_def)
  then have "split (env example_env ''QUEUES'' ''default'') = [''default'']" "envInt example_env ''CONCURRENCY'' 8 = 8"
      "envInt example_env ''RATE_LIMIT_PER_SEC'' 0 = 0" "env example_env ''WORKER_ID'' hostname = hostname"
      "envDuration example_env ''LEASE_DURATION'' (10 * Second) = 5 * Second"
      "envDuration example_env ''JOB_TIMEOUT'' (30 * Second) = 30 * Second"
      "envDuration example_env ''SHUTDOWN_GRACE'' (20 * Second) = 20 * Second"
    using \<open>split ''default'' = _\<close> by (simp_all add: env_def envInt_def envDuration_def example_env_def)
  note example = this
  show "worker_pool registry (Load example_env hostname) =
      (worker_pool registry (Load (\<lambda>_. '''') hostname))\<lparr>pl_Lease := 5 * Second\<rparr>"
    unfolding worker_pool_def Load_def by (simp add: example) (simp add: env_def envInt_def envDuration_def \<open>split ''default'' = _\<close>)
  show "api_limiter (Load example_env hostname) = None"
    by (simp add: api_limiter_def NewLimiter_def Load_def example)
qed

end
