(* ===== verification/Events.thy ===== *)
theory Events
  imports Redis Step_Systems
begin

text \<open>
  \<open>src/internal/api/events.go\<close>: the hub that fans events out to the browsers that
  listen, and the bridge over a Redis channel. An event is an arbitrary value here; its
  JSON text is a parameter (\<open>json_Marshal\<close>, \<open>json_Unmarshal\<close>), as \<open>encoding/json\<close> on the
  dynamic payloads is outside the model.

  The map \<open>clients\<close> and every channel that was ever made are in the state of the hub:
  a channel has a buffer and is open or closed. A send on a closed channel panics, which is
  \<open>None\<close>. Every mutation of the map happens with the mutex held, so the operations below
  are atomic; the goroutine of \<open>Subscribe\<close> takes two steps: it removes the channel from the
  map under the mutex, and closes it after that.
\<close>

type_synonym chan = nat

record 'e channel =
  buffer :: "'e list"
  is_closed :: bool

record 'e Hub =
  clients :: "chan list"
  channels :: "'e channel list"

definition buffer_size :: nat where
  "buffer_size = 64"

definition NewHub :: "'e Hub" where
  "NewHub = \<lparr>clients = [], channels = []\<rparr>"

definition Subscribe :: "'e Hub \<Rightarrow> chan \<times> 'e Hub" where
  "Subscribe h =
     (let ch = length (channels h) in
      (ch, h\<lparr>clients := clients h @ [ch], channels := channels h @ [\<lparr>buffer = [], is_closed = False\<rparr>]\<rparr>))"

text \<open>\<open>select { case ch <- event: default: }\<close>\<close>

definition try_send :: "chan \<Rightarrow> 'e \<Rightarrow> 'e Hub \<Rightarrow> 'e Hub option" where
  "try_send ch event h =
     (if length (channels h) \<le> ch then Some h
      else (let c = channels h ! ch in
        if is_closed c then None
        else if length (buffer c) < buffer_size
          then Some (h\<lparr>channels := (channels h)[ch := c\<lparr>buffer := buffer c @ [event]\<rparr>]\<rparr>)
          else Some h))"

fun send_all :: "chan list \<Rightarrow> 'e \<Rightarrow> 'e Hub \<Rightarrow> 'e Hub option" where
  "send_all [] event h = Some h"
| "send_all (ch # chs) event h = (case try_send ch event h of None \<Rightarrow> None | Some h' \<Rightarrow> send_all chs event h')"

text \<open>
  The order in which \<open>range\<close> visits a map is not fixed: \<open>order\<close> is the one of this call, a
  permutation of the clients.
\<close>

definition Publish :: "chan list \<Rightarrow> 'e \<Rightarrow> 'e Hub \<Rightarrow> 'e Hub option" where
  "Publish order event h = send_all order event h"

definition remove_client :: "chan \<Rightarrow> 'e Hub \<Rightarrow> 'e Hub" where
  "remove_client ch h = h\<lparr>clients := filter (\<lambda>c. c \<noteq> ch) (clients h)\<rparr>"

text \<open>Closing a channel that is closed panics too.\<close>

definition close_channel :: "chan \<Rightarrow> 'e Hub \<Rightarrow> 'e Hub option" where
  "close_channel ch h =
     (if length (channels h) \<le> ch then Some h
      else if is_closed (channels h ! ch) then None
      else Some (h\<lparr>channels := (channels h)[ch := (channels h ! ch)\<lparr>is_closed := True\<rparr>]\<rparr>))"

text \<open>
  A receive: the oldest buffered event, also of a closed channel; \<open>None\<close> in the first
  component is the zero value of a closed and drained one.
\<close>

definition receive :: "chan \<Rightarrow> 'e Hub \<Rightarrow> ('e option \<times> 'e Hub) option" where
  "receive ch h =
     (if length (channels h) \<le> ch then None
      else (case buffer (channels h ! ch) of
          e # es \<Rightarrow> Some (Some e, h\<lparr>channels := (channels h)[ch := (channels h ! ch)\<lparr>buffer := es\<rparr>]\<rparr>)
        | [] \<Rightarrow> if is_closed (channels h ! ch) then Some (None, h) else None))"

section \<open>The stream of one browser\<close>

text \<open>
  \<open>ServeSSE\<close> after the headers: each round of its \<open>select\<close> is one of these. \<open>payload\<close>
  is the encoded event, \<open>None\<close> when it cannot be encoded.
\<close>

datatype sse_input = ClientGone | HeartbeatTick | Received "string option" | ChannelClosed

definition newlines :: string where
  "newlines = [CHR 0x0A, CHR 0x0A]"

fun ServeSSE :: "sse_input list \<Rightarrow> string" where
  "ServeSSE [] = ''''"
| "ServeSSE (ClientGone # _) = ''''"
| "ServeSSE (ChannelClosed # _) = ''''"
| "ServeSSE (HeartbeatTick # ins) = '': ping'' @ newlines @ ServeSSE ins"
| "ServeSSE (Received None # ins) = ServeSSE ins"
| "ServeSSE (Received (Some payload) # ins) = ''data: '' @ payload @ newlines @ ServeSSE ins"

section \<open>The bridge over Redis\<close>

definition redisEventChannel :: string where
  "redisEventChannel = ''forge:events''"

text \<open>Which of the pointers of \<open>RedisEvents\<close> are nil.\<close>

datatype events_client = NilEvents | RedisEvents (has_client: bool) (has_hub: bool)

text \<open>\<open>RedisEvents.Publish\<close>: the error it returns, and the new hub and server.\<close>

definition PublishEvent ::
  "('e \<Rightarrow> error + string) \<Rightarrow> fault \<Rightarrow> chan list \<Rightarrow> events_client \<Rightarrow> 'e \<Rightarrow> 'e Hub \<times> redis \<Rightarrow>
   (error option \<times> 'e Hub \<times> redis) option" where
  "PublishEvent json_Marshal f order r event = (\<lambda>(h, R).
     (case r of
        NilEvents \<Rightarrow> Some (None, h, R)
      | RedisEvents client hub \<Rightarrow>
          if \<not> client then
            (if hub then (case Publish order event h of None \<Rightarrow> None | Some h' \<Rightarrow> Some (None, h', R))
             else Some (None, h, R))
          else (case json_Marshal event of
              Inl e \<Rightarrow> Some (Some e, h, R)
            | Inr payload \<Rightarrow>
                (case redis_call f (\<lambda>R. ((), PUBLISH redisEventChannel payload R)) R of
                   (Inl e, R') \<Rightarrow> Some (Some e, h, R')
                 | (Inr _, R') \<Rightarrow> Some (None, h, R')))))"

text \<open>\<open>RedisEvents.Run\<close> on the messages that arrive; text that does not decode is skipped.\<close>

fun RunEvents ::
  "(string \<Rightarrow> 'e option) \<Rightarrow> ('e Hub \<Rightarrow> chan list) \<Rightarrow> events_client \<Rightarrow> string list \<Rightarrow> 'e Hub \<Rightarrow> 'e Hub option" where
  "RunEvents json_Unmarshal order r [] h = Some h"
| "RunEvents json_Unmarshal order r (msg # msgs) h =
     (if r = NilEvents \<or> \<not> has_client r \<or> \<not> has_hub r then Some h
      else (case json_Unmarshal msg of
          None \<Rightarrow> RunEvents json_Unmarshal order r msgs h
        | Some event \<Rightarrow> (case Publish (order h) event h of
            None \<Rightarrow> None | Some h' \<Rightarrow> RunEvents json_Unmarshal order r msgs h')))"

section \<open>The hub as a step system\<close>

text \<open>
  The state is the hub and the channels whose goroutine has removed them from the map but has
  not closed them yet. The result \<open>None\<close> of a step is a panic.
\<close>

type_synonym 'e hub_state = "'e Hub \<times> chan list"

inductive hub_step :: "'e hub_state \<Rightarrow> 'e hub_state option \<Rightarrow> bool" where
  subscribe: "hub_step (h, leaving) (Some (snd (Subscribe h), leaving))"
| publish: "mset order = mset (clients h) \<Longrightarrow>
    hub_step (h, leaving) (map_option (\<lambda>h'. (h', leaving)) (Publish order event h))"
| leave: "ch \<in> set (clients h) \<Longrightarrow> hub_step (h, leaving) (Some (remove_client ch h, ch # leaving))"
| close: "ch \<in> set leaving \<Longrightarrow>
    hub_step (h, leaving) (map_option (\<lambda>h'. (h', remove1 ch leaving)) (close_channel ch h))"
| receive: "receive ch h = Some (event, h') \<Longrightarrow> hub_step (h, leaving) (Some (h', leaving))"

inductive_cases hub_stepE: "hub_step s r"

definition open_channel :: "'e Hub \<Rightarrow> chan \<Rightarrow> bool" where
  "open_channel h ch \<longleftrightarrow> ch < length (channels h) \<and> \<not> is_closed (channels h ! ch)"

definition hub_ok :: "'e hub_state \<Rightarrow> bool" where
  "hub_ok = (\<lambda>(h, leaving).
     distinct (clients h @ leaving) \<and> (\<forall>ch \<in> set (clients h @ leaving). open_channel h ch) \<and>
     (\<forall>c \<in> set (channels h). length (buffer c) \<le> buffer_size))"

text \<open>What a channel looks like after an event was offered to it.\<close>

definition offered :: "'e \<Rightarrow> 'e channel \<Rightarrow> 'e channel" where
  "offered event c = (if length (buffer c) < buffer_size then c\<lparr>buffer := buffer c @ [event]\<rparr> else c)"

lemma offered_simps [simp]: "is_closed (offered event c) = is_closed c"
  by (simp add: offered_def)

lemma length_offered: "length (buffer c) \<le> buffer_size \<Longrightarrow> length (buffer (offered event c)) \<le> buffer_size"
  by (simp add: offered_def)

lemma try_send_open:
  "open_channel h ch \<Longrightarrow>
   try_send ch event h = Some (h\<lparr>channels := (channels h)[ch := offered event (channels h ! ch)]\<rparr>)"
  by (simp add: try_send_def open_channel_def offered_def Let_def)

lemma send_all_spec:
  assumes "distinct chs" "\<forall>ch \<in> set chs. open_channel h ch"
  shows "\<exists>cs. send_all chs event h = Some (h\<lparr>channels := cs\<rparr>) \<and> length cs = length (channels h) \<and>
    (\<forall>ch < length cs. cs ! ch = (if ch \<in> set chs then offered event (channels h ! ch) else channels h ! ch))"
  using assms
proof (induction chs arbitrary: h)
  case Nil
  show ?case by (rule exI [of _ "channels h"]) simp
next
  case (Cons c chs)
  let ?h = "h\<lparr>channels := (channels h)[c := offered event (channels h ! c)]\<rparr>"
  have "\<forall>ch \<in> set chs. open_channel ?h ch"
    using Cons.prems by (auto simp: open_channel_def nth_list_update)
  from Cons.IH [OF _ this] Cons.prems obtain cs where cs:
    "send_all chs event ?h = Some (?h\<lparr>channels := cs\<rparr>)" "length cs = length (channels h)"
    "\<forall>ch < length cs. cs ! ch = (if ch \<in> set chs then offered event (channels ?h ! ch) else channels ?h ! ch)"
    by auto
  have "c < length (channels h)" using Cons.prems by (simp add: open_channel_def)
  with cs Cons.prems show ?case
    by (intro exI [of _ cs]) (auto simp: try_send_open nth_list_update)
qed

lemma hub_ok_publish:
  assumes "hub_ok (h, leaving)" "mset order = mset (clients h)"
  obtains cs where "Publish order event h = Some (h\<lparr>channels := cs\<rparr>)" "length cs = length (channels h)"
    "\<forall>ch < length cs.
       cs ! ch = (if ch \<in> set (clients h) then offered event (channels h ! ch) else channels h ! ch)"
proof -
  have "distinct order" "set order = set (clients h)"
    using assms by (auto simp: hub_ok_def dest: mset_eq_setD) (metis mset_eq_imp_distinct_iff)
  then show ?thesis
    using send_all_spec [of order h event] assms(1) that by (auto simp: hub_ok_def Publish_def)
qed

lemma hub_ok_published:
  assumes ok: "hub_ok (h, leaving)" and order: "mset order = mset (clients h)"
  shows "\<exists>h'. Publish order event h = Some h' \<and> hub_ok (h', leaving)"
proof -
  obtain cs where cs: "Publish order event h = Some (h\<lparr>channels := cs\<rparr>)"
    "length cs = length (channels h)"
    "\<forall>ch < length cs.
       cs ! ch = (if ch \<in> set (clients h) then offered event (channels h ! ch) else channels h ! ch)"
    using hub_ok_publish [OF ok order, where event = event] by blast
  have "length (buffer c) \<le> buffer_size" if c: "c \<in> set cs" for c
  proof -
    obtain i where i: "i < length cs" "c = cs ! i" using c by (auto simp: in_set_conv_nth)
    moreover have "length (buffer (channels h ! i)) \<le> buffer_size"
      using ok i cs(2) by (auto simp: hub_ok_def)
    ultimately show ?thesis using cs(3) by (auto intro: length_offered)
  qed
  then show ?thesis
    using cs ok by (auto simp: hub_ok_def open_channel_def)
qed

lemma hub_step_ok:
  assumes "hub_step s r" "hub_ok s"
  shows "\<exists>s'. r = Some s' \<and> hub_ok s'"
  using assms(1)
proof cases
  case (subscribe h leaving)
  then show ?thesis
    using assms(2) by (auto simp: hub_ok_def Subscribe_def open_channel_def nth_append Let_def intro: less_SucI)
next
  case (publish order h leaving event)
  then show ?thesis using hub_ok_published [of h leaving order event] assms(2) by auto
next
  case (leave ch h leaving)
  then show ?thesis
    using assms(2) by (auto simp: hub_ok_def remove_client_def open_channel_def)
next
  case (close ch leaving h)
  then have ch: "ch \<notin> set (clients h)" "open_channel h ch" "distinct leaving"
    using assms(2) by (auto simp: hub_ok_def)
  then have "close_channel ch h = Some (h\<lparr>channels := (channels h)[ch := (channels h ! ch)\<lparr>is_closed := True\<rparr>]\<rparr>)"
    by (simp add: close_channel_def open_channel_def)
  then show ?thesis
    using close ch assms(2)
    by (auto simp: hub_ok_def open_channel_def nth_list_update set_remove1_eq
        dest!: set_update_subset_insert [THEN subsetD])
next
  case (receive ch h event h' leaving)
  then have "ch < length (channels h)" by (auto simp: receive_def split: if_splits)
  then have "length (buffer (channels h ! ch)) \<le> buffer_size"
    using assms(2) receive(1) by (simp add: hub_ok_def)
  then have len: "length es \<le> buffer_size" if "buffer (channels h ! ch) = e # es" for e es
    using that by simp
  then show ?thesis
    using receive assms(2) by (auto dest: len simp: hub_ok_def open_channel_def receive_def nth_list_update
        split: if_splits list.splits dest!: set_update_subset_insert [THEN subsetD])
qed

interpretation hub: invariant_system "\<lambda>s s'. hub_step s (Some s')" hub_ok
  by unfold_locales (use hub_step_ok in fastforce)

abbreviation (input) hub_reachable :: "'e hub_state \<Rightarrow> bool" where
  "hub_reachable s \<equiv> (\<lambda>s s'. hub_step s (Some s'))\<^sup>*\<^sup>* (NewHub, []) s"

lemma hub_ok_init: "hub_ok (NewHub, [])"
  by (simp add: hub_ok_def NewHub_def)

lemma hub_reachable_ok: "hub_reachable s \<Longrightarrow> hub_ok s"
  by (rule hub.steps_inv) (auto intro: hub_ok_init)

text \<open>
  C31: the hub never panics. However subscriptions, publications, receives and departures
  interleave, no event is sent on a closed channel and no channel is closed twice, and no
  buffer ever holds more than 64 events.\<close>

theorem Hub_never_panics:
  assumes "hub_reachable s" "hub_step s r"
  shows "r \<noteq> None \<and>
    (\<forall>c \<in> set (channels (fst s)). length (buffer c) \<le> buffer_size)"
  using hub_step_ok [OF assms(2)] hub_reachable_ok [OF assms(1)]
  by (auto simp: hub_ok_def split_beta)

text \<open>
  Fan-out. A publication appends the event to the buffer of every client that has room,
  drops it for a client whose buffer is full, never blocks, and touches no other channel;
  the order in which the map is visited makes no difference.\<close>

theorem Publish_fans_out:
  assumes "hub_reachable (h, leaving)" "mset order = mset (clients h)"
  shows "\<exists>h'. Publish order event h = Some h' \<and> clients h' = clients h \<and>
    length (channels h') = length (channels h) \<and>
    (\<forall>ch < length (channels h). channels h' ! ch =
      (let c = channels h ! ch in
       if ch \<in> set (clients h) \<and> length (buffer c) < 64 then c\<lparr>buffer := buffer c @ [event]\<rparr> else c))"
proof -
  obtain cs where "Publish order event h = Some (h\<lparr>channels := cs\<rparr>)" "length cs = length (channels h)"
    "\<forall>ch < length cs.
       cs ! ch = (if ch \<in> set (clients h) then offered event (channels h ! ch) else channels h ! ch)"
    using hub_ok_publish [OF hub_reachable_ok [OF assms(1)] assms(2), where event = event] by blast
  then show ?thesis by (auto simp: offered_def buffer_size_def Let_def)
qed

lemma hub_one_client: "hub_reachable (snd (Subscribe NewHub), [])"
  by (rule r_into_rtranclp) (rule hub_step.subscribe)

lemma Hub_never_panics_witness:
  "Publish [0] ''job.started'' (snd (Subscribe NewHub)) \<noteq> None"
proof -
  have "hub_step (snd (Subscribe NewHub), [])
      (map_option (\<lambda>h'. (h', [])) (Publish [0] ''job.started'' (snd (Subscribe NewHub))))"
    by (rule hub_step.publish) (simp add: Subscribe_def NewHub_def)
  then show ?thesis
    using Hub_never_panics [OF hub_one_client] by fastforce
qed

lemma Publish_fans_out_witness:
  "\<exists>h'. Publish [0] ''job.started'' (snd (Subscribe NewHub)) = Some h' \<and>
     buffer (channels h' ! 0) = [''job.started'']"
  using Publish_fans_out [OF hub_one_client, of "[0]" "''job.started''"]
  by (auto simp: Subscribe_def NewHub_def Let_def)

end
