(* ===== verification/Api.thy ===== *)
theory Api
  imports Schedule_Store Metrics Events RateLimit Go_Number
begin

text \<open>
  \<open>src/internal/api/server.go\<close>: the HTTP handlers over the queue, the schedule store, the
  limiter, the recorder and the event bridge.

  A handler gets the decoded body (decoding with \<open>encoding/json\<close> is a parameter, the limit
  on the size of the body is not), the path parameters that the router extracted and the
  state of the outside world: the database, Redis, the hub and the instruments. It returns the
  response and the new state. \<open>call\<close> collects what the environment contributes to one
  request: clocks, the new id, and what happens to the calls to Redis.
\<close>

section \<open>State\<close>

datatype api_event =
    JobEnqueued job
  | JobFailedEvent job
  | StatsTick Snapshot "StateCounts option" "job list option" "DeadJob list option"

record api_state =
  a_pg :: pg
  a_redis :: redis
  a_hub :: "api_event Hub"
  a_inst :: instruments

record Server =
  srv_limiter :: "Limiter option"
  srv_events :: events_client
  srv_stats :: bool
  srv_defaultQ :: string

record call =
  cl_env :: call_env
  cl_rnow :: int
  cl_unix_ms :: int
  cl_limit_fault :: fault
  cl_publish_fault :: fault
  cl_reached :: nat
  cl_answered :: "string \<Rightarrow> bool"
  cl_order :: "chan list"
  cl_marshal :: "api_event \<Rightarrow> error + string"

datatype body =
    ErrorBody string
  | StatusBody string
  | JobBody job
  | JobsBody "job list"
  | DeadBody "DeadJob list"
  | SnapshotBody Snapshot
  | ScheduleBody Schedule
  | SchedulesBody "Schedule list"
  | NoBody

record response =
  status_code :: int
  headers :: "(string \<times> string) list"
  body :: body

definition NewServer :: "Limiter option \<Rightarrow> events_client \<Rightarrow> bool \<Rightarrow> Server" where
  "NewServer limiter events stats =
     \<lparr>srv_limiter = limiter, srv_events = events, srv_stats = stats, srv_defaultQ = ''default''\<rparr>"

definition writeJSON :: "int \<Rightarrow> body \<Rightarrow> response" where
  "writeJSON status value =
     \<lparr>status_code = status, headers = [(''Content-Type'', ''application/json'')], body = value\<rparr>"

definition writeError :: "int \<Rightarrow> string \<Rightarrow> response" where
  "writeError status message = writeJSON status (ErrorBody message)"

text \<open>The text of an error; the texts of the server are the ones the failure carries.\<close>

fun Error_text :: "error \<Rightarrow> string" where
  "Error_text ErrInvalidTransition = ''invalid job state transition''"
| "Error_text ErrScheduleNotFound = ''schedule not found''"
| "Error_text ErrNoRows = ''no rows in result set''"
| "Error_text ErrNullScan = ''cannot scan NULL''"
| "Error_text (ErrConstraint m) = m"
| "Error_text (ErrDriver m) = m"
| "Error_text (ErrMessage m) = m"

text \<open>\<open>MaxBytesReader\<close> and the second \<open>Decode\<close>: a body over a megabyte never decodes.\<close>

definition decodeJSON :: "(string \<Rightarrow> 'a option) \<Rightarrow> string \<Rightarrow> 'a option" where
  "decodeJSON decode_one bytes = (if length bytes > 1048576 then None else decode_one bytes)"

text \<open>A call to the database from a handler.\<close>

definition on_pg :: "'a prog \<Rightarrow> api_state \<Rightarrow> (error + 'a) \<times> api_state" where
  "on_pg m a = (case run_state m (a_pg a) of (r, s) \<Rightarrow> (r, a\<lparr>a_pg := s\<rparr>))"

text \<open>
  \<open>_ = s.events.Publish(...)\<close>: the error is dropped. The hub does not panic (shown in theory
  \<open>Events\<close>).
\<close>

definition publish_event :: "Server \<Rightarrow> call \<Rightarrow> api_event \<Rightarrow> api_state \<Rightarrow> api_state" where
  "publish_event srv c e a =
     (case PublishEvent (cl_marshal c) (cl_publish_fault c) (cl_order c) (srv_events srv) e (a_hub a, a_redis a) of
        None \<Rightarrow> a
      | Some (_, h, R) \<Rightarrow> a\<lparr>a_hub := h, a_redis := R\<rparr>)"

definition snapshot_of :: "Server \<Rightarrow> call \<Rightarrow> string \<Rightarrow> int \<Rightarrow> api_state \<Rightarrow> Snapshot option \<times> api_state" where
  "snapshot_of srv c queue depth a =
     (case take_snapshot (srv_stats srv) (cl_answered c) (cl_rnow c) (e_gonow (cl_env c))
        (cl_unix_ms c div 1000) queue depth (a_inst a, a_redis a) of
        (snap, I) \<Rightarrow> (snap, a\<lparr>a_inst := I\<rparr>))"

section \<open>Jobs\<close>

record submitJobRequest =
  req_TenantID :: string
  req_Queue :: string
  req_Handler :: string
  req_Payload :: string
  req_Priority :: int
  req_MaxAttempts :: int
  req_IdempotencyKey :: string

definition invalid_job :: "submitJobRequest \<Rightarrow> bool" where
  "invalid_job req \<longleftrightarrow>
     req_Handler req = '''' \<or> length (req_Handler req) > 128 \<or> length (req_Queue req) > 128 \<or>
     req_Priority req < 0 \<or> req_Priority req > 32767 \<or> req_MaxAttempts req < 0 \<or> req_MaxAttempts req > 100"

definition parse_tenant :: "ext \<Rightarrow> string \<Rightarrow> uuid option" where
  "parse_tenant X raw = (if raw \<noteq> '''' then uuid_Parse X raw else Some DefaultTenantID)"

definition retry_after :: "duration \<Rightarrow> string" where
  "retry_after d = FormatInt (trunc (f64_round (Seconds d + 1)))"

definition submit_params :: "uuid \<Rightarrow> submitJobRequest \<Rightarrow> EnqueueParams" where
  "submit_params tenantID req =
     \<lparr>p_TenantID = tenantID, p_Queue = req_Queue req, p_Handler = req_Handler req,
      p_Payload = (if length (req_Payload req) = 0 then ''{}'' else req_Payload req),
      p_Priority = int16 (req_Priority req), p_MaxAttempts = req_MaxAttempts req, p_RunAt = zero_time,
      p_IdempotencyKey = req_IdempotencyKey req\<rparr>"

text \<open>The second half of \<open>submitJob\<close>: past the validation and the limiter.\<close>

definition enqueue_and_answer ::
  "ext \<Rightarrow> Server \<Rightarrow> call \<Rightarrow> uuid \<Rightarrow> submitJobRequest \<Rightarrow> api_state \<Rightarrow> response \<times> api_state" where
  "enqueue_and_answer X srv c tenantID req a =
     (case on_pg (queue_enqueue X (cl_env c) (submit_params tenantID req)) a of
        (Inl err, a) \<Rightarrow> (writeError 500 ''enqueue failed'', a)
      | (Inr (job, created, latency), a) \<Rightarrow>
          (let (I, R) = RecordEnqueue (srv_stats srv) (cl_reached c) (cl_rnow c) (Queue job)
                 (uuid_String X tenantID) latency (a_inst a, a_redis a);
               a = a\<lparr>a_inst := I, a_redis := R\<rparr>;
               a = publish_event srv c (JobEnqueued job) a
           in (writeJSON (if created then 201 else 200) (JobBody job), a)))"

definition submitJob ::
  "ext \<Rightarrow> Server \<Rightarrow> call \<Rightarrow> submitJobRequest option \<Rightarrow> api_state \<Rightarrow> response \<times> api_state" where
  "submitJob X srv c req a =
     (case req of
        None \<Rightarrow> (writeError 400 ''invalid JSON'', a)
      | Some req \<Rightarrow>
          if invalid_job req then (writeError 400 ''invalid job parameters'', a)
          else (case parse_tenant X (req_TenantID req) of
              None \<Rightarrow> (writeError 400 ''invalid tenant_id'', a)
            | Some tenantID \<Rightarrow>
                (case Allow (cl_limit_fault c) (cl_rnow c) (cl_unix_ms c) (srv_limiter srv)
                   (uuid_String X tenantID) (a_redis a) of
                   ((admit, retryAfter, err), R) \<Rightarrow>
                     if \<not> admit then
                       (let resp = writeError 429 ''rate limited'' in
                        (resp\<lparr>headers := (''Retry-After'', retry_after retryAfter) # headers resp\<rparr>,
                         a\<lparr>a_redis := R\<rparr>))
                     else enqueue_and_answer X srv c tenantID req (a\<lparr>a_redis := R\<rparr>))))"

definition parseID :: "ext \<Rightarrow> string \<Rightarrow> response + uuid" where
  "parseID X raw = (case uuid_Parse X raw of None \<Rightarrow> Inl (writeError 400 ''invalid id'') | Some i \<Rightarrow> Inr i)"

text \<open>\<open>id, ok := parseID(w, r); if !ok { return }\<close>\<close>

definition with_id :: "ext \<Rightarrow> string \<Rightarrow> (uuid \<Rightarrow> api_state \<Rightarrow> response \<times> api_state) \<Rightarrow> api_state \<Rightarrow> response \<times> api_state" where
  "with_id X raw k a = (case parseID X raw of Inl resp \<Rightarrow> (resp, a) | Inr i \<Rightarrow> k i a)"

definition getJob :: "ext \<Rightarrow> string \<Rightarrow> api_state \<Rightarrow> response \<times> api_state" where
  "getJob X raw = with_id X raw (\<lambda>i a.
     case on_pg (GetJob i) a of
       (Inl err, a) \<Rightarrow> (writeError 404 ''job not found'', a)
     | (Inr job, a) \<Rightarrow> (writeJSON 200 (JobBody job), a))"

text \<open>\<open>limit, _ := strconv.Atoi(...)\<close>: the error is dropped, the value that comes with it is not.\<close>

definition query_limit :: "string \<Rightarrow> int" where
  "query_limit raw = fst (ParseInt10 raw)"

definition listJobs :: "string \<Rightarrow> api_state \<Rightarrow> response \<times> api_state" where
  "listJobs limit a =
     (case on_pg (RecentJobs (query_limit limit)) a of
        (Inl err, a) \<Rightarrow> (writeError 500 ''list jobs failed'', a)
      | (Inr js, a) \<Rightarrow> (writeJSON 200 (JobsBody js), a))"

definition conflict_or_500 :: "error \<Rightarrow> int" where
  "conflict_or_500 err = (if err = ErrInvalidTransition then 409 else 500)"

definition cancelJob :: "ext \<Rightarrow> Server \<Rightarrow> call \<Rightarrow> string \<Rightarrow> api_state \<Rightarrow> response \<times> api_state" where
  "cancelJob X srv c raw = with_id X raw (\<lambda>i a.
     case on_pg (Cancel (e_now (cl_env c)) i) a of
       (Inl err, a) \<Rightarrow> (writeError (conflict_or_500 err) ''job is not cancellable'', a)
     | (Inr job, a) \<Rightarrow> (writeJSON 200 (JobBody job), publish_event srv c (JobFailedEvent job) a))"

text \<open>A panic while the snapshot is taken is answered by the recoverer.\<close>

definition queueStats :: "Server \<Rightarrow> call \<Rightarrow> string \<Rightarrow> api_state \<Rightarrow> response \<times> api_state" where
  "queueStats srv c name a =
     (let name = (if name = '''' then srv_defaultQ srv else name) in
      case on_pg (Depth name) a of
        (Inl err, a) \<Rightarrow> (writeError 500 ''stats failed'', a)
      | (Inr depth, a) \<Rightarrow>
          (case snapshot_of srv c name depth a of
             (None, a) \<Rightarrow> (\<lparr>status_code = 500, headers = [], body = NoBody\<rparr>, a)
           | (Some snap, a) \<Rightarrow> (writeJSON 200 (SnapshotBody snap), a)))"

definition listDLQ :: "string \<Rightarrow> api_state \<Rightarrow> response \<times> api_state" where
  "listDLQ limit a =
     (case on_pg (ListDLQ (query_limit limit)) a of
        (Inl err, a) \<Rightarrow> (writeError 500 ''list dlq failed'', a)
      | (Inr js, a) \<Rightarrow> (writeJSON 200 (DeadBody js), a))"

definition requeueDLQ :: "ext \<Rightarrow> Server \<Rightarrow> call \<Rightarrow> string \<Rightarrow> api_state \<Rightarrow> response \<times> api_state" where
  "requeueDLQ X srv c raw = with_id X raw (\<lambda>i a.
     case on_pg (RequeueDLQ (e_now (cl_env c)) i) a of
       (Inl err, a) \<Rightarrow> (writeError (conflict_or_500 err) ''job is not requeueable'', a)
     | (Inr job, a) \<Rightarrow> (writeJSON 200 (JobBody job), publish_event srv c (JobEnqueued job) a))"

section \<open>Schedules\<close>

definition listSchedules :: "(string \<Rightarrow> 'k::linorder) \<Rightarrow> api_state \<Rightarrow> response \<times> api_state" where
  "listSchedules coll a =
     (case on_pg (ListSchedules coll) a of
        (Inl err, a) \<Rightarrow> (writeError 500 ''list schedules failed'', a)
      | (Inr items, a) \<Rightarrow> (writeJSON 200 (SchedulesBody items), a))"

record createScheduleRequest =
  creq_TenantID :: string
  creq_Name :: string
  creq_CronExpr :: string
  creq_Payload :: string
  creq_Queue :: string
  creq_Handler :: string

definition createSchedule ::
  "ext \<Rightarrow> call \<Rightarrow> createScheduleRequest option \<Rightarrow> api_state \<Rightarrow> response \<times> api_state" where
  "createSchedule X c req a =
     (case req of
        None \<Rightarrow> (writeError 400 ''invalid JSON'', a)
      | Some req \<Rightarrow>
          (case parse_tenant X (creq_TenantID req) of
             None \<Rightarrow> (writeError 400 ''invalid tenant_id'', a)
           | Some tenantID \<Rightarrow>
               (case on_pg (Create X (e_gonow (cl_env c)) (e_newid (cl_env c))
                    \<lparr>cp_TenantID = tenantID, cp_Name = creq_Name req, cp_CronExpr = creq_CronExpr req,
                     cp_Payload = creq_Payload req, cp_Queue = creq_Queue req, cp_Handler = creq_Handler req\<rparr>) a of
                  (Inl err, a) \<Rightarrow> (writeError 400 (Error_text err), a)
                | (Inr item, a) \<Rightarrow> (writeJSON 201 (ScheduleBody item), a))))"

definition setScheduleEnabled :: "ext \<Rightarrow> bool \<Rightarrow> string \<Rightarrow> api_state \<Rightarrow> response \<times> api_state" where
  "setScheduleEnabled X enabled raw = with_id X raw (\<lambda>i a.
     case on_pg (SetEnabled i enabled) a of
       (Inl err, a) \<Rightarrow> (writeError 404 ''schedule not found'', a)
     | (Inr item, a) \<Rightarrow> (writeJSON 200 (ScheduleBody item), a))"

definition pauseSchedule :: "ext \<Rightarrow> string \<Rightarrow> api_state \<Rightarrow> response \<times> api_state" where
  "pauseSchedule X = setScheduleEnabled X False"

definition resumeSchedule :: "ext \<Rightarrow> string \<Rightarrow> api_state \<Rightarrow> response \<times> api_state" where
  "resumeSchedule X = setScheduleEnabled X True"

definition deleteSchedule :: "ext \<Rightarrow> string \<Rightarrow> api_state \<Rightarrow> response \<times> api_state" where
  "deleteSchedule X raw = with_id X raw (\<lambda>i a.
     case on_pg (Delete i) a of
       (Inl err, a) \<Rightarrow> (writeError 404 ''schedule not found'', a)
     | (Inr _, a) \<Rightarrow> (\<lparr>status_code = 204, headers = [], body = NoBody\<rparr>, a))"

section \<open>The router\<close>

definition healthz :: response where
  "healthz = writeJSON 200 (StatusBody ''ok'')"

definition readyz :: "bool \<Rightarrow> response" where
  "readyz ping_ok =
     (if \<not> ping_ok then writeError 503 ''database unavailable'' else writeJSON 200 (StatusBody ''ready''))"

datatype route =
    RHealthz | RReadyz | RMetrics | RSubmitJob | RListJobs | RGetJob string | RCancelJob string
  | RQueueStats string | RListDLQ | RRequeueDLQ string | REvents | RListSchedules | RCreateSchedule
  | RPauseSchedule string | RResumeSchedule string | RDeleteSchedule string

text \<open>
  The routes of \<open>Router\<close> on the segments of a path; a parameter takes one segment, which is
  not empty at the end of the path. \<open>None\<close> is a request that no route takes.
\<close>

definition Router :: "string \<Rightarrow> string list \<Rightarrow> route option" where
  "Router method path =
     (if path = [''healthz''] \<and> method = ''GET'' then Some RHealthz
      else if path = [''readyz''] \<and> method = ''GET'' then Some RReadyz
      else if path = [''metrics''] then Some RMetrics
      else (case path of
         [v, r] \<Rightarrow>
           if v \<noteq> ''v1'' then None
           else if r = ''jobs'' \<and> method = ''POST'' then Some RSubmitJob
           else if r = ''jobs'' \<and> method = ''GET'' then Some RListJobs
           else if r = ''dlq'' \<and> method = ''GET'' then Some RListDLQ
           else if r = ''events'' \<and> method = ''GET'' then Some REvents
           else if r = ''schedules'' \<and> method = ''GET'' then Some RListSchedules
           else if r = ''schedules'' \<and> method = ''POST'' then Some RCreateSchedule
           else None
       | [v, r, i] \<Rightarrow>
           if v \<noteq> ''v1'' \<or> i = '''' then None
           else if r = ''jobs'' \<and> method = ''GET'' then Some (RGetJob i)
           else if r = ''schedules'' \<and> method = ''DELETE'' then Some (RDeleteSchedule i)
           else None
       | [v, r, i, act] \<Rightarrow>
           if v \<noteq> ''v1'' then None
           else if r = ''jobs'' \<and> act = ''cancel'' \<and> method = ''POST'' then Some (RCancelJob i)
           else if r = ''queues'' \<and> act = ''stats'' \<and> method = ''GET'' then Some (RQueueStats i)
           else if r = ''dlq'' \<and> act = ''requeue'' \<and> method = ''POST'' then Some (RRequeueDLQ i)
           else if r = ''schedules'' \<and> act = ''pause'' \<and> method = ''POST'' then Some (RPauseSchedule i)
           else if r = ''schedules'' \<and> act = ''resume'' \<and> method = ''POST'' then Some (RResumeSchedule i)
           else None
       | _ \<Rightarrow> None))"

definition cors_headers :: "(string \<times> string) list" where
  "cors_headers =
     [(''X-Content-Type-Options'', ''nosniff''), (''Referrer-Policy'', ''no-referrer''),
      (''Content-Security-Policy'', ''default-src '' @ [CHR 0x27] @ ''none'' @ [CHR 0x27] @
        ''; frame-ancestors '' @ [CHR 0x27] @ ''none'' @ [CHR 0x27]),
      (''Access-Control-Allow-Origin'', ''*''),
      (''Access-Control-Allow-Headers'', ''content-type, idempotency-key''),
      (''Access-Control-Allow-Methods'', ''GET, POST, DELETE, OPTIONS'')]"

definition cors ::
  "string \<Rightarrow> (api_state \<Rightarrow> response \<times> api_state) \<Rightarrow> api_state \<Rightarrow> response \<times> api_state" where
  "cors method handler a =
     (if method = ''OPTIONS'' then (\<lparr>status_code = 204, headers = cors_headers, body = NoBody\<rparr>, a)
      else (case handler a of (resp, a') \<Rightarrow> (resp\<lparr>headers := cors_headers @ headers resp\<rparr>, a')))"

section \<open>The statistics that are pushed\<close>

text \<open>One tick of \<open>StartStatsTicks\<close>: only a failing \<open>Depth\<close> skips it.\<close>

definition stats_tick :: "Server \<Rightarrow> call \<Rightarrow> api_state \<Rightarrow> api_state" where
  "stats_tick srv c a =
     (case on_pg (Depth (srv_defaultQ srv)) a of
        (Inl err, a) \<Rightarrow> a
      | (Inr depth, a) \<Rightarrow>
          (case snapshot_of srv c (srv_defaultQ srv) depth a of
             (None, a) \<Rightarrow> a
           | (Some snap, a) \<Rightarrow>
               (case on_pg (StateCounts (srv_defaultQ srv)) a of (counts, a) \<Rightarrow>
               (case on_pg (RecentJobs 50) a of (active, a) \<Rightarrow>
               (case on_pg (ListDLQ 100) a of (dlq, a) \<Rightarrow>
                 (case Publish (cl_order c)
                    (StatsTick snap (case counts of Inl _ \<Rightarrow> None | Inr x \<Rightarrow> Some x)
                      (case active of Inl _ \<Rightarrow> None | Inr x \<Rightarrow> Some x)
                      (case dlq of Inl _ \<Rightarrow> None | Inr x \<Rightarrow> Some x)) (a_hub a) of
                    None \<Rightarrow> a
                  | Some h \<Rightarrow> a\<lparr>a_hub := h\<rparr>))))))"

section \<open>Submitting a job\<close>

lemma a_pg_publish_event [simp]: "a_pg (publish_event srv c e a) = a_pg a"
  by (simp add: publish_event_def split: option.splits prod.splits)

lemma fst_enqueue_and_answer:
  assumes "run_state (queue_enqueue X (cl_env c) (submit_params tenantID req)) (a_pg a) = (r, s)"
  shows "fst (enqueue_and_answer X srv c tenantID req a) =
      (case r of Inl _ \<Rightarrow> writeError 500 ''enqueue failed''
       | Inr (job, created, _) \<Rightarrow> writeJSON (if created then 201 else 200) (JobBody job))"
    and "a_pg (snd (enqueue_and_answer X srv c tenantID req a)) = s"
  using assms by (auto simp: enqueue_and_answer_def on_pg_def Let_def split: prod.splits sum.splits)

lemma retry_after_second: "retry_after Second = ''2''"
proof -
  have "f64_round 1 = 1" "f64_round 2 = 2"
    using f64_round_of_int [of 1] f64_round_of_int [of 2] by simp_all
  then have "retry_after Second = FormatInt 2"
    by (simp add: retry_after_def Seconds_def go_quot_def go_rem_def Second_def trunc_def)
  also have "\<dots> = ''2''" by (simp add: FormatInt_def decimal.simps digit_def char_of_digit)
  finally show ?thesis .
qed

text \<open>
  C10: what \<open>POST /v1/jobs\<close> answers, on every branch. A body that does not decode, parameters
  out of range and a malformed tenant are 400 and reach neither the limiter nor the
  database; a refusal of the limiter is 429 with \<open>Retry-After: 2\<close> and does not reach the
  database; otherwise the answer is decided by \<open>Enqueue\<close> alone: 500 when it fails, 201 with
  the job when it is new and 200 with the existing job when the key was used before.\<close>

theorem Submit_response:
  assumes "submitJob X srv c req a = (resp, a')"
    and "Allow (cl_limit_fault c) (cl_rnow c) (cl_unix_ms c) (srv_limiter srv)
      (uuid_String X (the (parse_tenant X (req_TenantID (the req))))) (a_redis a) = ((admit, wait, err), R)"
    and "run_state (queue_enqueue X (cl_env c)
      (submit_params (the (parse_tenant X (req_TenantID (the req)))) (the req))) (a_pg a) = (r, s)"
  shows "if req = None \<or> invalid_job (the req) \<or> parse_tenant X (req_TenantID (the req)) = None
    then status_code resp = 400 \<and> a' = a
    else if \<not> admit then status_code resp = 429 \<and> (''Retry-After'', ''2'') \<in> set (headers resp) \<and> a_pg a' = a_pg a
    else a_pg a' = s \<and>
      (case r of Inl _ \<Rightarrow> status_code resp = 500
       | Inr (job, created, _) \<Rightarrow> status_code resp = (if created then 201 else 200) \<and> body resp = JobBody job)"
proof -
  consider "req = None" | q where "req = Some q" "invalid_job q"
    | q where "req = Some q" "\<not> invalid_job q" "parse_tenant X (req_TenantID q) = None"
    | q t where "req = Some q" "\<not> invalid_job q" "parse_tenant X (req_TenantID q) = Some t"
    by (cases req; auto)
  then show ?thesis
  proof cases
    case (4 q t)
    show ?thesis
    proof (cases admit)
      case True
      with 4 assms(1,2) have "enqueue_and_answer X srv c t q (a\<lparr>a_redis := R\<rparr>) = (resp, a')"
        by (simp add: submitJob_def)
      moreover have "run_state (queue_enqueue X (cl_env c) (submit_params t q)) (a_pg (a\<lparr>a_redis := R\<rparr>)) = (r, s)"
        using 4 assms(3) by simp
      ultimately show ?thesis
        using 4 True fst_enqueue_and_answer [of X c t q "a\<lparr>a_redis := R\<rparr>" r s srv]
        by (auto simp: writeJSON_def writeError_def split: sum.splits)
    next
      case False
      then have "wait = Second"
        using assms(2) by (auto simp: Allow_def split: option.splits prod.splits sum.splits if_splits)
      with 4 False assms(1,2) show ?thesis
        by (auto simp: submitJob_def writeJSON_def writeError_def retry_after_second Let_def)
    qed
  qed (use assms(1) in \<open>auto simp: submitJob_def writeJSON_def writeError_def\<close>)
qed

lemma with_id_pg:
  "(\<And>i. fst (k i a) = fst (k' i a') \<and> a_pg (snd (k i a)) = a_pg (snd (k' i a'))) \<Longrightarrow> a_pg a = a_pg a' \<Longrightarrow>
   fst (with_id X raw k a) = fst (with_id X raw k' a') \<and>
   a_pg (snd (with_id X raw k a)) = a_pg (snd (with_id X raw k' a'))"
  by (simp add: with_id_def split: sum.splits)

lemma submit_decided:
  assumes "submitJob X srv c req a = (resp, a')" "status_code resp \<noteq> 429"
  shows "(resp, a_pg a') = (case req of
      None \<Rightarrow> (writeError 400 ''invalid JSON'', a_pg a)
    | Some q \<Rightarrow> if invalid_job q then (writeError 400 ''invalid job parameters'', a_pg a)
        else (case parse_tenant X (req_TenantID q) of
            None \<Rightarrow> (writeError 400 ''invalid tenant_id'', a_pg a)
          | Some t \<Rightarrow> (case run_state (queue_enqueue X (cl_env c) (submit_params t q)) (a_pg a) of
              (Inl _, s) \<Rightarrow> (writeError 500 ''enqueue failed'', s)
            | (Inr (job, created, _), s) \<Rightarrow> (writeJSON (if created then 201 else 200) (JobBody job), s))))"
proof (cases "\<exists>q t. req = Some q \<and> \<not> invalid_job q \<and> parse_tenant X (req_TenantID q) = Some t")
  case True
  then obtain q t where q: "req = Some q" "\<not> invalid_job q" "parse_tenant X (req_TenantID q) = Some t" by blast
  obtain admit w e R where al: "Allow (cl_limit_fault c) (cl_rnow c) (cl_unix_ms c) (srv_limiter srv)
      (uuid_String X t) (a_redis a) = ((admit, w, e), R)" by (metis surj_pair)
  with q assms have admit "enqueue_and_answer X srv c t q (a\<lparr>a_redis := R\<rparr>) = (resp, a')"
    by (auto simp: submitJob_def writeError_def writeJSON_def Let_def split: if_splits)
  with q fst_enqueue_and_answer [of X c t q "a\<lparr>a_redis := R\<rparr>" _ _ srv] show ?thesis
    by (auto split: prod.splits sum.splits)
qed (use assms(1) in \<open>auto simp: submitJob_def split: option.splits if_splits\<close>)

text \<open>
  C29: Redis is outside the correctness boundary. The answer to a submission, a cancellation or
  a requeueing and its effect on the database do not depend on what Redis holds or on which
  calls to it fail, nor on the hub or the metrics, except for the refusal 429; and a limiter
  that cannot reach Redis refuses nobody.\<close>

theorem Redis_not_needed:
  assumes "cl_env c = cl_env c'" "a_pg a = a_pg a'"
    and "submitJob X srv c req a = (resp, b)" "submitJob X srv' c' req a' = (resp', b')"
  shows "(status_code resp \<noteq> 429 \<and> status_code resp' \<noteq> 429 \<longrightarrow> resp = resp' \<and> a_pg b = a_pg b') \<and>
    (cl_limit_fault c \<noteq> NoFault \<longrightarrow> status_code resp \<noteq> 429) \<and>
    (fst (cancelJob X srv c raw a) = fst (cancelJob X srv' c' raw a') \<and>
      a_pg (snd (cancelJob X srv c raw a)) = a_pg (snd (cancelJob X srv' c' raw a'))) \<and>
    (fst (requeueDLQ X srv c raw a) = fst (requeueDLQ X srv' c' raw a') \<and>
      a_pg (snd (requeueDLQ X srv c raw a)) = a_pg (snd (requeueDLQ X srv' c' raw a')))"
proof -
  have part1: "status_code resp \<noteq> 429 \<and> status_code resp' \<noteq> 429 \<longrightarrow> resp = resp' \<and> a_pg b = a_pg b'"
    using submit_decided [OF assms(3)] submit_decided [OF assms(4)] unfolding assms(1,2) by (metis prod.inject)
  have part2: "cl_limit_fault c \<noteq> NoFault \<longrightarrow> status_code resp \<noteq> 429"
    using assms(3)
    by (auto simp: submitJob_def Allow_def redis_call_def enqueue_and_answer_def writeError_def writeJSON_def
        split: option.splits if_splits fault.splits prod.splits sum.splits)
  have part3: "fst (cancelJob X srv c raw a) = fst (cancelJob X srv' c' raw a') \<and>
      a_pg (snd (cancelJob X srv c raw a)) = a_pg (snd (cancelJob X srv' c' raw a'))"
    unfolding cancelJob_def
    by (rule with_id_pg) (use assms(1,2) in \<open>auto simp: on_pg_def split: prod.splits sum.splits\<close>)
  have part4: "fst (requeueDLQ X srv c raw a) = fst (requeueDLQ X srv' c' raw a') \<and>
      a_pg (snd (requeueDLQ X srv c raw a)) = a_pg (snd (requeueDLQ X srv' c' raw a'))"
    unfolding requeueDLQ_def
    by (rule with_id_pg) (use assms(1,2) in \<open>auto simp: on_pg_def split: prod.splits sum.splits\<close>)
  show ?thesis
    by (rule conjI [OF part1 conjI [OF part2 conjI [OF part3 part4]]])
qed

text \<open>
  Failures of the database that look like missing rows. When the connection fails, reading
  a job, pausing, resuming or deleting a schedule answer 404 as if the row did not exist,
  whatever the tables hold, while cancelling and listing answer 500.\<close>

theorem Failure_reported_as_missing:
  assumes "faults (a_pg a) = Refused m # fs" "uuid_Parse X raw = Some i"
  shows "fst (getJob X raw a) = writeError 404 ''job not found'' \<and>
    fst (setScheduleEnabled X enabled raw a) = writeError 404 ''schedule not found'' \<and>
    fst (deleteSchedule X raw a) = writeError 404 ''schedule not found'' \<and>
    fst (cancelJob X srv c raw a) = writeError 500 ''job is not cancellable'' \<and>
    fst (listJobs limit a) = writeError 500 ''list jobs failed'' \<and>
    fst (listDLQ limit a) = writeError 500 ''list dlq failed''"
  using assms
  by (simp add: getJob_def setScheduleEnabled_def deleteSchedule_def cancelJob_def listJobs_def listDLQ_def
      with_id_def parseID_def on_pg_def GetJob_def SetEnabled_def scanSchedule_def Delete_def Cancel_def
      RecentJobs_def ListDLQ_def stmt_def run_round_trip run_tryM run_norows conflict_or_500_def)

definition sample_call :: call where
  "sample_call = \<lparr>cl_env = \<lparr>e_gonow = 50, e_now = 50, e_newid = 8, e_elapsed = 1\<rparr>, cl_rnow = 0, cl_unix_ms = 0,
     cl_limit_fault = NoFault, cl_publish_fault = NoFault, cl_reached = 3, cl_answered = (\<lambda>_. True),
     cl_order = [], cl_marshal = (\<lambda>_. Inr '''')\<rparr>"

definition sample_server :: Server where
  "sample_server = NewServer None (RedisEvents True True) True"

definition sample_state :: "db \<Rightarrow> api_state" where
  "sample_state d = \<lparr>a_pg = sample_pg d, a_redis = empty_redis, a_hub = NewHub, a_inst = no_records\<rparr>"

definition sample_request :: submitJobRequest where
  "sample_request = \<lparr>req_TenantID = '''', req_Queue = '''', req_Handler = ''echo'', req_Payload = '''',
     req_Priority = 40000, req_MaxAttempts = 0, req_IdempotencyKey = ''''\<rparr>"

lemma Submit_response_witness:
  "status_code (fst (submitJob sample_ext sample_server sample_call (Some sample_request) (sample_state empty_db))) = 400"
proof -
  have "invalid_job sample_request" by (simp add: invalid_job_def sample_request_def)
  moreover obtain resp a' where run:
    "submitJob sample_ext sample_server sample_call (Some sample_request) (sample_state empty_db) = (resp, a')"
    by force
  moreover obtain admit w e R where al: "Allow (cl_limit_fault sample_call) (cl_rnow sample_call) (cl_unix_ms sample_call)
      (srv_limiter sample_server) (uuid_String sample_ext (the (parse_tenant sample_ext (req_TenantID (the (Some sample_request))))))
      (a_redis (sample_state empty_db)) = ((admit, w, e), R)" by (metis surj_pair)
  moreover obtain r s where enq: "run_state (queue_enqueue sample_ext (cl_env sample_call)
      (submit_params (the (parse_tenant sample_ext (req_TenantID (the (Some sample_request))))) (the (Some sample_request))))
      (a_pg (sample_state empty_db)) = (r, s)" by force
  ultimately show ?thesis using Submit_response [OF run al enq] by simp
qed

lemma Redis_not_needed_witness:
  "status_code (fst (submitJob sample_ext (sample_server\<lparr>srv_limiter := Some \<lparr>lim_rate = 1, lim_burst = 1\<rparr>\<rparr>)
     (sample_call\<lparr>cl_limit_fault := Refused ''down''\<rparr>) (Some sample_request) (sample_state empty_db))) \<noteq> 429"
  using Redis_not_needed [OF _ _ prod.collapse [symmetric] prod.collapse [symmetric],
      of "sample_call\<lparr>cl_limit_fault := Refused ''down''\<rparr>" "sample_call\<lparr>cl_limit_fault := Refused ''down''\<rparr>"
         "sample_state empty_db" "sample_state empty_db"]
  by simp

lemma Failure_reported_as_missing_witness:
  "status_code (fst (getJob sample_ext ''uuuuuuu''
     ((sample_state (sample_db Ready))\<lparr>a_pg := (sample_pg (sample_db Ready))\<lparr>faults := [Refused ''reset'']\<rparr>\<rparr>))) = 404"
  using Failure_reported_as_missing [of
      "(sample_state (sample_db Ready))\<lparr>a_pg := (sample_pg (sample_db Ready))\<lparr>faults := [Refused ''reset'']\<rparr>\<rparr>"
      "''reset''" "[]" sample_ext "''uuuuuuu''" 7]
  by (simp add: writeError_def writeJSON_def sample_ext_def)

end
