(* ===== verification/Select_Loop.thy ===== *)
theory Select_Loop
  imports Main
begin

text \<open>
  The shape of every background goroutine of the program: \<open>for { select { case <-ctx.Done():
  return; case x := <-ch: ... } }\<close>. What the \<open>select\<close> of each round chooses is a stream of
  the environment: \<open>Done\<close>, or \<open>Recv x\<close> with the value that arrived. The body gives the next
  state and whether the loop goes on. The loop itself may run for ever, so it is a partial
  function: \<open>None\<close> means that it never returns.

  \<open>rounds\<close> is the same loop on a finite list of values; the lemmas say when the loop returns
  and that it then did the rounds before the end. The locales are the interfaces through which
  the loops of the components get these facts.
\<close>

datatype 'e choice = Done | Recv 'e

partial_function (option) select_loop ::
  "('e \<Rightarrow> 's \<Rightarrow> bool \<times> 's) \<Rightarrow> (nat \<Rightarrow> 'e choice) \<Rightarrow> nat \<Rightarrow> 's \<Rightarrow> 's option" where
  "select_loop body evs i s =
     (case evs i of
        Done \<Rightarrow> Some s
      | Recv e \<Rightarrow> (case body e s of (continue, s') \<Rightarrow> if continue then select_loop body evs (Suc i) s' else Some s'))"

fun rounds :: "('e \<Rightarrow> 's \<Rightarrow> bool \<times> 's) \<Rightarrow> 'e list \<Rightarrow> 's \<Rightarrow> bool \<times> 's" where
  "rounds body [] s = (True, s)"
| "rounds body (e # es) s = (case body e s of (continue, s') \<Rightarrow> if continue then rounds body es s' else (False, s'))"

text \<open>The values before the end, and an end behind them.\<close>

definition done_after :: "(nat \<Rightarrow> 'e choice) \<Rightarrow> nat \<Rightarrow> 'e list \<Rightarrow> bool" where
  "done_after evs i es \<longleftrightarrow> (\<forall>k < length es. evs (i + k) = Recv (es ! k)) \<and> evs (i + length es) = Done"

lemma done_after_Cons: "done_after evs i (e # es) \<longleftrightarrow> evs i = Recv e \<and> done_after evs (Suc i) es"
  by (auto simp: done_after_def nth_Cons less_Suc_eq_0_disj split: nat.splits)

lemma done_after_ex:
  assumes "evs (i + n) = Done"
  shows "\<exists>es. done_after evs i es"
  using assms
proof (induction n arbitrary: i)
  case 0
  then show ?case by (intro exI [of _ "[]"]) (simp add: done_after_def)
next
  case (Suc n)
  show ?case
  proof (cases "evs i")
    case Done
    then show ?thesis by (intro exI [of _ "[]"]) (simp add: done_after_def)
  next
    case (Recv e)
    from Suc.IH [of "Suc i"] Suc.prems obtain es where "done_after evs (Suc i) es" by auto
    with Recv show ?thesis by (intro exI [of _ "e # es"]) (simp add: done_after_Cons)
  qed
qed

text \<open>A loop whose context ends returns, and has done the rounds before the end.\<close>

lemma select_loop_done:
  "done_after evs i es \<Longrightarrow> select_loop body evs i s = Some (snd (rounds body es s))"
proof (induction es arbitrary: i s)
  case Nil
  then show ?case by (simp add: done_after_def select_loop.simps)
next
  case (Cons e es)
  then show ?case
    by (subst select_loop.simps) (auto simp: done_after_Cons split: prod.splits)
qed

text \<open>A body that ends the loop does so without the context.\<close>

lemma select_loop_stops:
  "\<forall>k < length es. evs (i + k) = Recv (es ! k) \<Longrightarrow> rounds body es s = (False, s') \<Longrightarrow>
   select_loop body evs i s = Some s'"
proof (induction es arbitrary: i s)
  case (Cons e es)
  have evs: "evs i = Recv e" "\<forall>k < length es. evs (Suc i + k) = Recv (es ! k)"
    using Cons.prems(1) by (auto simp: nth_Cons split: nat.splits dest: spec [of _ 0] spec [of _ "Suc _"])
  with Cons show ?case
    by (subst select_loop.simps) (auto split: prod.splits if_splits)
qed simp

text \<open>A loop that returned met the end of its context or a body that ended it.\<close>

lemma select_loop_returns:
  assumes "select_loop body evs i s = Some s'"
  shows "\<exists>es. (\<forall>k < length es. evs (i + k) = Recv (es ! k)) \<and> s' = snd (rounds body es s) \<and>
    (evs (i + length es) = Done \<or> \<not> fst (rounds body es s))"
proof (rule select_loop.raw_induct [where P = "\<lambda>body evs i s s'. \<exists>es. (\<forall>k < length es. evs (i + k) = Recv (es ! k)) \<and>
    s' = snd (rounds body es s) \<and> (evs (i + length es) = Done \<or> \<not> fst (rounds body es s))", OF _ assms])
  fix f :: "('e \<Rightarrow> 's \<Rightarrow> bool \<times> 's) \<Rightarrow> (nat \<Rightarrow> 'e choice) \<Rightarrow> nat \<Rightarrow> 's \<Rightarrow> 's option"
  fix body evs i s s'
  assume IH: "\<And>body evs i s s'. f body evs i s = Some s' \<Longrightarrow> \<exists>es. (\<forall>k < length es. evs (i + k) = Recv (es ! k)) \<and>
      s' = snd (rounds body es s) \<and> (evs (i + length es) = Done \<or> \<not> fst (rounds body es s))"
    and eq: "(case evs i of Done \<Rightarrow> Some s
      | Recv e \<Rightarrow> (case body e s of (continue, s') \<Rightarrow> if continue then f body evs (Suc i) s' else Some s')) = Some s'"
  show "\<exists>es. (\<forall>k < length es. evs (i + k) = Recv (es ! k)) \<and>
      s' = snd (rounds body es s) \<and> (evs (i + length es) = Done \<or> \<not> fst (rounds body es s))"
  proof (cases "evs i")
    case Done
    with eq show ?thesis by (intro exI [of _ "[]"]) simp
  next
    case (Recv e)
    obtain c t where body: "body e s = (c, t)" by force
    show ?thesis
    proof (cases c)
      case True
      with eq Recv body have "f body evs (Suc i) t = Some s'" by simp
      from IH [OF this] obtain es where es: "\<forall>k < length es. evs (Suc i + k) = Recv (es ! k)"
        "s' = snd (rounds body es t)" "evs (Suc i + length es) = Done \<or> \<not> fst (rounds body es t)" by blast
      with True Recv body show ?thesis
        by (intro exI [of _ "e # es"]) (auto simp: nth_Cons split: nat.splits)
    next
      case False
      with eq Recv body show ?thesis by (intro exI [of _ "[e]"]) simp
    qed
  qed
qed

section \<open>Loops that only their context ends\<close>

locale endless_loop =
  fixes body :: "'e \<Rightarrow> 's \<Rightarrow> bool \<times> 's"
  assumes continues: "fst (body e s)"
begin

lemma rounds_fold: "rounds body es s = (True, fold (\<lambda>e s. snd (body e s)) es s)"
proof (induction es arbitrary: s)
  case (Cons e es)
  obtain s' where "body e s = (True, s')" using continues [of e s] by (cases "body e s") auto
  with Cons show ?case by simp
qed simp

lemma returns_iff: "(\<exists>s'. select_loop body evs 0 s = Some s') \<longleftrightarrow> (\<exists>n. evs n = Done)"
proof
  assume "\<exists>s'. select_loop body evs 0 s = Some s'"
  then show "\<exists>n. evs n = Done" by (auto dest!: select_loop_returns simp: rounds_fold)
next
  assume "\<exists>n. evs n = Done"
  then obtain es where "done_after evs 0 es" using done_after_ex [of evs 0] by auto
  then show "\<exists>s'. select_loop body evs 0 s = Some s'" by (simp add: select_loop_done)
qed

lemma runs_all: "done_after evs 0 es \<Longrightarrow> select_loop body evs 0 s = Some (fold (\<lambda>e s. snd (body e s)) es s)"
  by (simp add: select_loop_done rounds_fold)

end

section \<open>Loops that keep an invariant\<close>

locale loop_invariant =
  fixes body :: "'e \<Rightarrow> 's \<Rightarrow> bool \<times> 's" and admissible :: "'e \<Rightarrow> bool" and inv :: "'s \<Rightarrow> bool"
  assumes body_inv: "inv s \<Longrightarrow> admissible e \<Longrightarrow> inv (snd (body e s))"
begin

lemma rounds_inv: "inv s \<Longrightarrow> \<forall>e \<in> set es. admissible e \<Longrightarrow> inv (snd (rounds body es s))"
proof (induction es arbitrary: s)
  case (Cons e es)
  then show ?case using body_inv [of s e] by (auto split: prod.splits)
qed simp

lemma loop_inv:
  assumes "select_loop body evs i s = Some s'" "inv s" "\<And>k e. evs k = Recv e \<Longrightarrow> admissible e"
  shows "inv s'"
proof -
  obtain es where es: "\<forall>k < length es. evs (i + k) = Recv (es ! k)" "s' = snd (rounds body es s)"
    using select_loop_returns [OF assms(1)] by blast
  then have "\<forall>e \<in> set es. admissible e" using assms(3) by (metis in_set_conv_nth)
  with es(2) rounds_inv [OF assms(2)] show ?thesis by simp
qed

end

end
