(* ===== verification/Pool_Run.thy ===== *)
theory Pool_Run
  imports Worker Select_Loop Step_Systems
begin

text \<open>
  \<open>Pool.Run\<close> and \<open>Pool.loop\<close> of \<open>src/internal/worker/pool.go\<close> as wholes: the endless loop of a
  slot, and the slots of a pool working at the same time, with their heartbeats, with the other
  clients of the database, with round trips that fail in any way, and with a shutdown at any moment.
\<close>

section \<open>The loop of a slot\<close>

text \<open>
  What the environment contributes to a round that the first \<open>select\<close> lets through: what others
  did to the database since the last one, clocks, ids and locked rows of the \<open>Dequeue\<close>, the
  context of the handler, what happens while it runs, and the times of the report.
\<close>

record slot_env =
  se_others :: "pg \<Rightarrow> pg"
  se_now :: time
  se_newids :: "nat \<Rightarrow> uuid"
  se_locked :: "uuid list"
  se_parent :: hctx
  se_meanwhile :: "pg \<Rightarrow> pg"
  se_reported :: time
  se_duration :: duration

definition slot_round ::
  "(float64 \<Rightarrow> int) \<Rightarrow> payload_decoder \<Rightarrow> queue_state \<Rightarrow> Pool \<Rightarrow> slot_env \<Rightarrow>
   action list \<times> pg \<times> chaos_table \<Rightarrow> bool \<times> action list \<times> pg \<times> chaos_table" where
  "slot_round oob D q p e = (\<lambda>(acts, s, tab).
     case loop_round oob D q p False (se_now e) (se_newids e) (se_locked e) (se_parent e) (se_meanwhile e)
            (se_reported e) (se_duration e) (se_others e s, tab) of
       (act, s', tab') \<Rightarrow> (True, acts @ [act], s', tab'))"

definition loop ::
  "(float64 \<Rightarrow> int) \<Rightarrow> payload_decoder \<Rightarrow> queue_state \<Rightarrow> Pool \<Rightarrow> (nat \<Rightarrow> slot_env choice) \<Rightarrow> pg \<times> chaos_table \<Rightarrow>
   (action list \<times> pg \<times> chaos_table) option" where
  "loop oob D q p ctx = (\<lambda>(s, tab). select_loop (slot_round oob D q p) ctx 0 ([], s, tab))"

section \<open>What a worker holds\<close>

text \<open>No transaction is open and the tables are well-formed; the next round trips may fail.\<close>

definition sound :: "pg \<Rightarrow> bool" where
  "sound s \<longleftrightarrow> working s = None \<and> db_ok (committed s)"

text \<open>The jobs that are leased to a worker.\<close>

definition held :: "string \<Rightarrow> pg \<Rightarrow> uuid set" where
  "held w s = {i. \<exists>j \<in> set (jobs (committed s)). leased_to i w j}"

text \<open>What other clients may do: anything that leases no job in the name of this worker.\<close>

definition foreign :: "string \<Rightarrow> (pg \<Rightarrow> pg) \<Rightarrow> bool" where
  "foreign w m \<longleftrightarrow> (\<forall>s. sound s \<longrightarrow> sound (m s) \<and> held w (m s) \<subseteq> held w s)"

text \<open>The round trip failed: the caller does not know whether the transaction took effect.\<close>

definition call_failed :: "error + 'a \<Rightarrow> bool" where
  "call_failed r = (case r of Inl e \<Rightarrow> driver_error e | Inr _ \<Rightarrow> False)"

lemma sound_faults [simp]: "sound (s\<lparr>faults := fs\<rparr>) = sound s" "held w (s\<lparr>faults := fs\<rparr>) = held w s"
  by (simp_all add: sound_def held_def)

lemma sound_atomic:
  assumes "atomic m f" "\<And>d a d'. db_ok d \<Longrightarrow> f d = Inr (a, d') \<Longrightarrow> db_ok d'" "sound s" "run_state m s = (r, s')"
  shows "sound s'"
  using run_preserves [OF assms(1,2) _ assms(4)] assms(3) by (simp add: sound_def)

lemma atomic_cases:
  assumes "atomic m f" "sound s" "run_state m s = (r, s')"
  obtains (same) "committed s' = committed s" "call_failed r \<or> (\<exists>e. f (committed s) = Inl e)"
    | (changed) a where "f (committed s) = Inr (a, committed s')" "r = Inr a \<or> call_failed r"
proof (cases r)
  case (Inl e)
  have "working s = None" using assms(2) by (simp add: sound_def)
  from atomicD(4,5) [OF assms(1) this assms(3) Inl] same changed show ?thesis
    by (auto simp: Inl call_failed_def)
next
  case (Inr a)
  have "working s = None" using assms(2) by (simp add: sound_def)
  from atomicD(3) [OF assms(1) this assms(3) Inr] changed show ?thesis by (auto simp: Inr)
qed

lemma sound_dequeue: "sound s \<Longrightarrow> run_state (Dequeue now newids locked queues limit w lease) s = (r, s') \<Longrightarrow> sound s'"
  by (rule sound_atomic [OF dequeue.atomic dequeue_preserves])

lemma held_dequeue_txn:
  assumes "db_ok (committed s)" "dequeue_txn now newids locked queues limit w' lease (committed s) = Inr (js, committed s')"
  shows "held w s' \<subseteq> held w s \<union> (if w' = w then ID ` set js else {})"
proof
  fix i assume "i \<in> held w s'"
  then obtain j where "j \<in> set (jobs (committed s))" "leased_to i w
      (if ID j \<in> ID ` set js then claim_row now w' lease (reclaim1 now j) else reclaim1 now j)"
    unfolding held_def dequeue_result(5) [OF assms] by auto
  then show "i \<in> held w s \<union> (if w' = w then ID ` set js else {})"
    by (auto simp: held_def leased_to_def claim_row_def reclaim1_def reclaim_row_def split: if_splits)
qed

lemma dequeue_one_txn:
  assumes "db_ok d" "dequeue_txn now newids locked queues 1 w lease d = Inr (js, d')"
  shows "length js \<le> 1"
  using dequeue_result(3) [OF assms] by (simp add: default_limit_def)

text \<open>
  A \<open>Dequeue\<close> of the pool adds the job that it returns and, when it fails, at most one that the
  pool does not learn of.
\<close>

lemma held_dequeue:
  assumes "sound s" "run_state (Dequeue now newids locked queues 1 w lease) s = (r, s')"
  shows "\<exists>lost. finite lost \<and> card lost \<le> (if call_failed r then 1 else 0) \<and>
    held w s' \<subseteq> held w s \<union> lost \<union> (case r of Inr (job # js) \<Rightarrow> {ID job} | _ \<Rightarrow> {})"
  using dequeue.atomic assms
proof (cases rule: atomic_cases)
  case same
  then show ?thesis by (intro exI [of _ "{}"]) (simp add: held_def)
next
  case (changed js)
  have ok: "db_ok (committed s)" using assms(1) by (simp add: sound_def)
  have one: "length js \<le> 1" by (rule dequeue_one_txn [OF ok changed(1)])
  have sub: "held w s' \<subseteq> held w s \<union> ID ` set js" using held_dequeue_txn [OF ok changed(1), of w] by simp
  from changed(2) show ?thesis
  proof
    assume "r = Inr js"
    with one sub show ?thesis by (cases js) (auto intro!: exI [of _ "{}"])
  next
    assume "call_failed r"
    moreover have "card (ID ` set js) \<le> 1" using one card_image_le [of "set js" ID] card_length [of js] by simp
    ultimately show ?thesis using sub by (intro exI [of _ "ID ` set js"]) (auto simp: call_failed_def split: sum.splits)
  qed
qed

lemma foreign_dequeue:
  assumes "w' \<noteq> w"
  shows "foreign w (\<lambda>s. snd (run_state (Dequeue now newids locked queues limit w' lease) s))"
  unfolding foreign_def
proof (intro allI impI conjI)
  fix s assume s: "sound s"
  obtain r s' where run: "run_state (Dequeue now newids locked queues limit w' lease) s = (r, s')" by force
  show "sound (snd (run_state (Dequeue now newids locked queues limit w' lease) s))" using sound_dequeue [OF s run] by (simp add: run)
  from dequeue.atomic s run have "held w s' \<subseteq> held w s"
  proof (cases rule: atomic_cases)
    case (changed js)
    from held_dequeue_txn [OF _ this(1), of w] s assms show ?thesis by (simp add: sound_def)
  qed (simp add: held_def)
  then show "held w (snd (run_state (Dequeue now newids locked queues limit w' lease) s)) \<subseteq> held w s" by (simp add: run)
qed

text \<open>The transaction of a report releases the job, whatever the handler said and whoever has the lease.\<close>

lemma held_update:
  assumes "jobs (committed s') = sql_update (\<lambda>x. ID x = i) f (jobs (committed s))" "\<And>x. Status (f x) \<noteq> Running"
  shows "held w s' \<subseteq> held w s - {i}"
  using assms by (auto simp: held_def leased_to_def sql_update_def split: if_splits)

lemma held_ack_txn:
  assumes "db_ok (committed s)" "ack_txn now i w' (committed s) = Inr (a, committed s')"
  shows "held w s' \<subseteq> held w s - {i}"
proof -
  obtain j where j: "j \<in> set (jobs (committed s))" "running_for i w' j"
    using assms(2) ack_refused [of "committed s" i w' now] by auto
  from ack_effect [OF assms(1) j, of now] assms(2) show ?thesis
    by (intro held_update [where f = "ack_row now"]) (auto simp: ack_row_def)
qed

lemma held_nack_txn:
  assumes "db_ok (committed s)" "nack_txn oob q now i w' cause (committed s) = Inr (a, committed s')"
  shows "held w s' \<subseteq> held w s - {i}"
proof -
  obtain j where j: "j \<in> set (jobs (committed s))" "running_for i w' j"
    using assms(2) nack_refused [of "committed s" i w' oob q now cause] by auto
  show ?thesis
  proof (cases "MaxAttempts j \<le> Attempts j")
    case True
    with nack_effect_dead [OF assms(1) j True, of oob q now cause] assms(2) show ?thesis
      by (intro held_update [where f = "dead_row now (errorString cause)"]) (auto simp: dead_row_def)
  next
    case False
    then have "Attempts j < MaxAttempts j" by simp
    with nack_effect_retry [OF assms(1) j this, of oob q now cause] assms(2) show ?thesis
      by (intro held_update [where f = "retry_row now (backoff oob q (Attempts j)) (errorString cause)"]) (auto simp: retry_row_def)
  qed
qed

lemma not_held: "(\<And>j. j \<in> set (jobs (committed s)) \<Longrightarrow> running_for i w j \<Longrightarrow> False) \<Longrightarrow> i \<notin> held w s"
  by (auto simp: held_def leased_to_def running_for_def)

text \<open>Whether the \<open>Ack\<close> or \<open>Nack\<close> of a report fails, which \<open>execute\<close> only logs.\<close>

definition report_failed ::
  "(float64 \<Rightarrow> int) \<Rightarrow> queue_state \<Rightarrow> Pool \<Rightarrow> time \<Rightarrow> job \<Rightarrow> go_err \<Rightarrow> pg \<Rightarrow> bool" where
  "report_failed oob q p now job err s =
     (case err of
        Some message \<Rightarrow> call_failed (fst (run_state (Nack oob q now (ID job) (pl_WorkerID p) (Some message)) s))
      | None \<Rightarrow> call_failed (fst (run_state (Ack now (ID job) (pl_WorkerID p)) s)))"

lemma releasing_call:
  assumes "atomic m f" "sound s" "run_state m s = (r, s')"
    and "\<And>a s'. f (committed s) = Inr (a, committed s') \<Longrightarrow> held w s' \<subseteq> held w s - {i}"
    and "\<And>e. f (committed s) = Inl e \<Longrightarrow> i \<notin> held w s"
  shows "held w s' \<subseteq> held w s \<and> (\<not> call_failed r \<longrightarrow> i \<notin> held w s')"
  using assms(1-3)
proof (cases rule: atomic_cases)
  case same
  then have "held w s' = held w s" by (simp add: held_def)
  then show ?thesis using same(2) assms(5) by auto
next
  case (changed a)
  then show ?thesis using assms(4) by blast
qed

lemma report_releases:
  assumes "sound s" "run_state (report oob q p now duration job err) s = (outs, s')"
  shows "sound s' \<and> held (pl_WorkerID p) s' \<subseteq> held (pl_WorkerID p) s \<and>
    (\<not> report_failed oob q p now job err s \<longrightarrow> ID job \<notin> held (pl_WorkerID p) s')"
proof -
  let ?w = "pl_WorkerID p" and ?d = "committed s"
  have ok: "db_ok ?d" using assms(1) by (simp add: sound_def)
  show ?thesis
  proof (cases err)
    case None
    obtain r where run: "run_state (Ack now (ID job) ?w) s = (r, s')"
      using assms(2) by (auto simp: report_def None split: prod.splits)
    have "ID job \<notin> held ?w s" if "ack_txn now (ID job) ?w ?d = Inl e" for e
      by (rule not_held) (use ack_effect [OF ok] that in simp)
    from releasing_call [OF ack.atomic assms(1) run held_ack_txn [OF ok] this] sound_atomic [OF ack.atomic ack_preserves assms(1) run]
    show ?thesis by (simp add: report_failed_def None run)
  next
    case (Some message)
    obtain r where run: "run_state (Nack oob q now (ID job) ?w (Some message)) s = (r, s')"
      using assms(2) by (auto simp: report_def Some split: prod.splits)
    have "ID job \<notin> held ?w s" if "nack_txn oob q now (ID job) ?w (Some message) ?d = Inl e" for e
    proof (rule not_held)
      fix j assume j: "j \<in> set (jobs ?d)" "running_for (ID job) ?w j"
      show False
        using nack_effect_dead [OF ok j, of oob q now "Some message"] nack_effect_retry [OF ok j, of oob q now "Some message"] that
        by (cases "MaxAttempts j \<le> Attempts j") simp_all
    qed
    from releasing_call [OF nack.atomic assms(1) run held_nack_txn [OF ok] this] sound_atomic [OF nack.atomic nack_preserves assms(1) run]
    show ?thesis by (simp add: report_failed_def Some run)
  qed
qed

lemma held_extend:
  assumes "sound s" "run_state (ExtendLease now i w' lease) s = (r, s')"
  shows "sound s' \<and> held w s' \<subseteq> held w s"
proof
  show "sound s'" by (rule sound_atomic [OF extend.atomic _ assms]) (rule extend_preserves)
  have row: "leased_to k w (extend_row now lease j) \<longleftrightarrow> leased_to k w j" for k j
    by (simp add: leased_to_def extend_row_def)
  from extend.atomic assms show "held w s' \<subseteq> held w s"
  proof (cases rule: atomic_cases)
    case (changed a)
    then have "jobs (committed s') = sql_update (leased_to i w') (extend_row now lease) (jobs (committed s))"
      by (auto simp: extend_txn_def extend_update_def thenE_def okE_def failE_def split: if_splits dest!: arg_cong [where f = jobs])
    with row show ?thesis by (auto simp: held_def sql_update_def split: if_splits)
  qed (simp add: held_def)
qed

section \<open>A slot on its own\<close>

interpretation slot: endless_loop "slot_round oob D q p" for oob D q p
  by unfold_locales (auto simp: slot_round_def split: prod.splits)

lemma loop_round_cases:
  assumes "loop_round oob D q p False now newids locked parent meanwhile now2 duration (s, tab) = (act, s', tab')"
  obtains (idle) r where "run_state (Dequeue now newids locked (pl_Queues p) 1 (pl_WorkerID p) (pl_Lease p)) s = (r, s')"
    | (worked) job js s1 err outs where
      "run_state (Dequeue now newids locked (pl_Queues p) 1 (pl_WorkerID p) (pl_Lease p)) s = (Inr (job # js), s1)"
      "run_state (report oob q p now2 duration job err) (meanwhile s1) = (outs, s')"
  using assms by (auto simp: loop_round_def execute_def split: prod.splits sum.splits list.splits)

lemma loop_round_sound:
  assumes "loop_round oob D q p False now newids locked parent meanwhile now2 duration (s, tab) = (act, s', tab')"
    and "sound s" "\<And>s. sound s \<Longrightarrow> sound (meanwhile s)"
  shows "sound s'"
  using assms(1)
proof (cases rule: loop_round_cases)
  case (idle r)
  then show ?thesis by (rule sound_dequeue [OF assms(2)])
next
  case (worked job js s1 err outs)
  have "sound (meanwhile s1)" by (rule assms(3) [OF sound_dequeue [OF assms(2) worked(1)]])
  with report_releases [OF _ worked(2)] show ?thesis by blast
qed

interpretation slot_inv: loop_invariant "slot_round oob D q p"
    "\<lambda>e. (\<forall>s. sound s \<longrightarrow> sound (se_others e s)) \<and> (\<forall>s. sound s \<longrightarrow> sound (se_meanwhile e s))"
    "\<lambda>(acts, s, tab). sound s" for oob D q p
  by unfold_locales (auto simp: slot_round_def split: prod.splits dest!: loop_round_sound)

text \<open>
  The loop of a slot returns if and only if its context is done at the head of some round, after
  exactly the rounds before, with no transaction open and well-formed tables, whatever failed.
\<close>

lemma Slot_loop_ends:
  assumes "sound s"
    and "\<forall>k e. ctx k = Recv e \<longrightarrow> (\<forall>s. sound s \<longrightarrow> sound (se_others e s)) \<and> (\<forall>s. sound s \<longrightarrow> sound (se_meanwhile e s))"
  shows "((\<exists>r. loop oob D q p ctx (s, tab) = Some r) \<longleftrightarrow> (\<exists>n. ctx n = Done)) \<and>
    (\<forall>acts s' tab'. loop oob D q p ctx (s, tab) = Some (acts, s', tab') \<longrightarrow> sound s' \<and>
       (\<exists>es. done_after ctx 0 es \<and> (acts, s', tab') = fold (\<lambda>e st. snd (slot_round oob D q p e st)) es ([], s, tab)))"
proof (intro conjI allI impI)
  show ends: "(\<exists>r. loop oob D q p ctx (s, tab) = Some r) \<longleftrightarrow> (\<exists>n. ctx n = Done)"
    by (simp add: loop_def slot.returns_iff del: split_paired_Ex)
  fix acts s' tab' assume run: "loop oob D q p ctx (s, tab) = Some (acts, s', tab')"
  then have sel: "select_loop (slot_round oob D q p) ctx 0 ([], s, tab) = Some (acts, s', tab')" by (simp add: loop_def)
  show "sound s'" using slot_inv.loop_inv [OF sel] assms by auto
  obtain es where "done_after ctx 0 es" using ends run done_after_ex [of ctx 0] by auto
  then show "\<exists>es. done_after ctx 0 es \<and> (acts, s', tab') = fold (\<lambda>e st. snd (slot_round oob D q p e st)) es ([], s, tab)"
    using slot.runs_all sel by fastforce
qed

section \<open>The pool\<close>

text \<open>
  A slot is at the head of its loop (or asleep), has called \<open>Dequeue\<close> and waits for the answer,
  executes a job, or has returned.
\<close>

datatype slot_state = Idle | Polling | Busy job | Returned

text \<open>\<open>ps_failures\<close> counts the calls of \<open>Dequeue\<close>, \<open>Ack\<close> and \<open>Nack\<close> that failed in a round trip.\<close>

record pool_state =
  ps_pg :: pg
  ps_slots :: "slot_state list"
  ps_done :: bool
  ps_failures :: nat

text \<open>\<open>Run\<close> starts the slots of the pool, which is normalized at this point.\<close>

definition start_slots :: "Pool \<Rightarrow> pg \<Rightarrow> pool_state" where
  "start_slots p s = \<lparr>ps_pg = s, ps_slots = replicate (nat (pl_Concurrency p)) Idle, ps_done = False, ps_failures = 0\<rparr>"

definition count_failure :: "bool \<Rightarrow> pool_state \<Rightarrow> pool_state" where
  "count_failure failed st = st\<lparr>ps_failures := ps_failures st + (if failed then 1 else 0)\<rparr>"

text \<open>
  One step of the pool or of its surroundings. A slot at the head of its loop calls \<open>Dequeue\<close> if the
  context is not done; the call ends, with a job or without, possibly after the context is done,
  which may also have cut it off (one of the faults \<open>fs\<close>); a heartbeat is sent, possibly so late
  that its job has been reported; a handler that returned (with any error) is reported; a slot
  sees at the head of its loop that the context is done; the signal arrives; other clients work on
  the database. Every call may meet any faults.
\<close>

inductive pool_step :: "(float64 \<Rightarrow> int) \<Rightarrow> queue_state \<Rightarrow> Pool \<Rightarrow> pool_state \<Rightarrow> pool_state \<Rightarrow> bool"
  for oob :: "float64 \<Rightarrow> int" and q :: queue_state and p :: Pool where
  calls: "\<not> ps_done st \<Longrightarrow> i < length (ps_slots st) \<Longrightarrow> ps_slots st ! i = Idle \<Longrightarrow>
    pool_step oob q p st (st\<lparr>ps_slots := (ps_slots st)[i := Polling]\<rparr>)"
| polled: "i < length (ps_slots st) \<Longrightarrow> ps_slots st ! i = Polling \<Longrightarrow>
    run_state (Dequeue now newids locked (pl_Queues p) 1 (pl_WorkerID p) (pl_Lease p)) ((ps_pg st)\<lparr>faults := fs\<rparr>) = (r, s') \<Longrightarrow>
    x = (case r of Inr (job # js) \<Rightarrow> Busy job | _ \<Rightarrow> Idle) \<Longrightarrow>
    pool_step oob q p st (count_failure (call_failed r) (st\<lparr>ps_pg := s', ps_slots := (ps_slots st)[i := x]\<rparr>))"
| beat: "run_state (ExtendLease now i (pl_WorkerID p) (pl_Lease p)) ((ps_pg st)\<lparr>faults := fs\<rparr>) = (r, s') \<Longrightarrow>
    pool_step oob q p st (st\<lparr>ps_pg := s'\<rparr>)"
| finish: "i < length (ps_slots st) \<Longrightarrow> ps_slots st ! i = Busy job \<Longrightarrow>
    run_state (report oob q p now duration job err) ((ps_pg st)\<lparr>faults := fs\<rparr>) = (outs, s') \<Longrightarrow>
    pool_step oob q p st (count_failure (report_failed oob q p now job err ((ps_pg st)\<lparr>faults := fs\<rparr>))
      (st\<lparr>ps_pg := s', ps_slots := (ps_slots st)[i := Idle]\<rparr>))"
| returns: "ps_done st \<Longrightarrow> i < length (ps_slots st) \<Longrightarrow> ps_slots st ! i = Idle \<Longrightarrow>
    pool_step oob q p st (st\<lparr>ps_slots := (ps_slots st)[i := Returned]\<rparr>)"
| signal: "pool_step oob q p st (st\<lparr>ps_done := True\<rparr>)"
| others: "foreign (pl_WorkerID p) m \<Longrightarrow> pool_step oob q p st (st\<lparr>ps_pg := m (ps_pg st)\<rparr>)"

inductive_cases pool_stepE: "pool_step oob q p st st'"

text \<open>
  What \<open>Run\<close> returns, \<open>None\<close> as long as it waits: first for the end of the context, then for the
  slots or for \<open>time.After(p.ShutdownGrace)\<close> (\<open>elapsed\<close>), and when both are ready \<open>select\<close> takes one
  of them at random (\<open>pick\<close>: the slots).
\<close>

definition grace_exceeded :: go_err where
  "grace_exceeded = Some ''shutdown grace exceeded: context deadline exceeded''"

definition Run :: "bool \<Rightarrow> bool \<Rightarrow> pool_state \<Rightarrow> go_err option" where
  "Run elapsed pick st =
     (if \<not> ps_done st then None
      else if list_all (\<lambda>x. x = Returned) (ps_slots st) \<and> (\<not> elapsed \<or> pick) then Some None
      else if elapsed then Some grace_exceeded
      else None)"

definition busy :: "slot_state list \<Rightarrow> uuid set" where
  "busy slots = {ID job | job. Busy job \<in> set slots}"

text \<open>Every job that is leased to the pool is executed by one of its slots, but for one per failed call.\<close>

definition accounted :: "uuid set \<Rightarrow> uuid set \<Rightarrow> nat \<Rightarrow> bool" where
  "accounted leased known failures \<longleftrightarrow> (\<exists>lost. finite lost \<and> card lost \<le> failures \<and> leased \<subseteq> known \<union> lost)"

definition pool_ok :: "Pool \<Rightarrow> pool_state \<Rightarrow> bool" where
  "pool_ok p st \<longleftrightarrow> sound (ps_pg st) \<and> accounted (held (pl_WorkerID p) (ps_pg st)) (busy (ps_slots st)) (ps_failures st)"

lemma accounted_mono: "accounted A B n \<Longrightarrow> A' \<subseteq> A \<Longrightarrow> B \<subseteq> B' \<Longrightarrow> accounted A' B' n"
  unfolding accounted_def by blast

lemma accounted_add:
  assumes "accounted A B n" "A' \<subseteq> A \<union> lost \<union> C" "finite lost" "card lost \<le> k" "B \<union> C \<subseteq> B'"
  shows "accounted A' B' (n + k)"
proof -
  obtain L where L: "finite L" "card L \<le> n" "A \<subseteq> B \<union> L" using assms(1) by (auto simp: accounted_def)
  have "card (L \<union> lost) \<le> n + k" using card_Un_le [of L lost] L(2) assms(4) by linarith
  with L assms(2,3,5) show ?thesis unfolding accounted_def by (intro exI [of _ "L \<union> lost"]) auto
qed

lemma accounted_card:
  assumes "accounted A {} n"
  shows "finite A" "card A \<le> n"
proof -
  obtain L where L: "finite L" "card L \<le> n" "A \<subseteq> L" using assms by (auto simp: accounted_def)
  then show "finite A" by (simp add: finite_subset)
  show "card A \<le> n" using card_mono [OF L(1,3)] L(2) by simp
qed

lemma busy_single [simp]: "busy [Idle] = {}" "busy [Polling] = {}" "busy [Returned] = {}" "busy [Busy job] = {ID job}"
  by (auto simp: busy_def)

lemma busy_update:
  assumes "i < length slots"
  shows "busy (slots[i := x]) \<union> busy [slots ! i] = busy slots \<union> busy [x]"
proof -
  let ?A = "set (take i slots) \<union> set (drop (Suc i) slots)"
  have "set slots = insert (slots ! i) ?A" by (subst id_take_nth_drop [OF assms]) auto
  moreover have "set (slots[i := x]) = insert x ?A" by (simp add: upd_conv_take_nth_drop [OF assms])
  ultimately show ?thesis by (auto simp: busy_def)
qed

lemma pool_step_ok:
  assumes "pool_ok p st" "pool_step oob q p st st'"
  shows "pool_ok p st'"
proof -
  let ?w = "pl_WorkerID p" and ?s = "ps_pg st" and ?slots = "ps_slots st"
  have ok: "sound ?s" "accounted (held ?w ?s) (busy ?slots) (ps_failures st)" using assms(1) by (auto simp: pool_ok_def)
  have sound: "sound (?s\<lparr>faults := fs\<rparr>)" for fs using ok(1) by simp
  from assms(2) show ?thesis
  proof (cases rule: pool_step.cases)
    case (calls i)
    with ok busy_update [OF calls(3), of Polling] show ?thesis by (simp add: pool_ok_def)
  next
    case (polled i now newids locked fs r s' x)
    obtain lost where lost: "finite lost" "card lost \<le> (if call_failed r then 1 else 0)"
        "held ?w s' \<subseteq> held ?w ?s \<union> lost \<union> (case r of Inr (job # js) \<Rightarrow> {ID job} | _ \<Rightarrow> {})"
      using held_dequeue [OF sound polled(4)] by auto
    have "busy (?slots[i := x]) = busy ?slots \<union> (case r of Inr (job # js) \<Rightarrow> {ID job} | _ \<Rightarrow> {})"
      using busy_update [OF polled(2), of x] polled(3,5) by (simp split: sum.splits list.splits)
    then have "accounted (held ?w s') (busy (?slots[i := x])) (ps_failures st + (if call_failed r then 1 else 0))"
      by (intro accounted_add [OF ok(2) lost(3,1,2)]) simp
    with sound_dequeue [OF sound polled(4)] polled(1) show ?thesis by (simp add: pool_ok_def count_failure_def)
  next
    case (beat now i fs r s')
    with held_extend [OF sound beat(2), of ?w] ok(2) show ?thesis by (auto simp: pool_ok_def intro: accounted_mono)
  next
    case (finish i job now duration err fs outs s')
    let ?failed = "report_failed oob q p now job err (?s\<lparr>faults := fs\<rparr>)"
    have rep: "sound s'" "held ?w s' \<subseteq> held ?w ?s" "\<not> ?failed \<Longrightarrow> ID job \<notin> held ?w s'"
      using report_releases [OF sound finish(4)] by simp_all
    have slots: "busy ?slots = busy (?slots[i := Idle]) \<union> {ID job}"
      using busy_update [OF finish(2), of Idle] finish(3) by simp
    obtain L where L: "finite L" "card L \<le> ps_failures st" "held ?w ?s \<subseteq> busy ?slots \<union> L"
      using ok(2) by (auto simp: accounted_def)
    have "accounted (held ?w s') (busy (?slots[i := Idle])) (ps_failures st + (if ?failed then 1 else 0))"
    proof (cases ?failed)
      case True
      have "card (insert (ID job) L) \<le> Suc (ps_failures st)" using card_insert_le_m1 [of "Suc (ps_failures st)" L "ID job"] L(2) by simp
      with True L rep(2) slots show ?thesis unfolding accounted_def by (intro exI [of _ "insert (ID job) L"]) auto
    next
      case False
      with L rep(2,3) slots show ?thesis unfolding accounted_def by (intro exI [of _ L]) auto
    qed
    with rep(1) finish(1) show ?thesis by (simp add: pool_ok_def count_failure_def)
  next
    case (returns i)
    with ok busy_update [OF returns(3), of Returned] show ?thesis by (simp add: pool_ok_def)
  next
    case signal
    with ok show ?thesis by (simp add: pool_ok_def)
  next
    case (others m)
    with ok show ?thesis by (auto simp: pool_ok_def foreign_def intro: accounted_mono)
  qed
qed

interpretation pool: invariant_system "pool_step oob q p" "pool_ok p" for oob q p
  by unfold_locales (rule pool_step_ok)

section \<open>The shutdown\<close>

text \<open>The steps that a slot still has to take once the context is done.\<close>

fun slot_pending :: "slot_state \<Rightarrow> nat" where
  "slot_pending Polling = 3"
| "slot_pending (Busy _) = 2"
| "slot_pending Idle = 1"
| "slot_pending Returned = 0"

definition pending :: "pool_state \<Rightarrow> nat" where
  "pending st = sum_list (map slot_pending (ps_slots st))"

lemma pending_update:
  assumes "i < length slots"
  shows "sum_list (map slot_pending (slots[i := x])) + slot_pending (slots ! i) =
    sum_list (map slot_pending slots) + slot_pending x"
  using assms by (induction slots arbitrary: i) (auto simp: nth_Cons split: nat.splits)

lemma pending_falls:
  assumes "pool_step oob q p st st'" "ps_done st"
  shows "ps_done st' \<and> pending st' \<le> pending st"
  using assms(1)
proof (cases rule: pool_step.cases)
  case (polled i now newids locked fs r s' x)
  moreover have "slot_pending x \<le> 2" unfolding polled(5) by (simp split: sum.splits list.splits)
  ultimately show ?thesis using assms(2) pending_update [OF polled(2), of x] by (simp add: pending_def count_failure_def)
next
  case (finish i job now duration err fs outs s')
  then show ?thesis using assms(2) pending_update [OF finish(2), of Idle] by (simp add: pending_def count_failure_def)
next
  case (returns i)
  then show ?thesis using assms(2) pending_update [OF returns(3), of Returned] by (simp add: pending_def)
qed (use assms(2) in \<open>auto simp: pending_def\<close>)

lemma pending_progress:
  assumes "ps_done st" "Run False pick st = None"
  shows "\<exists>st'. pool_step oob q p st st' \<and> pending st' < pending st"
proof -
  obtain i where i: "i < length (ps_slots st)" "ps_slots st ! i \<noteq> Returned"
    using assms by (auto simp: Run_def list_all_length split: if_splits)
  let ?s = "(ps_pg st)\<lparr>faults := []\<rparr>"
  show ?thesis
  proof (cases "ps_slots st ! i")
    case Idle
    with pool_step.returns [OF assms(1) i(1) Idle] pending_update [OF i(1), of Returned] show ?thesis
      by (intro exI conjI) (auto simp: pending_def)
  next
    case Polling
    obtain r s' where run: "run_state (Dequeue 0 (\<lambda>_. 0) [] (pl_Queues p) 1 (pl_WorkerID p) (pl_Lease p)) ?s = (r, s')" by force
    let ?x = "case r of Inr (job # js) \<Rightarrow> Busy job | _ \<Rightarrow> Idle"
    have "slot_pending ?x \<le> 2" by (simp split: sum.splits list.splits)
    with pool_step.polled [OF i(1) Polling run refl] pending_update [OF i(1), of ?x] Polling show ?thesis
      by (intro exI conjI) (auto simp: pending_def count_failure_def)
  next
    case (Busy job)
    obtain outs s' where run: "run_state (report oob q p 0 0 job None) ?s = (outs, s')" by force
    with pool_step.finish [OF i(1) Busy run] pending_update [OF i(1), of Idle] Busy show ?thesis
      by (intro exI conjI) (auto simp: pending_def count_failure_def)
  qed (use i(2) in simp)
qed

lemma drains:
  assumes "ps_done st"
  shows "\<exists>st'. (pool_step oob q p)\<^sup>*\<^sup>* st st' \<and> Run False pick st' = Some None"
  using assms
proof (induction "pending st" arbitrary: st rule: less_induct)
  case less
  show ?case
  proof (cases "Run False pick st")
    case None
    then obtain st' where step: "pool_step oob q p st st'" "pending st' < pending st"
      using pending_progress [OF less.prems] by blast
    then have "ps_done st'" using pending_falls less.prems by blast
    with less.hyps [OF step(2)] step(1) show ?thesis by (meson converse_rtranclp_into_rtranclp)
  next
    case (Some e)
    then have "e = None" using less.prems by (auto simp: Run_def split: if_splits)
    with Some show ?thesis by auto
  qed
qed

text \<open>
  C8: shutting down a pool. Whatever its slots, their heartbeats and the other clients did, in
  whatever order and whichever round trips failed, as long as nobody else leases jobs in the
  pool's name: every job leased to the pool is in the hands of one of its slots, but for at most
  one job per \<open>Dequeue\<close>, \<open>Ack\<close> or \<open>Nack\<close> of the pool that failed. When \<open>Run\<close> returns nil, the
  context is done and at most that many jobs are still leased to the pool, so none if no call
  failed: only these have to wait for their lease to expire. After the signal no slot calls
  \<open>Dequeue\<close> again, the steps that the slots have left never grow (at most three per slot: a call in
  flight, its job, the return), and \<open>Run\<close> can always still return nil once the handlers return and
  the grace period is long enough.
\<close>

theorem Pool_shutdown:
  assumes "sound s" "held (pl_WorkerID p) s = {}" "(pool_step oob q p)\<^sup>*\<^sup>* (start_slots p s) st"
  shows "accounted (held (pl_WorkerID p) (ps_pg st)) (busy (ps_slots st)) (ps_failures st) \<and>
    (\<forall>elapsed pick. Run elapsed pick st = Some None \<longrightarrow> ps_done st \<and>
       finite (held (pl_WorkerID p) (ps_pg st)) \<and> card (held (pl_WorkerID p) (ps_pg st)) \<le> ps_failures st) \<and>
    (ps_done st \<longrightarrow>
      (\<forall>st'. (pool_step oob q p)\<^sup>*\<^sup>* st st' \<longrightarrow> ps_done st' \<and> pending st' \<le> pending st \<and> pending st' \<le> 3 * length (ps_slots st)) \<and>
      (\<forall>pick. \<exists>st'. (pool_step oob q p)\<^sup>*\<^sup>* st st' \<and> Run False pick st' = Some None))"
proof (intro conjI impI allI)
  have "pool_ok p (start_slots p s)" using assms(1,2) by (simp add: pool_ok_def start_slots_def accounted_def)
  from pool.steps_inv [OF assms(3) this]
  show acc: "accounted (held (pl_WorkerID p) (ps_pg st)) (busy (ps_slots st)) (ps_failures st)" by (simp add: pool_ok_def)
  fix elapsed pick assume run: "Run elapsed pick st = Some None"
  then have "set (ps_slots st) \<subseteq> {Returned}" by (auto simp: Run_def grace_exceeded_def list_all_iff split: if_splits)
  then have "busy (ps_slots st) = {}" by (auto simp: busy_def)
  with accounted_card acc show "finite (held (pl_WorkerID p) (ps_pg st))" "card (held (pl_WorkerID p) (ps_pg st)) \<le> ps_failures st"
    by simp_all
  show "ps_done st" using run by (simp add: Run_def split: if_splits)
next
  fix st' assume d: "ps_done st" and "(pool_step oob q p)\<^sup>*\<^sup>* st st'"
  from this(2) have "ps_done st' \<and> pending st' \<le> pending st"
    by (induction rule: rtranclp_induct) (use d in \<open>auto dest!: pending_falls\<close>)
  moreover have "slot_pending x \<le> 3" for x by (cases x) simp_all
  then have "pending st \<le> 3 * length (ps_slots st)"
    unfolding pending_def using sum_list_mono [of "ps_slots st" slot_pending "\<lambda>_. 3"] by (simp add: sum_list_triv mult.commute)
  ultimately show "ps_done st'" "pending st' \<le> pending st" "pending st' \<le> 3 * length (ps_slots st)" by simp_all
qed (use drains in blast)

text \<open>The signal arrives, the slots return, and \<open>Run\<close> returns nil.\<close>

lemma Pool_shutdown_witness:
  "\<exists>st. (pool_step (\<lambda>_. 0) (New (\<lambda>_. 0)) (sample_pool ''w1''))\<^sup>*\<^sup>* (start_slots (sample_pool ''w1'') (sample_pg (sample_db Ready))) st \<and>
     Run False True st = Some None \<and> card (held ''w1'' (ps_pg st)) \<le> ps_failures st"
proof -
  let ?start = "start_slots (sample_pool ''w1'') (sample_pg (sample_db Ready))"
  let ?step = "pool_step (\<lambda>_. 0) (New (\<lambda>_. 0)) (sample_pool ''w1'')"
  have "sound (sample_pg (sample_db Ready))" "held ''w1'' (sample_pg (sample_db Ready)) = {}"
    by (simp_all add: sound_def held_def leased_to_def sample_db_ok)
  then have start: "sound (sample_pg (sample_db Ready))"
      "held (pl_WorkerID (sample_pool ''w1'')) (sample_pg (sample_db Ready)) = {}" by simp_all
  have signal: "?step\<^sup>*\<^sup>* ?start (?start\<lparr>ps_done := True\<rparr>)" by (rule r_into_rtranclp, rule pool_step.signal)
  have "ps_done (?start\<lparr>ps_done := True\<rparr>)" by simp
  with Pool_shutdown [OF start signal] obtain st where st: "?step\<^sup>*\<^sup>* (?start\<lparr>ps_done := True\<rparr>) st" "Run False True st = Some None"
    by blast
  have run: "?step\<^sup>*\<^sup>* ?start st" using signal st(1) by (rule rtranclp_trans)
  from Pool_shutdown [OF start run] st(2) have "card (held ''w1'' (ps_pg st)) \<le> ps_failures st" by simp blast
  with run st(2) show ?thesis by blast
qed

end
