(* ===== verification/Background.thy ===== *)
theory Background
  imports Scheduler_Props Api Pool_Run
begin

text \<open>
  The background goroutines besides the worker slots, each a \<open>for\<close> around a \<open>select\<close> that its
  context ends: \<open>Scheduler.Run\<close>, \<open>metrics.StartDepthSampler\<close>, \<open>Server.StartStatsTicks\<close>,
  \<open>RedisEvents.Run\<close> and the heartbeat of an execution. Between two rounds the others may
  change the shared state; every input carries what they did.
\<close>

section \<open>The loops\<close>

record sched_tick =
  tk_others :: "pg \<Rightarrow> pg"
  tk_sess :: nat
  tk_now :: time
  tk_env :: "nat \<Rightarrow> call_env"
  tk_brk :: "(nat \<times> string) option"

definition scheduler_round :: "ext \<Rightarrow> sched_tick \<Rightarrow> pg \<Rightarrow> bool \<times> pg" where
  "scheduler_round X e s =
     (True, snd (run_state (Tick (queue_enqueue X) X (tk_sess e) (tk_now e) (tk_env e) (tk_brk e)) (tk_others e s)))"

text \<open>An error of a tick is logged; \<open>ctxErr\<close> is \<open>ctx.Err()\<close> at the end.\<close>

definition RunScheduler :: "ext \<Rightarrow> string \<Rightarrow> (nat \<Rightarrow> sched_tick choice) \<Rightarrow> pg \<Rightarrow> (go_err \<times> pg) option" where
  "RunScheduler X ctxErr ctx s = map_option (Pair (Some ctxErr)) (select_loop (scheduler_round X) ctx 0 s)"

definition sampler_round :: "string list \<Rightarrow> (pg \<Rightarrow> pg) \<Rightarrow> instruments \<times> pg \<Rightarrow> bool \<times> instruments \<times> pg" where
  "sampler_round queues others = (\<lambda>(I, s). (True, run_state (sample_depths queues I) (others s)))"

definition StartDepthSampler ::
  "string list \<Rightarrow> (nat \<Rightarrow> (pg \<Rightarrow> pg) choice) \<Rightarrow> instruments \<times> pg \<Rightarrow> (instruments \<times> pg) option" where
  "StartDepthSampler queues ctx = select_loop (sampler_round queues) ctx 0"

definition stats_round :: "Server \<Rightarrow> (api_state \<Rightarrow> api_state) \<times> call \<Rightarrow> api_state \<Rightarrow> bool \<times> api_state" where
  "stats_round srv = (\<lambda>(others, c) a. (True, stats_tick srv c (others a)))"

definition StartStatsTicks ::
  "Server \<Rightarrow> (nat \<Rightarrow> ((api_state \<Rightarrow> api_state) \<times> call) choice) \<Rightarrow> api_state \<Rightarrow> api_state option" where
  "StartStatsTicks srv ctx = select_loop (stats_round srv) ctx 0"

text \<open>
  The bridge: a message, or \<open>None\<close> when the subscription's channel was closed. The state
  \<open>None\<close> is a panic of the hub, which ends the process.
\<close>

definition bridge_round ::
  "(string \<Rightarrow> 'e option) \<Rightarrow> ('e Hub \<Rightarrow> chan list) \<Rightarrow> string option \<Rightarrow> 'e Hub option \<Rightarrow> bool \<times> 'e Hub option" where
  "bridge_round json_Unmarshal order input hub =
     (case (input, hub) of
        (None, _) \<Rightarrow> (False, hub)
      | (_, None) \<Rightarrow> (False, None)
      | (Some msg, Some h) \<Rightarrow>
          (case json_Unmarshal msg of
             None \<Rightarrow> (True, Some h)
           | Some event \<Rightarrow> (case Publish (order h) event h of None \<Rightarrow> (False, None) | Some h' \<Rightarrow> (True, Some h'))))"

definition RunBridge ::
  "(string \<Rightarrow> 'e option) \<Rightarrow> ('e Hub \<Rightarrow> chan list) \<Rightarrow> events_client \<Rightarrow> (nat \<Rightarrow> string option choice) \<Rightarrow> 'e Hub \<Rightarrow>
   'e Hub option option" where
  "RunBridge json_Unmarshal order r ctx h =
     (if r = NilEvents \<or> \<not> has_client r \<or> \<not> has_hub r then Some (Some h)
      else select_loop (bridge_round json_Unmarshal order) ctx 0 (Some h))"

definition heartbeat_round :: "Pool \<Rightarrow> job \<Rightarrow> time \<times> (pg \<Rightarrow> pg) \<Rightarrow> pg \<Rightarrow> bool \<times> pg" where
  "heartbeat_round p job = (\<lambda>(now, others) s.
     (case run_state (ExtendLease now (ID job) (pl_WorkerID p) (pl_Lease p)) (others s) of
        (Inl e, s') \<Rightarrow> (False, s')
      | (Inr _, s') \<Rightarrow> (True, s')))"

definition heartbeat_loop :: "Pool \<Rightarrow> job \<Rightarrow> (nat \<Rightarrow> (time \<times> (pg \<Rightarrow> pg)) choice) \<Rightarrow> pg \<Rightarrow> pg option" where
  "heartbeat_loop p job ctx = select_loop (heartbeat_round p job) ctx 0"

section \<open>What they do\<close>

interpretation sched: endless_loop "scheduler_round X" for X
  by unfold_locales (simp add: scheduler_round_def)

interpretation sampler: endless_loop "sampler_round queues" for queues
  by unfold_locales (simp add: sampler_round_def split: prod.splits)

interpretation stats: endless_loop "stats_round srv" for srv
  by unfold_locales (simp add: stats_round_def split: prod.splits)

text \<open>No transaction is open, the tables are well-formed, and none of our sessions has the lock.\<close>

definition sched_idle :: "nat set \<Rightarrow> pg \<Rightarrow> bool" where
  "sched_idle own s \<longleftrightarrow> working s = None \<and> db_ok (committed s) \<and> advisory s \<notin> Some ` own"

definition sched_admissible :: "nat set \<Rightarrow> sched_tick \<Rightarrow> bool" where
  "sched_admissible own e \<longleftrightarrow> tk_sess e \<in> own \<and> (\<forall>s. sched_idle own s \<longrightarrow> sched_idle own (tk_others e s))"

interpretation sched_inv: loop_invariant "scheduler_round X" "sched_admissible own" "sched_idle own" for X own
proof
  fix s and e :: sched_tick
  assume "sched_idle own s" "sched_admissible own e"
  then have idle: "sched_idle own (tk_others e s)" "tk_sess e \<in> own" by (simp_all add: sched_admissible_def)
  obtain r s' where run: "run_state (Tick (queue_enqueue X) X (tk_sess e) (tk_now e) (tk_env e) (tk_brk e)) (tk_others e s) = (r, s')"
    by force
  have "advisory (tk_others e s) \<noteq> Some (tk_sess e)" using idle by (auto simp: sched_idle_def)
  with queue_enq.Tick_step [OF _ _ _ run] idle(1) have "sched_idle own s'"
    by (auto simp: sched_idle_def sched_step_def)
  then show "sched_idle own (snd (scheduler_round X e s))" by (simp add: scheduler_round_def run)
qed

text \<open>
  C17: a scheduler process runs until its context is done, not longer and not shorter. \<open>Run\<close> returns
  if and only if the context ends, with the context's error, after exactly the ticks before the
  end, whatever failed in them; and it never leaves with the advisory lock of one of its sessions
  or with an open transaction, so another scheduler can take over at once.
\<close>

theorem Scheduler_run_ends:
  assumes "sched_idle own s" "\<forall>k e. ctx k = Recv e \<longrightarrow> sched_admissible own e"
  shows "((\<exists>r. RunScheduler X ctxErr ctx s = Some r) \<longleftrightarrow> (\<exists>n. ctx n = Done)) \<and>
    (\<forall>err s'. RunScheduler X ctxErr ctx s = Some (err, s') \<longrightarrow>
       err = Some ctxErr \<and> sched_idle own s' \<and>
       (\<exists>ticks. done_after ctx 0 ticks \<and> s' = fold (\<lambda>e s. snd (scheduler_round X e s)) ticks s))"
proof (intro conjI allI impI)
  show ends: "(\<exists>r. RunScheduler X ctxErr ctx s = Some r) \<longleftrightarrow> (\<exists>n. ctx n = Done)"
    using sched.returns_iff [of X ctx s] by (auto simp: RunScheduler_def simp del: split_paired_Ex)
  fix err s' assume run: "RunScheduler X ctxErr ctx s = Some (err, s')"
  then have sel: "select_loop (scheduler_round X) ctx 0 s = Some s'" and err: "err = Some ctxErr"
    by (auto simp: RunScheduler_def)
  show "err = Some ctxErr" by (rule err)
  show "sched_idle own s'" using sched_inv.loop_inv [OF sel assms(1)] assms(2) by blast
  obtain ticks where "done_after ctx 0 ticks" using ends run done_after_ex [of ctx 0] by auto
  with sel show "\<exists>ticks. done_after ctx 0 ticks \<and> s' = fold (\<lambda>e s. snd (scheduler_round X e s)) ticks s"
    using sched.runs_all by fastforce
qed

definition sample_tick :: sched_tick where
  "sample_tick = \<lparr>tk_others = (\<lambda>s. s), tk_sess = 4, tk_now = 50,
     tk_env = (\<lambda>k. \<lparr>e_gonow = 50, e_now = 50, e_newid = 90 + of_nat k, e_elapsed = 1\<rparr>), tk_brk = None\<rparr>"

lemma Scheduler_run_ends_witness:
  "\<exists>s'. RunScheduler sample_ext ''context canceled'' (\<lambda>n. if n < 3 then Recv sample_tick else Done)
     (sample_pg sample_sched_db) = Some (Some ''context canceled'', s') \<and> sched_idle {4} s'"
proof -
  let ?ctx = "\<lambda>n::nat. if n < 3 then Recv sample_tick else Done"
  have "sched_idle {4} (sample_pg sample_sched_db)" by (simp add: sched_idle_def sample_sched_ok)
  moreover have "\<forall>k e. ?ctx k = Recv e \<longrightarrow> sched_admissible {4} e"
    by (auto simp: sched_admissible_def sample_tick_def split: if_splits)
  ultimately show ?thesis
    using Scheduler_run_ends [of "{4}" "sample_pg sample_sched_db" ?ctx sample_ext "''context canceled''"]
    by (auto intro: exI [of _ 3])
qed

section \<open>The loops and their finite runs\<close>

lemma rounds_heartbeat: "snd (rounds (heartbeat_round p job) ticks s) = heartbeat p job ticks s"
  by (induction p job ticks s rule: heartbeat.induct) (auto simp: heartbeat_round_def split: prod.splits sum.splits)

lemma rounds_bridge_panic [simp]: "snd (rounds (bridge_round json order) (map Some msgs) None) = None"
  by (cases msgs) (simp_all add: bridge_round_def)

lemma rounds_bridge:
  "has_client r \<Longrightarrow> has_hub r \<Longrightarrow> r \<noteq> NilEvents \<Longrightarrow>
   snd (rounds (bridge_round json order) (map Some msgs) (Some h)) = RunEvents json order r msgs h"
  by (induction json order r msgs h rule: RunEvents.induct)
    (auto simp: bridge_round_def split: option.splits)

text \<open>
  Each background loop does its rounds one after the other until its context is done. The
  depth sampler and the statistics ticker end with the context only and then have done all rounds
  before it; the bridge has published the messages that arrived before the end, or before its
  subscription was closed, in their order; a heartbeat has extended the lease once per tick until
  the first call that failed.
\<close>

lemma Background_loops_end:
  shows "((\<exists>r. StartDepthSampler queues sctx st = Some r) \<longleftrightarrow> (\<exists>n. sctx n = Done)) \<and>
    (done_after sctx 0 os \<longrightarrow>
      StartDepthSampler queues sctx st = Some (fold (\<lambda>m st. run_state (sample_depths queues (fst st)) (m (snd st))) os st)) \<and>
    ((\<exists>r. StartStatsTicks srv tctx a = Some r) \<longleftrightarrow> (\<exists>n. tctx n = Done)) \<and>
    (done_after tctx 0 cs \<longrightarrow> StartStatsTicks srv tctx a = Some (fold (\<lambda>(m, c) a. stats_tick srv c (m a)) cs a)) \<and>
    (done_after bctx 0 (map Some msgs) \<longrightarrow>
      RunBridge json order (RedisEvents True True) bctx h = Some (RunEvents json order (RedisEvents True True) msgs h)) \<and>
    (\<not> (client \<and> hub) \<longrightarrow> RunBridge json order (RedisEvents client hub) bctx h = Some (Some h)) \<and>
    (done_after hctx 0 ticks \<longrightarrow> heartbeat_loop p job hctx s = Some (heartbeat p job ticks s))"
proof (intro conjI impI)
  show "(\<exists>r. StartDepthSampler queues sctx st = Some r) \<longleftrightarrow> (\<exists>n. sctx n = Done)"
    by (simp add: StartDepthSampler_def sampler.returns_iff del: split_paired_Ex)
  show "(\<exists>r. StartStatsTicks srv tctx a = Some r) \<longleftrightarrow> (\<exists>n. tctx n = Done)"
    by (simp add: StartStatsTicks_def stats.returns_iff)
  show "StartDepthSampler queues sctx st = Some (fold (\<lambda>m st. run_state (sample_depths queues (fst st)) (m (snd st))) os st)"
    if "done_after sctx 0 os"
    using sampler.runs_all [OF that, of queues st]
    by (simp add: StartDepthSampler_def sampler_round_def case_prod_unfold)
  show "StartStatsTicks srv tctx a = Some (fold (\<lambda>(m, c) a. stats_tick srv c (m a)) cs a)" if "done_after tctx 0 cs"
    using stats.runs_all [OF that, of srv a] by (simp add: StartStatsTicks_def stats_round_def case_prod_unfold)
  show "RunBridge json order (RedisEvents True True) bctx h = Some (RunEvents json order (RedisEvents True True) msgs h)"
    if "done_after bctx 0 (map Some msgs)"
    using select_loop_done [OF that, of "bridge_round json order" "Some h"] rounds_bridge [of "RedisEvents True True" json order msgs h]
    by (simp add: RunBridge_def)
  show "RunBridge json order (RedisEvents client hub) bctx h = Some (Some h)" if "\<not> (client \<and> hub)"
    using that by (auto simp: RunBridge_def)
  show "heartbeat_loop p job hctx s = Some (heartbeat p job ticks s)" if "done_after hctx 0 ticks"
    using select_loop_done [OF that, of "heartbeat_round p job" s] by (simp add: heartbeat_loop_def rounds_heartbeat)
qed

end
