(* ===== verification/Processes.thy ===== *)
theory Processes
  imports Commands Background
begin

text \<open>
  How a process starts and ends: \<open>src/internal/store/store.go\<close> (\<open>Open\<close>, \<open>Migrate\<close>),
  \<open>src/internal/tracing/tracing.go\<close> and the \<open>main\<close> functions of \<open>src/cmd/forge-worker\<close>,
  \<open>forge-scheduler\<close> and \<open>forge-api\<close>. What the libraries answer (\<open>pgx\<close>, \<open>golang-migrate\<close>, the
  exporter of OpenTelemetry, \<open>net.Listen\<close>) is the record \<open>lib\<close>. An acquired resource and its
  release are effects in a trace; a \<open>main\<close> gives its exit status and the deferred calls that ran,
  in their order, or \<open>None\<close> while the process goes on or hangs in a call that waits. \<open>os.Exit\<close> runs no
  deferred call.
\<close>

section \<open>The libraries\<close>

record pool_config =
  MaxConns :: int
  MinConns :: int
  MaxConnLifetime :: duration

datatype up_result = UpOk | ErrNoChange | UpFailed error

record lib =
  ParseConfig :: "string \<Rightarrow> error + pool_config"
  NewWithConfig :: "pool_config \<Rightarrow> error option"
  pool_Ping :: "error option"
  WithInstance :: "error option"
  iofs_New :: "error option"
  NewWithInstance :: "error option"
  migrate_Up :: up_result
  otlp_New :: "string \<Rightarrow> error option"
  net_Listen :: "string \<Rightarrow> error option"

text \<open>
  \<open>MigrateConn\<close> is the connection that \<open>postgres.WithInstance\<close> takes from the \<open>sql.DB\<close> for the migration.
\<close>

datatype resource = PgxPool pool_config | SqlDB | MigrateConn

datatype effect = Acquired resource | Released resource

text \<open>What is acquired and not released after a trace.\<close>

fun leaked :: "effect list \<Rightarrow> resource list" where
  "leaked [] = []"
| "leaked (Acquired r # es) = (if Released r \<in> set es then leaked es else r # leaked es)"
| "leaked (Released r # es) = leaked es"

section \<open>Store and tracing\<close>

definition Open :: "lib \<Rightarrow> string \<Rightarrow> (error + pool_config) \<times> effect list" where
  "Open L databaseURL =
     (case ParseConfig L databaseURL of
        Inl err \<Rightarrow> (Inl err, [])
      | Inr cfg \<Rightarrow>
          (let cfg = cfg\<lparr>MaxConns := 32, MinConns := 2, MaxConnLifetime := 30 * Minute\<rparr> in
           case NewWithConfig L cfg of
             Some err \<Rightarrow> (Inl err, [])
           | None \<Rightarrow>
               (case pool_Ping L of
                  Some err \<Rightarrow> (Inl err, [Acquired (PgxPool cfg), Released (PgxPool cfg)])
                | None \<Rightarrow> (Inr cfg, [Acquired (PgxPool cfg)]))))"

text \<open>
  Every return after \<open>OpenDB\<close> runs the deferred \<open>db.Close()\<close>, which closes the idle connections. The
  connection that a successful \<open>WithInstance\<close> has taken is not idle: only \<open>m.Close()\<close> would give it
  back, which is never called.
\<close>

definition Migrate :: "lib \<Rightarrow> string \<Rightarrow> error option \<times> effect list" where
  "Migrate L databaseURL =
     (case ParseConfig L databaseURL of
        Inl err \<Rightarrow> (Some err, [])
      | Inr cfg \<Rightarrow>
          ((case WithInstance L of
              Some err \<Rightarrow> Some err
            | None \<Rightarrow> (case iofs_New L of
                Some err \<Rightarrow> Some err
              | None \<Rightarrow> (case NewWithInstance L of
                  Some err \<Rightarrow> Some err
                | None \<Rightarrow> (case migrate_Up L of
                    UpFailed err \<Rightarrow> Some (ErrMessage (''migrate up: '' @ Error_text err))
                  | _ \<Rightarrow> None)))),
           [Acquired SqlDB] @ (if WithInstance L = None then [Acquired MigrateConn] else []) @ [Released SqlDB]))"

datatype shutdown_fn = NoShutdown | ProviderShutdown string

definition tracing_Init :: "lib \<Rightarrow> string \<Rightarrow> string \<Rightarrow> error + shutdown_fn" where
  "tracing_Init L serviceName endpoint =
     (if endpoint = '''' then Inr NoShutdown
      else (case otlp_New L endpoint of Some err \<Rightarrow> Inl err | None \<Rightarrow> Inr (ProviderShutdown serviceName)))"

section \<open>The processes\<close>

datatype cleanup = StopSignals | ShutdownTracing shutdown_fn | CloseDB | CloseRedis | ShutdownHTTP | StopGRPC | CancelShutdown

text \<open>What a process starts with \<open>go\<close>, with what it passes on.\<close>

datatype background = EventsRun | DepthSampler "string list" | StatsTicks Server | ServeGRPC string | ServeHTTP string Server

record outcome =
  exit_status :: int
  started :: "background list"
  cleanups :: "cleanup list"

text \<open>\<open>os.Exit(1)\<close>, which skips the deferred calls, and a return from \<open>main\<close>.\<close>

definition os_Exit1 :: "background list \<Rightarrow> outcome" where
  "os_Exit1 bs = \<lparr>exit_status = 1, started = bs, cleanups = []\<rparr>"

definition main_returns :: "background list \<Rightarrow> cleanup list \<Rightarrow> outcome" where
  "main_returns bs cs = \<lparr>exit_status = 0, started = bs, cleanups = cs\<rparr>"

definition defer_tracing :: "error + shutdown_fn \<Rightarrow> cleanup list" where
  "defer_tracing r = (case r of Inl _ \<Rightarrow> [] | Inr f \<Rightarrow> [ShutdownTracing f])"

text \<open>The start that the three commands share: migrations, then the connection pool.\<close>

definition start_store :: "lib \<Rightarrow> Config \<Rightarrow> bool" where
  "start_store L cfg =
     (case fst (Migrate L (DatabaseURL cfg)) of
        Some err \<Rightarrow> False
      | None \<Rightarrow> (case fst (Open L (DatabaseURL cfg)) of Inl err \<Rightarrow> False | Inr db \<Rightarrow> True))"

text \<open>
  The worker, when its pool (\<open>worker_pool\<close> of its configuration) is in the state \<open>st\<close>; \<open>elapsed\<close> says whether the grace period is over and
  \<open>pick\<close> which case \<open>select\<close> takes. \<open>returned\<close>: all connections are back in the pool of the database,
  for which \<open>db.Close()\<close> waits (a slot that overran the grace period may still use one).
\<close>

definition ctx_Err :: "pool_state \<Rightarrow> go_err" where
  "ctx_Err st = (if ps_done st then Some ''context canceled'' else None)"

definition main_worker :: "lib \<Rightarrow> Config \<Rightarrow> bool \<Rightarrow> bool \<Rightarrow> pool_state \<Rightarrow> bool \<Rightarrow> outcome option" where
  "main_worker L cfg elapsed pick st returned =
     (let tracing = tracing_Init L ''forge-worker'' (OTLPEndpoint cfg) in
      if \<not> start_store L cfg then Some (os_Exit1 [])
      else (case Run elapsed pick st of
          None \<Rightarrow> None
        | Some err \<Rightarrow>
            if err \<noteq> None \<and> ctx_Err st = None then Some (os_Exit1 [])
            else if \<not> returned then None
            else Some (main_returns [] ([CloseRedis, CloseDB] @ defer_tracing tracing @ [StopSignals]))))"

text \<open>The only goroutine of the scheduler that uses the database is \<open>Run\<close>: when it is back, so are its connections.\<close>

definition main_scheduler ::
  "lib \<Rightarrow> ext \<Rightarrow> Config \<Rightarrow> (nat \<Rightarrow> sched_tick choice) \<Rightarrow> pg \<Rightarrow> (outcome \<times> pg) option" where
  "main_scheduler L X cfg ctx s =
     (let tracing = tracing_Init L ''forge-scheduler'' (OTLPEndpoint cfg) in
      if \<not> start_store L cfg then Some (os_Exit1 [], s)
      else (case RunScheduler X ''context canceled'' ctx s of
          None \<Rightarrow> None
        | Some (err, s') \<Rightarrow>
            if err \<noteq> None \<and> err \<noteq> Some ''context canceled'' then Some (os_Exit1 [], s')
            else Some (main_returns [] (CloseDB # defer_tracing tracing @ [StopSignals]), s')))"

text \<open>Why the context of the API process is done: a signal, or \<open>stop()\<close> after the HTTP server failed.\<close>

datatype stop_cause = Signalled | HttpStopped error

definition api_server :: "Config \<Rightarrow> Server" where
  "api_server cfg = NewServer (api_limiter cfg) (RedisEvents True True) True"

text \<open>
  \<open>httpServer.Shutdown\<close> ends after ten seconds at the latest; \<open>GracefulStop\<close> waits for the calls that
  run (\<open>drained\<close>), and \<open>db.Close()\<close> for the connections in use (\<open>returned\<close>).
\<close>

definition main_api :: "lib \<Rightarrow> Config \<Rightarrow> stop_cause option \<Rightarrow> bool \<Rightarrow> bool \<Rightarrow> outcome option" where
  "main_api L cfg stopped drained returned =
     (let tracing = tracing_Init L ''forge-api'' (OTLPEndpoint cfg) in
      if \<not> start_store L cfg then Some (os_Exit1 [])
      else (let server = api_server cfg; go = [EventsRun, DepthSampler (cfg_Queues cfg), StatsTicks server] in
        case net_Listen L (GRPCAddr cfg) of
          Some err \<Rightarrow> Some (os_Exit1 go)
        | None \<Rightarrow>
            (case stopped of
               None \<Rightarrow> None
             | Some cause \<Rightarrow>
                 if \<not> drained \<or> \<not> returned then None
                 else Some (main_returns (go @ [ServeGRPC (GRPCAddr cfg), ServeHTTP (HTTPAddr cfg) server])
                   ([ShutdownHTTP, StopGRPC, CancelShutdown, CloseRedis, CloseDB] @ defer_tracing tracing @ [StopSignals])))))"

section \<open>What they guarantee\<close>

text \<open>
  Opening the store. \<open>Open\<close> returns a pool only if parsing, connecting and the ping all succeeded, with
  at most 32 and at least 2 connections of half an hour; in every other case it returns the first
  error and leaves no pool open. \<open>Migrate\<close> succeeds when there is nothing to migrate, and leaves
  the connection of the migration open whenever \<open>WithInstance\<close> took one.
\<close>

lemma Open_releases:
  assumes "Open L url = (r, es)"
  shows "case r of
      Inl err \<Rightarrow> leaked es = [] \<and>
        (ParseConfig L url = Inl err \<or> (\<exists>cfg. NewWithConfig L cfg = Some err) \<or> pool_Ping L = Some err)
    | Inr cfg \<Rightarrow> leaked es = [PgxPool cfg] \<and> pool_Ping L = None \<and> NewWithConfig L cfg = None \<and>
        MaxConns cfg = 32 \<and> MinConns cfg = 2 \<and> MaxConnLifetime cfg = 1800 * Second"
  using assms by (auto simp: Open_def Let_def Minute_def Second_def split: sum.splits option.splits)

lemma Migrate_leaks:
  assumes "Migrate L url = (m, ms)"
  shows "leaked ms = (if (\<exists>cfg. ParseConfig L url = Inr cfg) \<and> WithInstance L = None then [MigrateConn] else [])"
    and "m = None \<longleftrightarrow> (\<exists>cfg. ParseConfig L url = Inr cfg) \<and> WithInstance L = None \<and> iofs_New L = None \<and>
       NewWithInstance L = None \<and> (migrate_Up L = UpOk \<or> migrate_Up L = ErrNoChange)"
  using assms by (auto simp: Migrate_def split: sum.splits option.splits up_result.splits if_splits)

definition sample_lib :: "up_result \<Rightarrow> error option \<Rightarrow> lib" where
  "sample_lib up ping =
     \<lparr>ParseConfig = (\<lambda>url. if url = '''' then Inl (ErrMessage ''empty'') else Inr \<lparr>MaxConns = 4, MinConns = 0, MaxConnLifetime = 0\<rparr>),
      NewWithConfig = (\<lambda>_. None), pool_Ping = ping, WithInstance = None, iofs_New = None, NewWithInstance = None,
      migrate_Up = up, otlp_New = (\<lambda>_. None), net_Listen = (\<lambda>_. None)\<rparr>"

lemma Run_done: "Run elapsed pick st = Some err \<Longrightarrow> ps_done st"
  by (simp add: Run_def split: if_splits)

lemma main_worker_started:
  assumes "start_store L cfg"
  shows "main_worker L cfg elapsed pick st returned =
     (if Run elapsed pick st = None \<or> \<not> returned then None
      else Some (main_returns [] ([CloseRedis, CloseDB] @ defer_tracing (tracing_Init L ''forge-worker'' (OTLPEndpoint cfg)) @ [StopSignals])))"
  using assms Run_done [of elapsed pick st] by (cases "Run elapsed pick st") (simp_all add: main_worker_def Let_def ctx_Err_def)

definition api_goroutines :: "Config \<Rightarrow> background list" where
  "api_goroutines cfg = [EventsRun, DepthSampler (cfg_Queues cfg), StatsTicks (api_server cfg)]"

lemma main_api_started:
  "start_store L cfg \<Longrightarrow> main_api L cfg stopped drained returned =
     (if net_Listen L (GRPCAddr cfg) \<noteq> None then Some (os_Exit1 (api_goroutines cfg))
      else if stopped = None \<or> \<not> drained \<or> \<not> returned then None
      else Some (main_returns (api_goroutines cfg @ [ServeGRPC (GRPCAddr cfg), ServeHTTP (HTTPAddr cfg) (api_server cfg)])
        ([ShutdownHTTP, StopGRPC, CancelShutdown, CloseRedis, CloseDB] @
         defer_tracing (tracing_Init L ''forge-api'' (OTLPEndpoint cfg)) @ [StopSignals])))"
  by (simp add: main_api_def Let_def api_goroutines_def split: option.splits)

lemma main_scheduler_started:
  "start_store L cfg \<Longrightarrow> main_scheduler L X cfg ctx s =
     map_option (Pair (main_returns [] (CloseDB # defer_tracing (tracing_Init L ''forge-scheduler'' (OTLPEndpoint cfg)) @ [StopSignals])))
       (select_loop (scheduler_round X) ctx 0 s)"
  by (simp add: main_scheduler_def Let_def RunScheduler_def split: option.splits)

lemmas main_started = main_worker_started main_api_started main_scheduler_started

text \<open>The deferred shutdown of tracing: registered when \<open>tracing.Init\<close> succeeded.\<close>

definition tracing_cleanup :: "lib \<Rightarrow> string \<Rightarrow> Config \<Rightarrow> cleanup list" where
  "tracing_cleanup L service cfg =
     (if OTLPEndpoint cfg = '''' then [ShutdownTracing NoShutdown]
      else if otlp_New L (OTLPEndpoint cfg) = None then [ShutdownTracing (ProviderShutdown service)]
      else [])"

lemma defer_tracing_cleanup: "defer_tracing (tracing_Init L service (OTLPEndpoint cfg)) = tracing_cleanup L service cfg"
  by (simp add: defer_tracing_def tracing_Init_def tracing_cleanup_def split: option.splits)

text \<open>
  C36: exit statuses. The worker and the scheduler exit with 1 if and only if the migrations or the
  database failed at the start, the API process also if the gRPC port could not be bound; nothing
  is cleaned up then. Otherwise a process ends only after its context is done: the worker when
  \<open>Run\<close> has returned and all connections are back, the scheduler when its \<open>Run\<close> has returned, the
  API process when it was stopped, no gRPC call runs and all connections are back. It then exits
  with 0, having run exactly these deferred calls in this order: Redis, database, tracing (if it
  was initialised), signals. So a worker that exceeded its grace period exits with 0 too, its check
  of \<open>Run\<close>'s error being dead code, and so does an API process whose HTTP port could not be bound.
\<close>

theorem Process_exit_status:
  assumes "main_worker L cfg elapsed pick st returned = w" "main_scheduler L X cfg ctx s = k"
    and "main_api L cfg stopped drained returned = a"
  shows "if start_store L cfg then
      (w = None \<longleftrightarrow> Run elapsed pick st = None \<or> \<not> returned) \<and>
      (\<forall>out. w = Some out \<longrightarrow> ps_done st \<and> exit_status out = 0 \<and>
         cleanups out = [CloseRedis, CloseDB] @ tracing_cleanup L ''forge-worker'' cfg @ [StopSignals]) \<and>
      (Run elapsed pick st = Some grace_exceeded \<and> returned \<longrightarrow> map_option exit_status w = Some 0) \<and>
      (k = None \<longleftrightarrow> (\<forall>n. ctx n \<noteq> Done)) \<and>
      (\<forall>out s'. k = Some (out, s') \<longrightarrow> exit_status out = 0 \<and>
         cleanups out = [CloseDB] @ tracing_cleanup L ''forge-scheduler'' cfg @ [StopSignals]) \<and>
      (if net_Listen L (GRPCAddr cfg) \<noteq> None then map_option exit_status a = Some 1
       else (a = None \<longleftrightarrow> stopped = None \<or> \<not> drained \<or> \<not> returned) \<and>
         (\<forall>out. a = Some out \<longrightarrow> exit_status out = 0 \<and> take 3 (started out) = api_goroutines cfg \<and>
            cleanups out = [ShutdownHTTP, StopGRPC, CancelShutdown, CloseRedis, CloseDB] @
              tracing_cleanup L ''forge-api'' cfg @ [StopSignals]))
    else w = Some \<lparr>exit_status = 1, started = [], cleanups = []\<rparr> \<and>
      k = Some (\<lparr>exit_status = 1, started = [], cleanups = []\<rparr>, s) \<and> a = Some \<lparr>exit_status = 1, started = [], cleanups = []\<rparr>"
proof (cases "start_store L cfg")
  case True
  have k: "select_loop (scheduler_round X) ctx 0 s = None \<longleftrightarrow> (\<forall>n. ctx n \<noteq> Done)"
    using sched.returns_iff [of X ctx s] by (metis not_None_eq)
  show ?thesis
    unfolding if_P [OF True] assms [symmetric] main_started [OF True] defer_tracing_cleanup
    by (intro conjI) (auto simp: k main_returns_def os_Exit1_def api_goroutines_def dest: Run_done)
next
  case False
  then show ?thesis
    using assms unfolding main_worker_def main_scheduler_def main_api_def by (simp add: os_Exit1_def)
qed

text \<open>A worker whose slot is still busy when the grace period is over.\<close>

lemma Process_exit_status_witness:
  "map_option exit_status (main_worker (sample_lib UpOk None) (Load (\<lambda>_. '''') ''host'') True False
     \<lparr>ps_pg = sample_pg (sample_db Running), ps_slots = [Busy (sample_job Running)], ps_done = True, ps_failures = 0\<rparr> True) = Some 0"
proof -
  let ?st = "\<lparr>ps_pg = sample_pg (sample_db Running), ps_slots = [Busy (sample_job Running)], ps_done = True, ps_failures = 0\<rparr>"
  have started: "start_store (sample_lib UpOk None) (Load (\<lambda>_. '''') ''host'')"
    by (simp add: start_store_def Migrate_def Open_def sample_lib_def Load_def env_def Let_def)
  have "Run True False ?st = Some grace_exceeded" by (simp add: Run_def)
  with Process_exit_status [OF refl refl refl, of "sample_lib UpOk None" "Load (\<lambda>_. '''') ''host''" True False ?st True
      sample_ext "\<lambda>_. Done" "sample_pg empty_db" "Some Signalled" True, unfolded if_P [OF started]]
  show ?thesis by blast
qed

end
