(* ===== verification/Row_Scan.thy ===== *)
theory Row_Scan
  imports Samples
begin

text \<open>
  How \<open>src/internal/queue/postgres.go\<close> turns result rows into Go values: the select lists of
  its statements, \<open>scanJobFields\<close> with its destinations in order, and the loops over rows.
  The rest of the development lets a query return \<open>job\<close> values directly; the theorem of this
  theory is the justification, and it fails when a column and a destination change places.

  The conversion of one column value to one Go variable is the work of \<open>pgx\<close> and
  \<open>database/sql\<close>: a parameter, with what their documentation promises as \<open>scan_law\<close>.
\<close>

section \<open>Columns\<close>

datatype sqlval =
    SNull
  | SUuid uuid
  | SText string
  | SJsonb string
  | SInt int
  | STime time
  | SBool bool

fun status_text :: "status \<Rightarrow> string" where
  "status_text Ready = ''ready''"
| "status_text Running = ''running''"
| "status_text Succeeded = ''succeeded''"
| "status_text Failed = ''failed''"
| "status_text Dead = ''dead''"

text \<open>The inverse on the texts that the \<open>CHECK\<close> of the column admits.\<close>

definition status_of_text :: "string \<Rightarrow> status option" where
  "status_of_text t = find (\<lambda>st. status_text st = t) [Ready, Running, Succeeded, Failed, Dead]"

definition nullable :: "('a \<Rightarrow> sqlval) \<Rightarrow> 'a option \<Rightarrow> sqlval" where
  "nullable f x = (case x of None \<Rightarrow> SNull | Some v \<Rightarrow> f v)"

text \<open>The columns of table \<open>jobs\<close> by name.\<close>

definition job_column :: "job \<Rightarrow> string \<rightharpoonup> sqlval" where
  "job_column j = map_of
     [(''id'', SUuid (ID j)), (''tenant_id'', SUuid (TenantID j)), (''queue'', SText (Queue j)),
      (''handler'', SText (Handler j)), (''payload'', SJsonb (Payload j)), (''status'', SText (status_text (Status j))),
      (''priority'', SInt (Priority j)), (''attempts'', SInt (Attempts j)), (''max_attempts'', SInt (MaxAttempts j)),
      (''run_at'', STime (RunAt j)), (''locked_by'', nullable SText (LockedBy j)),
      (''locked_until'', nullable STime (LockedUntil j)), (''idempotency_key'', nullable SText (IdempotencyKey j)),
      (''last_error'', nullable SText (LastError j)), (''created_at'', STime (CreatedAt j)), (''updated_at'', STime (UpdatedAt j))]"

text \<open>The list that every statement returning jobs selects.\<close>

definition job_select_list :: "string list" where
  "job_select_list =
     [''id'', ''tenant_id'', ''queue'', ''handler'', ''payload'', ''status'', ''priority'', ''attempts'',
      ''max_attempts'', ''run_at'', ''locked_by'', ''locked_until'', ''idempotency_key'', ''last_error'',
      ''created_at'', ''updated_at'']"

definition job_result_row :: "job \<Rightarrow> sqlval list" where
  "job_result_row j = map (\<lambda>c. the (job_column j c)) job_select_list"

definition dead_result_row :: "DeadJob \<Rightarrow> sqlval list" where
  "dead_result_row x = job_result_row (dj_Job x) @ [STime (dj_DeadAt x), SText (dj_Reason x)]"

section \<open>Scanning\<close>

record scanner =
  to_uuid :: "sqlval \<Rightarrow> error + uuid"
  to_string :: "sqlval \<Rightarrow> error + string"
  to_bytes :: "sqlval \<Rightarrow> error + string"
  to_int16 :: "sqlval \<Rightarrow> error + int"
  to_int :: "sqlval \<Rightarrow> error + int"
  to_time :: "sqlval \<Rightarrow> error + time"
  to_bool :: "sqlval \<Rightarrow> error + bool"
  to_NullString :: "sqlval \<Rightarrow> error + string option"
  to_NullTime :: "sqlval \<Rightarrow> error + time option"

text \<open>
  Documented behaviour: a value goes into a variable of its type unchanged, an integer as long
  as it fits, and \<open>NULL\<close> becomes an invalid \<open>NullString\<close> or \<open>NullTime\<close>.
\<close>

definition scan_law :: "scanner \<Rightarrow> bool" where
  "scan_law S \<longleftrightarrow>
     (\<forall>u. to_uuid S (SUuid u) = Inr u) \<and> (\<forall>t. to_string S (SText t) = Inr t) \<and>
     (\<forall>t. to_bytes S (SJsonb t) = Inr t) \<and>
     (\<forall>n. - (2 ^ 15) \<le> n \<and> n < 2 ^ 15 \<longrightarrow> to_int16 S (SInt n) = Inr n) \<and>
     (\<forall>n. - (2 ^ 31) \<le> n \<and> n < 2 ^ 31 \<longrightarrow> to_int S (SInt n) = Inr n) \<and>
     (\<forall>t. to_time S (STime t) = Inr t) \<and> (\<forall>b. to_bool S (SBool b) = Inr b) \<and>
     (\<forall>x. to_NullString S (nullable SText x) = Inr x) \<and> (\<forall>x. to_NullTime S (nullable STime x) = Inr x)"

definition bindE :: "error + 'a \<Rightarrow> ('a \<Rightarrow> error + 'b) \<Rightarrow> error + 'b" where
  "bindE m k = (case m of Inl e \<Rightarrow> Inl e | Inr a \<Rightarrow> k a)"

text \<open>The variable \<open>job.Status\<close> holds the text of the column; here it is read as the status it names.\<close>

definition to_status :: "scanner \<Rightarrow> sqlval \<Rightarrow> error + status" where
  "to_status S v = bindE (to_string S v) (\<lambda>t.
     case status_of_text t of None \<Rightarrow> Inl (ErrConstraint ''status'') | Some st \<Rightarrow> Inr st)"

text \<open>
  \<open>row.Scan(dest...)\<close>: the sixteen variables of a job in their order, then one value for each
  of the \<open>extra\<close> destinations. A row is an error (no rows, a failed statement) or its values.
\<close>

definition scanJobFields :: "scanner \<Rightarrow> nat \<Rightarrow> error + sqlval list \<Rightarrow> error + (job \<times> sqlval list)" where
  "scanJobFields S extra row = bindE row (\<lambda>vs.
     (if length vs \<noteq> 16 + extra
      then Inl (ErrMessage ''number of field descriptions must equal number of destinations'')
      else
       bindE (to_uuid S (vs ! 0)) (\<lambda>i. bindE (to_uuid S (vs ! 1)) (\<lambda>tenant.
       bindE (to_string S (vs ! 2)) (\<lambda>queue. bindE (to_string S (vs ! 3)) (\<lambda>handler.
       bindE (to_bytes S (vs ! 4)) (\<lambda>payload. bindE (to_status S (vs ! 5)) (\<lambda>st.
       bindE (to_int16 S (vs ! 6)) (\<lambda>priority. bindE (to_int S (vs ! 7)) (\<lambda>attempts.
       bindE (to_int S (vs ! 8)) (\<lambda>maxAttempts. bindE (to_time S (vs ! 9)) (\<lambda>runAt.
       bindE (to_NullString S (vs ! 10)) (\<lambda>lockedBy. bindE (to_NullTime S (vs ! 11)) (\<lambda>lockedUntil.
       bindE (to_NullString S (vs ! 12)) (\<lambda>idem. bindE (to_NullString S (vs ! 13)) (\<lambda>lastErr.
       bindE (to_time S (vs ! 14)) (\<lambda>createdAt. bindE (to_time S (vs ! 15)) (\<lambda>updatedAt.
       Inr (\<lparr>ID = i, TenantID = tenant, Queue = queue, Handler = handler, Payload = payload, Status = st,
             Priority = priority, Attempts = attempts, MaxAttempts = maxAttempts, RunAt = runAt,
             LockedBy = lockedBy, LockedUntil = lockedUntil, IdempotencyKey = idem, LastError = lastErr,
             CreatedAt = createdAt, UpdatedAt = updatedAt\<rparr>, drop 16 vs)))))))))))))))))))"

definition scanJob :: "scanner \<Rightarrow> error + sqlval list \<Rightarrow> error + job" where
  "scanJob S row = bindE (scanJobFields S 0 row) (\<lambda>(job, _). Inr job)"

definition scanJobWithCreated :: "scanner \<Rightarrow> error + sqlval list \<Rightarrow> error + (job \<times> bool)" where
  "scanJobWithCreated S row = bindE (scanJobFields S 1 row) (\<lambda>(job, extra).
     bindE (to_bool S (extra ! 0)) (\<lambda>created. Inr (job, created)))"

text \<open>
  The loop \<open>for rows.Next()\<close>: the rows that arrived and then \<open>rows.Err()\<close>. A row that does not
  scan ends it with nothing; a connection that breaks leaves the rows before it beside the error.
\<close>

fun scan_rows :: "(error + sqlval list \<Rightarrow> error + 'a) \<Rightarrow> 'a list \<Rightarrow> sqlval list list \<Rightarrow> error option \<Rightarrow>
    'a list \<times> error option" where
  "scan_rows f acc [] rowsErr = (acc, rowsErr)"
| "scan_rows f acc (vs # rows) rowsErr =
     (case f (Inr vs) of Inl err \<Rightarrow> ([], Some err) | Inr a \<Rightarrow> scan_rows f (acc @ [a]) rows rowsErr)"

definition scanJobs :: "scanner \<Rightarrow> sqlval list list \<Rightarrow> error option \<Rightarrow> job list \<times> error option" where
  "scanJobs S = scan_rows (scanJob S) []"

definition scan_dead_job :: "scanner \<Rightarrow> error + sqlval list \<Rightarrow> error + DeadJob" where
  "scan_dead_job S row = bindE (scanJobFields S 2 row) (\<lambda>(job, extra).
     bindE (to_time S (extra ! 0)) (\<lambda>deadAt. bindE (to_string S (extra ! 1)) (\<lambda>reason.
     Inr \<lparr>dj_Job = job, dj_DeadAt = deadAt, dj_Reason = reason\<rparr>)))"

definition scan_dead_jobs :: "scanner \<Rightarrow> sqlval list list \<Rightarrow> error option \<Rightarrow> DeadJob list \<times> error option" where
  "scan_dead_jobs S = scan_rows (scan_dead_job S) []"

section \<open>Scanning inverts selecting\<close>

lemma bindE_simps [simp]: "bindE (Inl e) k = Inl e" "bindE (Inr a) k = k a"
  by (simp_all add: bindE_def)

lemma status_of_text_inverse [simp]: "status_of_text (status_text st) = Some st"
  by (cases st) (simp_all add: status_of_text_def)

lemma scan_lawD:
  assumes "scan_law S"
  shows "to_uuid S (SUuid u) = Inr u" "to_string S (SText t) = Inr t" "to_bytes S (SJsonb t) = Inr t"
    "- (2 ^ 15) \<le> n \<Longrightarrow> n < 2 ^ 15 \<Longrightarrow> to_int16 S (SInt n) = Inr n"
    "- (2 ^ 31) \<le> n \<Longrightarrow> n < 2 ^ 31 \<Longrightarrow> to_int S (SInt n) = Inr n"
    "to_time S (STime tm) = Inr tm" "to_bool S (SBool b) = Inr b"
    "to_NullString S (nullable SText x) = Inr x" "to_NullTime S (nullable STime y) = Inr y"
  using assms unfolding scan_law_def by blast+

lemma job_result_row:
  "job_result_row j =
     [SUuid (ID j), SUuid (TenantID j), SText (Queue j), SText (Handler j), SJsonb (Payload j),
      SText (status_text (Status j)), SInt (Priority j), SInt (Attempts j), SInt (MaxAttempts j), STime (RunAt j),
      nullable SText (LockedBy j), nullable STime (LockedUntil j), nullable SText (IdempotencyKey j),
      nullable SText (LastError j), STime (CreatedAt j), STime (UpdatedAt j)]"
  by (simp add: job_result_row_def job_select_list_def job_column_def)

lemma scanJobFields_row:
  assumes "scan_law S" "jobs_check j"
  shows "scanJobFields S (length extra) (Inr (job_result_row j @ extra)) = Inr (j, extra)"
proof -
  have "- (2 ^ 15) \<le> Priority j" "Priority j < 2 ^ 15" "- (2 ^ 31) \<le> Attempts j" "Attempts j < 2 ^ 31"
    "- (2 ^ 31) \<le> MaxAttempts j" "MaxAttempts j < 2 ^ 31"
    using assms(2) by (simp_all add: jobs_check_def max_int32_def)
  note ints = scan_lawD(4) [OF assms(1) this(1,2)] scan_lawD(5) [OF assms(1) this(3,4)]
    scan_lawD(5) [OF assms(1) this(5,6)]
  show ?thesis
    by (simp add: scanJobFields_def job_result_row nth_append to_status_def ints scan_lawD(1-3,6-9) [OF assms(1)])
qed

text \<open>A loop over rows that all scan returns them in order, with the error at the end of the stream.\<close>

lemma scan_rows_all:
  "(\<And>x. x \<in> set xs \<Longrightarrow> f (Inr (g x)) = Inr x) \<Longrightarrow> scan_rows f acc (map g xs) rowsErr = (acc @ xs, rowsErr)"
  by (induction xs arbitrary: acc) auto

lemma scan_rows_error:
  "(\<And>x. x \<in> set xs \<Longrightarrow> f (Inr (g x)) = Inr x) \<Longrightarrow> f (Inr vs) = Inl e \<Longrightarrow>
   scan_rows f acc (map g xs @ vs # rest) rowsErr = ([], Some e)"
  by (induction xs arbitrary: acc) auto

lemma scanJob_row: "scan_law S \<Longrightarrow> jobs_check j \<Longrightarrow> scanJob S (Inr (job_result_row j)) = Inr j"
  using scanJobFields_row [of S j "[]"] by (simp add: scanJob_def)

lemma scan_dead_job_row:
  "scan_law S \<Longrightarrow> jobs_check (dj_Job x) \<Longrightarrow> scan_dead_job S (Inr (dead_result_row x)) = Inr x"
  using scanJobFields_row [of S "dj_Job x" "[STime (dj_DeadAt x), SText (dj_Reason x)]"]
  by (simp add: scan_dead_job_def dead_result_row_def scan_lawD numeral_2_eq_2)

lemma dead_jobs_checked: "db_ok d \<Longrightarrow> x \<in> set (dead_jobs d) \<Longrightarrow> jobs_check (dj_Job x)"
  by (auto simp: dead_jobs_def db_ok_defs)

text \<open>
  C25: scanning is the inverse of selecting. For every job that the constraints of the table
  admit, in whatever status and with whatever columns \<open>NULL\<close>, the destinations of
  \<open>scanJobFields\<close> receive exactly the columns that the statements select, with or without the
  extra \<open>created\<close>; a result set of jobs or of dead letters is read completely and in order; an
  error of the stream is returned with the rows before it, and a row that does not scan
  discards everything.
\<close>

theorem Scan_inverts_select:
  assumes "scan_law S" "db_ok d" "j \<in> set (jobs d)" "set js \<subseteq> set (jobs d)" "set ds \<subseteq> set (dead_jobs d)"
    and "scanJob S (Inr bad) = Inl e"
  shows "scanJob S (Inr (job_result_row j)) = Inr j \<and>
    scanJobWithCreated S (Inr (job_result_row j @ [SBool created])) = Inr (j, created) \<and>
    scanJob S (Inl err) = Inl err \<and>
    scanJobs S (map job_result_row js) rowsErr = (js, rowsErr) \<and>
    scan_dead_jobs S (map dead_result_row ds) rowsErr = (ds, rowsErr) \<and>
    scanJobs S (map job_result_row js @ bad # rest) rowsErr = ([], Some e)"
proof (intro conjI)
  have ck: "jobs_check x" if "x \<in> set (jobs d)" for x using assms(2) that by (simp add: db_ok_defs)
  note row = scanJob_row [OF assms(1) ck]
  show "scanJob S (Inr (job_result_row j)) = Inr j" using row assms(3) .
  show "scanJobWithCreated S (Inr (job_result_row j @ [SBool created])) = Inr (j, created)"
    using scanJobFields_row [OF assms(1) ck [OF assms(3)], of "[SBool created]"]
    by (simp add: scanJobWithCreated_def scan_lawD(7) [OF assms(1)])
  show "scanJob S (Inl err) = Inl err" by (simp add: scanJob_def scanJobFields_def)
  show "scanJobs S (map job_result_row js) rowsErr = (js, rowsErr)"
    unfolding scanJobs_def using row assms(4) by (subst scan_rows_all) auto
  show "scan_dead_jobs S (map dead_result_row ds) rowsErr = (ds, rowsErr)"
    unfolding scan_dead_jobs_def
    using scan_dead_job_row [OF assms(1) dead_jobs_checked [OF assms(2)]] assms(5) by (subst scan_rows_all) auto
  show "scanJobs S (map job_result_row js @ bad # rest) rowsErr = ([], Some e)"
    unfolding scanJobs_def using row assms(4,6) by (intro scan_rows_error) auto
qed

text \<open>A scanner that refuses everything but values of the right kind.\<close>

definition sample_scanner :: scanner where
  "sample_scanner =
     \<lparr>to_uuid = (\<lambda>v. case v of SUuid u \<Rightarrow> Inr u | _ \<Rightarrow> Inl ErrNullScan),
      to_string = (\<lambda>v. case v of SText t \<Rightarrow> Inr t | _ \<Rightarrow> Inl ErrNullScan),
      to_bytes = (\<lambda>v. case v of SJsonb t \<Rightarrow> Inr t | _ \<Rightarrow> Inl ErrNullScan),
      to_int16 = (\<lambda>v. case v of SInt n \<Rightarrow> Inr n | _ \<Rightarrow> Inl ErrNullScan),
      to_int = (\<lambda>v. case v of SInt n \<Rightarrow> Inr n | _ \<Rightarrow> Inl ErrNullScan),
      to_time = (\<lambda>v. case v of STime t \<Rightarrow> Inr t | _ \<Rightarrow> Inl ErrNullScan),
      to_bool = (\<lambda>v. case v of SBool b \<Rightarrow> Inr b | _ \<Rightarrow> Inl ErrNullScan),
      to_NullString = (\<lambda>v. case v of SText t \<Rightarrow> Inr (Some t) | SNull \<Rightarrow> Inr None | _ \<Rightarrow> Inl ErrNullScan),
      to_NullTime = (\<lambda>v. case v of STime t \<Rightarrow> Inr (Some t) | SNull \<Rightarrow> Inr None | _ \<Rightarrow> Inl ErrNullScan)\<rparr>"

lemma sample_scan_law: "scan_law sample_scanner"
  by (simp add: scan_law_def sample_scanner_def nullable_def split: option.splits)

lemma Scan_inverts_select_witness:
  "scanJobs sample_scanner (map job_result_row [sample_job Running] @ [] # []) None =
     ([], Some (ErrMessage ''number of field descriptions must equal number of destinations''))"
proof -
  have "scanJob sample_scanner (Inr []) =
      Inl (ErrMessage ''number of field descriptions must equal number of destinations'')"
    by (simp add: scanJob_def scanJobFields_def)
  from Scan_inverts_select [OF sample_scan_law sample_db_ok [of Running] _ _ _ this,
      of "sample_job Running" "[sample_job Running]" "[]"]
  show ?thesis by simp
qed

end
