(* ===== verification/Event_Stream.thy ===== *)
theory Event_Stream
  imports Events "HOL-Library.Sublist"
begin

text \<open>
  From \<open>Hub.Publish\<close> to the browser (\<open>src/internal/api/events.go\<close>): the hub with a record of
  what was published to and received by every subscriber, and the text that \<open>ServeSSE\<close> writes, read
  back by the rules of event streams (server-sent events of the HTML standard), which is the
  contract with the dashboard.
\<close>

section \<open>The start of a stream\<close>

record sse_head =
  sse_status :: int
  sse_headers :: "(string \<times> string) list"

text \<open>Without a \<open>Flusher\<close> the handler answers an error and does not subscribe.\<close>

definition open_stream :: "bool \<Rightarrow> 'e Hub \<Rightarrow> (sse_head + chan \<times> sse_head) \<times> 'e Hub" where
  "open_stream flusher h =
     (let head = \<lparr>sse_status = 200, sse_headers = [(''Content-Type'', ''text/event-stream''), (''Cache-Control'', ''no-cache''),
            (''Connection'', ''keep-alive''), (''X-Accel-Buffering'', ''no'')]\<rparr> in
      if \<not> flusher then (Inl (head\<lparr>sse_status := 500\<rparr>), h)
      else (case Subscribe h of (ch, h') \<Rightarrow> (Inr (ch, head), h')))"

section \<open>What reaches a subscriber\<close>

text \<open>
  The hub with its history: for every channel, the events that were published while it was
  subscribed, each with whether its buffer had room at that moment, and the events that were
  received from it.
\<close>

record 'e flow =
  fl_hub :: "'e Hub"
  fl_leaving :: "chan list"
  fl_log :: "chan \<Rightarrow> ('e \<times> bool) list"
  fl_got :: "chan \<Rightarrow> 'e list"

definition has_room :: "'e Hub \<Rightarrow> chan \<Rightarrow> bool" where
  "has_room h ch \<longleftrightarrow> length (buffer (channels h ! ch)) < 64"

inductive flow_step :: "'e flow \<Rightarrow> 'e flow \<Rightarrow> bool" where
  subscribe: "open_stream True (fl_hub w) = (Inr (ch, head), h') \<Longrightarrow> flow_step w (w\<lparr>fl_hub := h'\<rparr>)"
| publish: "mset order = mset (clients (fl_hub w)) \<Longrightarrow> Publish order event (fl_hub w) = Some h' \<Longrightarrow>
    flow_step w (w\<lparr>fl_hub := h',
      fl_log := (\<lambda>ch. if ch \<in> set (clients (fl_hub w)) then fl_log w ch @ [(event, has_room (fl_hub w) ch)] else fl_log w ch)\<rparr>)"
| leave: "ch \<in> set (clients (fl_hub w)) \<Longrightarrow>
    flow_step w (w\<lparr>fl_hub := remove_client ch (fl_hub w), fl_leaving := ch # fl_leaving w\<rparr>)"
| close: "ch \<in> set (fl_leaving w) \<Longrightarrow> close_channel ch (fl_hub w) = Some h' \<Longrightarrow>
    flow_step w (w\<lparr>fl_hub := h', fl_leaving := remove1 ch (fl_leaving w)\<rparr>)"
| receive: "receive ch (fl_hub w) = Some (Some event, h') \<Longrightarrow>
    flow_step w (w\<lparr>fl_hub := h', fl_got := (fl_got w)(ch := fl_got w ch @ [event])\<rparr>)"
| drained: "receive ch (fl_hub w) = Some (None, h') \<Longrightarrow> flow_step w (w\<lparr>fl_hub := h'\<rparr>)"

definition no_flow :: "'e flow" where
  "no_flow = \<lparr>fl_hub = NewHub, fl_leaving = [], fl_log = (\<lambda>_. []), fl_got = (\<lambda>_. [])\<rparr>"

text \<open>What waits in the buffer of a channel, and the events of the log that found room.\<close>

definition waiting :: "'e flow \<Rightarrow> chan \<Rightarrow> 'e list" where
  "waiting w ch = (if ch < length (channels (fl_hub w)) then buffer (channels (fl_hub w) ! ch) else [])"

definition found_room :: "('e \<times> bool) list \<Rightarrow> 'e list" where
  "found_room events = map fst (filter snd events)"

definition flow_ok :: "'e flow \<Rightarrow> bool" where
  "flow_ok w \<longleftrightarrow> hub_ok (fl_hub w, fl_leaving w) \<and> (\<forall>ch. fl_got w ch @ waiting w ch = found_room (fl_log w ch))"

lemma flow_hub_step: "flow_step w w' \<Longrightarrow> hub_step (fl_hub w, fl_leaving w) (Some (fl_hub w', fl_leaving w'))"
proof (induction rule: flow_step.induct)
  case (subscribe w ch head h')
  then have "h' = snd (Subscribe (fl_hub w))" by (auto simp: open_stream_def Let_def split: prod.splits)
  then show ?case using hub_step.subscribe [of "fl_hub w" "fl_leaving w"] by simp
next
  case (publish order w event h')
  then show ?case using hub_step.publish [OF publish(1), of "fl_leaving w" event] by simp
next
  case (leave ch w)
  then show ?case using hub_step.leave [OF leave, of "fl_leaving w"] by simp
next
  case (close ch w h')
  then show ?case using hub_step.close [OF close(1), of "fl_hub w"] by simp
next
  case (receive ch w event h')
  then show ?case using hub_step.receive [OF receive, of "fl_leaving w"] by simp
next
  case (drained ch w h')
  then show ?case using hub_step.receive [OF drained, of "fl_leaving w"] by simp
qed

lemma flow_same:
  assumes "flow_ok w" "hub_ok (fl_hub w', fl_leaving w')"
    and "\<And>ch. fl_got w' ch @ waiting w' ch = fl_got w ch @ waiting w ch" "fl_log w' = fl_log w"
  shows "flow_ok w'"
  using assms unfolding flow_ok_def by simp

lemma waiting_publish:
  assumes "hub_ok (fl_hub w, fl_leaving w)" "mset order = mset (clients (fl_hub w))" "Publish order event (fl_hub w) = Some h'"
    and "fl_hub w' = h'"
  shows "waiting w' ch = waiting w ch @ (if ch \<in> set (clients (fl_hub w)) \<and> has_room (fl_hub w) ch then [event] else [])"
proof -
  obtain cs where cs: "Publish order event (fl_hub w) = Some ((fl_hub w)\<lparr>channels := cs\<rparr>)" "length cs = length (channels (fl_hub w))"
    "\<forall>ch < length cs. cs ! ch = (if ch \<in> set (clients (fl_hub w)) then offered event (channels (fl_hub w) ! ch) else channels (fl_hub w) ! ch)"
    using hub_ok_publish [OF assms(1,2), where event = event] by blast
  moreover have "ch < length (channels (fl_hub w))" if "ch \<in> set (clients (fl_hub w))"
    using assms(1) that by (auto simp: hub_ok_def open_channel_def)
  ultimately show ?thesis using assms(3,4) by (auto simp: waiting_def offered_def has_room_def buffer_size_def)
qed

lemma flow_step_ok:
  assumes "flow_ok w" "flow_step w w'"
  shows "flow_ok w'"
proof -
  have hub: "hub_ok (fl_hub w', fl_leaving w')"
    using hub_step_ok [OF flow_hub_step [OF assms(2)]] assms(1) by (simp add: flow_ok_def)
  from assms(2) show ?thesis
  proof cases
    case (subscribe ch head h')
    then show ?thesis using flow_same [OF assms(1) hub]
      by (auto simp: waiting_def open_stream_def Subscribe_def Let_def nth_append)
  next
    case (publish order event h')
    have ok: "hub_ok (fl_hub w, fl_leaving w)" using assms(1) by (simp add: flow_ok_def)
    have "fl_hub w' = h'" using publish(1) by simp
    note wait = waiting_publish [OF ok publish(2,3) this]
    have "fl_got w' ch @ waiting w' ch = found_room (fl_log w' ch)" for ch
    proof -
      have "fl_got w ch @ waiting w ch = found_room (fl_log w ch)" using assms(1) by (simp add: flow_ok_def)
      with wait [of ch] show ?thesis by (simp add: publish(1) found_room_def)
    qed
    with hub show ?thesis by (simp add: flow_ok_def)
  next
    case (leave ch)
    then show ?thesis using flow_same [OF assms(1) hub] by (simp add: waiting_def remove_client_def)
  next
    case (close ch h')
    then show ?thesis using flow_same [OF assms(1) hub]
      by (auto simp: waiting_def close_channel_def nth_list_update split: if_splits)
  next
    case (receive ch event h')
    then show ?thesis using flow_same [OF assms(1) hub]
      by (auto simp: waiting_def receive_def nth_list_update split: if_splits list.splits)
  next
    case (drained ch h')
    then show ?thesis using flow_same [OF assms(1) hub]
      by (auto simp: waiting_def receive_def split: if_splits list.splits)
  qed
qed

interpretation flow: invariant_system flow_step flow_ok
  by unfold_locales (rule flow_step_ok)

lemma flow_reachable: "flow_step\<^sup>*\<^sup>* no_flow w \<Longrightarrow> flow_ok w"
  by (rule flow.steps_inv) (auto simp: flow_ok_def no_flow_def waiting_def found_room_def NewHub_def hub_ok_def)

section \<open>What the browser reads\<close>

text \<open>
  An event stream is read line by line; an unfinished line at the end is not looked at. A line that
  starts with a colon is a comment, \<open>data: x\<close> sets the data, and an empty line dispatches the event
  if there is data.
\<close>

definition newline :: char where
  "newline = CHR 0x0A"

fun stream_lines :: "string \<Rightarrow> string \<Rightarrow> string list" where
  "stream_lines cur [] = []"
| "stream_lines cur (c # cs) = (if c = newline then cur # stream_lines [] cs else stream_lines (cur @ [c]) cs)"

fun dispatch :: "string option \<Rightarrow> string list \<Rightarrow> string list" where
  "dispatch data [] = []"
| "dispatch data (l # ls) =
     (if l = '''' then (case data of None \<Rightarrow> dispatch None ls | Some x \<Rightarrow> x # dispatch None ls)
      else if take 6 l = ''data: '' then dispatch (Some (drop 6 l)) ls
      else dispatch data ls)"

definition browser :: "string \<Rightarrow> string list" where
  "browser text = dispatch None (stream_lines [] text)"

text \<open>The rounds of the handler before it returns, and the payloads that it received in them.\<close>

definition live :: "sse_input list \<Rightarrow> sse_input list" where
  "live ins = takeWhile (\<lambda>i. i \<noteq> ClientGone \<and> i \<noteq> ChannelClosed) ins"

fun payloads :: "sse_input list \<Rightarrow> string option list" where
  "payloads [] = []"
| "payloads (Received p # ins) = p # payloads ins"
| "payloads (_ # ins) = payloads ins"

lemma stream_lines_line: "newline \<notin> set l \<Longrightarrow> stream_lines cur (l @ newline # t) = (cur @ l) # stream_lines [] t"
  by (induction l arbitrary: cur) auto

lemma browser_frame:
  "newline \<notin> set p \<Longrightarrow> browser (''data: '' @ p @ newlines @ t) = p # browser t"
  "browser ('': ping'' @ newlines @ t) = browser t"
proof -
  assume "newline \<notin> set p"
  then have "newline \<notin> set (''data: '' @ p)" by (simp add: newline_def)
  from stream_lines_line [OF this, of "[]" "newline # t"]
  show "browser (''data: '' @ p @ newlines @ t) = p # browser t" by (simp add: browser_def newlines_def newline_def)
next
  have "newline \<notin> set '': ping''" by (simp add: newline_def)
  from stream_lines_line [OF this, of "[]" "newline # t"]
  show "browser ('': ping'' @ newlines @ t) = browser t" by (simp add: browser_def newlines_def newline_def)
qed

lemma browser_Nil [simp]: "browser [] = []"
  by (simp add: browser_def)

lemma browser_ServeSSE:
  assumes "\<forall>p. Some p \<in> set (payloads (live ins)) \<longrightarrow> newline \<notin> set p"
  shows "browser (ServeSSE ins) = map the (filter (\<lambda>p. p \<noteq> None) (payloads (live ins)))"
  using assms by (induction ins rule: ServeSSE.induct) (auto simp: live_def browser_frame [simplified])

text \<open>
  C32: from publication to the browser. For every interleaving of subscriptions, publications,
  receives and departures: the events that a subscriber has received, followed by those that wait
  in its buffer (at most 64), are exactly the events published while it was subscribed that
  found room in its buffer, in the order of publication. So it receives each event at most once
  and misses those that found the buffer full and, when it departs, those that it had not taken
  out of the buffer, and no others. A browser that reads the text which \<open>ServeSSE\<close> wrote for the
  received events gets the encodings of those that could be encoded, in this order, whatever
  heartbeats are in between, as encodings contain no newline.
\<close>

theorem Browser_reads_published:
  assumes "flow_step\<^sup>*\<^sup>* no_flow w" "payloads (live ins) = map json (fl_got w ch)"
    and "\<forall>event p. json event = Some p \<longrightarrow> newline \<notin> set p"
  shows "fl_got w ch @ waiting w ch = map fst (filter snd (fl_log w ch)) \<and> length (waiting w ch) \<le> 64 \<and>
    subseq (fl_got w ch) (map fst (fl_log w ch)) \<and>
    browser (ServeSSE ins) = map the (filter (\<lambda>p. p \<noteq> None) (map json (fl_got w ch)))"
proof (intro conjI)
  have ok: "flow_ok w" by (rule flow_reachable [OF assms(1)])
  then show got: "fl_got w ch @ waiting w ch = map fst (filter snd (fl_log w ch))" by (simp add: flow_ok_def found_room_def)
  show "length (waiting w ch) \<le> 64" using ok by (auto simp: flow_ok_def waiting_def hub_ok_def buffer_size_def)
  have "subseq (map fst (filter snd (fl_log w ch))) (map fst (fl_log w ch))" by (intro subseq_map subseq_filter_left)
  moreover have "subseq (fl_got w ch) (map fst (filter snd (fl_log w ch)))" unfolding got [symmetric] by (rule prefix_imp_subseq) simp
  ultimately show "subseq (fl_got w ch) (map fst (fl_log w ch))" by (rule subseq_order.trans [rotated])
  have "newline \<notin> set p" if "Some p \<in> set (payloads (live ins))" for p
    using that assms(3) unfolding assms(2) by fastforce
  then show "browser (ServeSSE ins) = map the (filter (\<lambda>p. p \<noteq> None) (map json (fl_got w ch)))"
    using browser_ServeSSE [of ins] by (simp add: assms(2))
qed

text \<open>One subscriber, one event, a heartbeat before it and the departure after it.\<close>

lemma sample_flow: "\<exists>w. flow_step\<^sup>*\<^sup>* no_flow w \<and> fl_got w 0 = [''job.started'']"
proof -
  let ?h = "snd (Subscribe NewHub)" and ?w1 = "no_flow\<lparr>fl_hub := snd (Subscribe NewHub)\<rparr>"
  let ?h2 = "?h\<lparr>channels := [\<lparr>buffer = [''job.started''], is_closed = False\<rparr>]\<rparr>"
  have 1: "flow_step no_flow ?w1"
    by (rule flow_step.subscribe) (simp add: open_stream_def no_flow_def Subscribe_def NewHub_def Let_def)
  have order: "mset [0] = mset (clients (fl_hub ?w1))" by (simp add: Subscribe_def NewHub_def Let_def)
  have pub: "Publish [0] ''job.started'' (fl_hub ?w1) = Some ?h2"
    by (simp add: Publish_def Subscribe_def NewHub_def try_send_def Let_def buffer_size_def)
  from flow_step.publish [OF order pub] obtain w2 where 2: "flow_step ?w1 w2" "fl_hub w2 = ?h2" "fl_got w2 = (\<lambda>_. [])"
    by (auto simp: no_flow_def)
  have "receive 0 (fl_hub w2) = Some (Some ''job.started'', ?h\<lparr>channels := [\<lparr>buffer = [], is_closed = False\<rparr>]\<rparr>)"
    by (simp add: 2(2) receive_def)
  from flow_step.receive [OF this] obtain w3 where 3: "flow_step w2 w3" "fl_got w3 0 = [''job.started'']" by (auto simp: 2(3))
  have "flow_step\<^sup>*\<^sup>* no_flow w3"
    using 1 2(1) 3(1) by (blast intro: converse_rtranclp_into_rtranclp [where r = flow_step])
  with 3(2) show ?thesis by blast
qed

lemma Browser_reads_published_witness:
  "browser (ServeSSE [HeartbeatTick, Received (Some ''x''), ClientGone]) = [''x'']"
proof -
  obtain w where w: "flow_step\<^sup>*\<^sup>* no_flow w" "fl_got w 0 = [''job.started'']" using sample_flow by blast
  with Browser_reads_published [OF w(1), of "[HeartbeatTick, Received (Some ''x''), ClientGone]" "\<lambda>_. Some ''x''" 0]
  show ?thesis by (simp add: live_def newline_def)
qed

end
