(* ===== verification/Cli.thy ===== *)
theory Cli
  imports Api
begin

text \<open>
  \<open>src/cmd/forge-cli/main.go\<close>: the command line client. A command is translated to one HTTP
  request, or to the usage text; \<open>parse_flags\<close> is \<open>Parse\<close> of package \<open>flag\<close> for a set of string flags
  with \<open>ExitOnError\<close>. The HTTP client and \<open>json.Marshal\<close> are parameters.
\<close>

datatype json_body =
    NoJson
  | SubmitJson (sj_payload: string) (sj_queue: string) (sj_handler: string)
  | ScheduleJson (cj_name: string) (cj_cron: string) (cj_queue: string) (cj_handler: string) (cj_payload: string)

record http_request =
  http_method :: string
  url :: string
  json :: json_body

datatype cli = Do http_request | Usage | FlagHelp | FlagError

section \<open>Flags\<close>

datatype parse_result = Parsed "(string \<times> string) list" | HelpRequested | ParseError

text \<open>The name of a flag is what follows one or two minus signs, up to an equals sign.\<close>

definition flag_name :: "string \<Rightarrow> string option" where
  "flag_name s =
     (if length s < 2 \<or> s ! 0 \<noteq> CHR ''-'' then None
      else if s ! 1 = CHR ''-'' then Some (drop 2 s) else Some (drop 1 s))"

text \<open>The search for the equals sign starts after the first character.\<close>

definition split_equals :: "string \<Rightarrow> string \<times> string option" where
  "split_equals n = (let k = takeWhile (\<lambda>c. c \<noteq> CHR ''='') (tl n) in
     if length k = length (tl n) then (n, None) else (hd n # k, Some (drop (length k + 2) n)))"

text \<open>
  A round of the loop of \<open>Parse\<close>: an argument that is no flag, or \<open>--\<close>, ends it; the value of a
  flag stands behind the equals sign or is the next argument, whatever that looks like.
\<close>

fun parse_flags :: "string list \<Rightarrow> (string \<times> string) list \<Rightarrow> string list \<Rightarrow> parse_result" where
  "parse_flags names acc [] = Parsed acc"
| "parse_flags names acc (s # args) =
     (case flag_name s of
        None \<Rightarrow> Parsed acc
      | Some n \<Rightarrow>
          if s = ''--'' then Parsed acc
          else if n = '''' \<or> n ! 0 = CHR ''-'' \<or> n ! 0 = CHR ''='' then ParseError
          else (case split_equals n of (name, value) \<Rightarrow>
            if name \<notin> set names then (if name = ''help'' \<or> name = ''h'' then HelpRequested else ParseError)
            else (case value of
                Some v \<Rightarrow> parse_flags names (acc @ [(name, v)]) args
              | None \<Rightarrow> (case args of
                    [] \<Rightarrow> ParseError
                  | v # args' \<Rightarrow> parse_flags names (acc @ [(name, v)]) args'))))"

text \<open>The variable of a flag after parsing: its last value, or the default.\<close>

definition flag :: "(string \<times> string) list \<Rightarrow> string \<Rightarrow> string \<Rightarrow> string" where
  "flag kvs name fallback = (case map_of (rev kvs) name of None \<Rightarrow> fallback | Some v \<Rightarrow> v)"

definition with_flags :: "string list \<Rightarrow> string list \<Rightarrow> ((string \<times> string) list \<Rightarrow> cli) \<Rightarrow> cli" where
  "with_flags names args k =
     (case parse_flags names [] args of Parsed kvs \<Rightarrow> k kvs | HelpRequested \<Rightarrow> FlagHelp | ParseError \<Rightarrow> FlagError)"

section \<open>Commands\<close>

definition request :: "string \<Rightarrow> string \<Rightarrow> json_body \<Rightarrow> cli" where
  "request m u b = Do \<lparr>http_method = m, url = u, json = b\<rparr>"

definition submit_flags :: "string list" where
  "submit_flags = [''queue'', ''handler'', ''payload'']"

definition create_flags :: "string list" where
  "create_flags = [''name'', ''cron'', ''queue'', ''handler'', ''payload'']"

definition submit :: "string \<Rightarrow> string list \<Rightarrow> cli" where
  "submit apiURL args = with_flags submit_flags args (\<lambda>fs.
     request ''POST'' (apiURL @ ''/v1/jobs'')
       (SubmitJson (flag fs ''payload'' ''{}'') (flag fs ''queue'' ''default'') (flag fs ''handler'' ''echo'')))"

definition ls :: "string \<Rightarrow> string list \<Rightarrow> cli" where
  "ls apiURL args = request ''GET'' (apiURL @ ''/v1/jobs?limit=50'') NoJson"

definition dlq :: "string \<Rightarrow> string list \<Rightarrow> cli" where
  "dlq apiURL args =
     (if length args \<ge> 2 \<and> args ! 0 = ''requeue''
      then request ''POST'' (apiURL @ ''/v1/dlq/'' @ args ! 1 @ ''/requeue'') NoJson
      else request ''GET'' (apiURL @ ''/v1/dlq'') NoJson)"

definition schedules_cmd :: "string \<Rightarrow> string list \<Rightarrow> cli" where
  "schedules_cmd apiURL args = request ''GET'' (apiURL @ ''/v1/schedules'') NoJson"

definition schedule :: "string \<Rightarrow> string list \<Rightarrow> cli" where
  "schedule apiURL args =
     (if length args = 0 then Usage
      else if args ! 0 = ''create'' then with_flags create_flags (drop 1 args) (\<lambda>fs.
        request ''POST'' (apiURL @ ''/v1/schedules'')
          (ScheduleJson (flag fs ''name'' '''') (flag fs ''cron'' '''') (flag fs ''queue'' ''default'')
             (flag fs ''handler'' ''echo'') (flag fs ''payload'' ''{}'')))
      else if args ! 0 \<in> set [''pause'', ''resume'', ''delete''] then
        (if length args \<noteq> 2 then Usage
         else (let (m, suffix) = (if args ! 0 = ''delete'' then (''DELETE'', '''') else (''POST'', ''/'' @ args ! 0))
               in request m (apiURL @ ''/v1/schedules/'' @ args ! 1 @ suffix) NoJson))
      else Usage)"

definition main :: "string \<Rightarrow> string list \<Rightarrow> cli" where
  "main apiURL argv =
     (if length argv < 2 then Usage
      else (let cmd = argv ! 1; rest = drop 2 argv in
        if cmd = ''submit'' then submit apiURL rest
        else if cmd = ''ls'' then ls apiURL rest
        else if cmd = ''dlq'' then dlq apiURL rest
        else if cmd = ''schedules'' then schedules_cmd apiURL rest
        else if cmd = ''schedule'' then schedule apiURL rest
        else Usage))"

definition getenv :: "(string \<Rightarrow> string) \<Rightarrow> string \<Rightarrow> string \<Rightarrow> string" where
  "getenv Getenv key fallback = (if Getenv key \<noteq> '''' then Getenv key else fallback)"

text \<open>
  \<open>do\<close>: the body is what \<open>json.Marshal\<close> gives, nothing when it fails, and no body at all without
  one; a request that cannot be built or sent is a panic, which ends a Go process with status 2. Of
  the answer at most 4 MB are printed.
\<close>

record http_client =
  json_Marshal :: "json_body \<Rightarrow> error + string"
  NewRequest :: "string \<Rightarrow> string \<Rightarrow> error option"
  client_Do :: "string \<Rightarrow> string \<Rightarrow> string option \<Rightarrow> error + int \<times> string"

record cli_outcome =
  cli_exit :: int
  cli_out :: "string option"

definition body_of :: "http_client \<Rightarrow> json_body \<Rightarrow> string option" where
  "body_of H b = (if b = NoJson then None else Some (case json_Marshal H b of Inl _ \<Rightarrow> '''' | Inr t \<Rightarrow> t))"

definition do_request :: "http_client \<Rightarrow> http_request \<Rightarrow> cli_outcome" where
  "do_request H r =
     (let reader = body_of H (json r) in
      case NewRequest H (http_method r) (url r) of
        Some err \<Rightarrow> \<lparr>cli_exit = 2, cli_out = None\<rparr>
      | None \<Rightarrow> (case client_Do H (http_method r) (url r) reader of
            Inl err \<Rightarrow> \<lparr>cli_exit = 2, cli_out = None\<rparr>
          | Inr (status, answer) \<Rightarrow>
              \<lparr>cli_exit = (if status \<ge> 300 then 1 else 0), cli_out = Some (take (4 * 2 ^ 20) answer)\<rparr>))"

definition run_cli :: "http_client \<Rightarrow> (string \<Rightarrow> string) \<Rightarrow> string list \<Rightarrow> cli_outcome" where
  "run_cli H Getenv argv =
     (case main (getenv Getenv ''FORGE_API_URL'' ''http://localhost:8080'') argv of
        Do r \<Rightarrow> do_request H r
      | Usage \<Rightarrow> \<lparr>cli_exit = 2, cli_out = None\<rparr>
      | FlagHelp \<Rightarrow> \<lparr>cli_exit = 0, cli_out = None\<rparr>
      | FlagError \<Rightarrow> \<lparr>cli_exit = 2, cli_out = None\<rparr>)"

section \<open>Flags survive the command line\<close>

definition flag_args :: "(string \<times> string) list \<Rightarrow> string list" where
  "flag_args kvs = concat (map (\<lambda>(k, v). [CHR ''-'' # k, v]) kvs)"

definition valid_name :: "string \<Rightarrow> bool" where
  "valid_name n \<longleftrightarrow> n \<noteq> '''' \<and> CHR ''-'' \<notin> set n \<and> CHR ''='' \<notin> set n"

lemma split_equals_none: "CHR ''='' \<notin> set n \<Longrightarrow> split_equals n = (n, None)"
proof -
  assume "CHR ''='' \<notin> set n"
  then have "takeWhile (\<lambda>c. c \<noteq> CHR ''='') (tl n) = tl n" by (cases n) (auto simp: takeWhile_eq_all_conv)
  then show ?thesis unfolding split_equals_def Let_def by (metis (mono_tags))
qed

lemma valid_flag_name: "valid_name n \<Longrightarrow> flag_name (CHR ''-'' # n) = Some n \<and> CHR ''-'' # n \<noteq> ''--'' \<and>
   n ! 0 \<noteq> CHR ''-'' \<and> n ! 0 \<noteq> CHR ''=''"
  by (cases n) (auto simp: valid_name_def flag_name_def)

lemma parse_flag_args:
  assumes "\<forall>(k, v) \<in> set kvs. k \<in> set names" "\<forall>k \<in> set names. valid_name k"
  shows "parse_flags names acc (flag_args kvs @ rest) = parse_flags names (acc @ kvs) rest"
  using assms(1)
proof (induction kvs arbitrary: acc)
  case (Cons kv kvs)
  obtain k v where kv: "kv = (k, v)" by force
  then have "k \<in> set names" "valid_name k" using Cons.prems assms(2) by auto
  then have "parse_flags names acc ((CHR ''-'' # k) # v # (flag_args kvs @ rest)) = parse_flags names (acc @ [(k, v)]) (flag_args kvs @ rest)"
    using valid_flag_name [of k] split_equals_none [of k] by (simp add: valid_name_def)
  with Cons.IH [of "acc @ [(k, v)]"] Cons.prems show ?case by (simp add: flag_args_def kv)
qed (simp add: flag_args_def)

section \<open>Every command reaches its handler\<close>

text \<open>
  The path of a request as the server's router sees it: \<open>net/http\<close> sends what stands between the
  host and the query, a fragment is cut off before, and the router splits it at the slashes. What
  percent signs would be decoded to is not modelled: no path is given for such a URL.
\<close>

fun segments :: "string \<Rightarrow> string list" where
  "segments [] = [[]]"
| "segments (c # cs) =
     (if c = CHR ''/'' then [] # segments cs else (case segments cs of [] \<Rightarrow> [[c]] | p # ps \<Rightarrow> (c # p) # ps))"

definition request_path :: "string \<Rightarrow> string list option" where
  "request_path u =
     (let u = takeWhile (\<lambda>c. c \<noteq> CHR ''#'') u;
          u = takeWhile (\<lambda>c. c \<noteq> CHR ''?'') u;
          host_path = drop 2 (dropWhile (\<lambda>c. c \<noteq> CHR ''/'') u);
          path = dropWhile (\<lambda>c. c \<noteq> CHR ''/'') host_path
      in if CHR ''%'' \<in> set path then None else Some (segments (drop 1 path)))"

text \<open>A base URL: a scheme and a host, with or without a port, and nothing behind it.\<close>

definition base_url :: "string \<Rightarrow> bool" where
  "base_url u \<longleftrightarrow> (\<exists>host. (u = ''http://'' @ host \<or> u = ''https://'' @ host) \<and> host \<noteq> '''' \<and>
     set host \<inter> {CHR ''/'', CHR ''?'', CHR ''#'', CHR ''%''} = {})"

text \<open>An id such as the server gives out: letters, digits and minus signs.\<close>

definition id_chars :: string where
  "id_chars = ''abcdefghijklmnopqrstuvwxyzABCDEFGHIJKLMNOPQRSTUVWXYZ0123456789-''"

definition plain_id :: "string \<Rightarrow> bool" where
  "plain_id s \<longleftrightarrow> s \<noteq> '''' \<and> list_all (\<lambda>c. c \<in> set id_chars) s"

lemma plain_idD:
  assumes "plain_id s"
  shows "s \<noteq> ''''" "CHR ''/'' \<notin> set s" "CHR ''?'' \<notin> set s" "CHR ''#'' \<notin> set s" "CHR ''%'' \<notin> set s"
proof -
  have "CHR ''/'' \<notin> set id_chars" "CHR ''?'' \<notin> set id_chars" "CHR ''#'' \<notin> set id_chars" "CHR ''%'' \<notin> set id_chars"
    by (simp_all add: id_chars_def)
  with assms show "s \<noteq> ''''" "CHR ''/'' \<notin> set s" "CHR ''?'' \<notin> set s" "CHR ''#'' \<notin> set s" "CHR ''%'' \<notin> set s"
    by (auto simp: plain_id_def list_all_iff)
qed

lemma segments_not_Nil [simp]: "segments s \<noteq> []"
  by (induction s) (auto split: list.splits)

lemma segments_one: "CHR ''/'' \<notin> set s \<Longrightarrow> segments s = [s]"
  by (induction s) auto

lemma segments_append: "CHR ''/'' \<notin> set s \<Longrightarrow> segments (s @ CHR ''/'' # t) = s # segments t"
  by (induction s) auto

lemma takeWhile_before: "c \<notin> set s \<Longrightarrow> takeWhile (\<lambda>x. x \<noteq> c) (s @ t) = s @ takeWhile (\<lambda>x. x \<noteq> c) t"
  "c \<notin> set s \<Longrightarrow> takeWhile (\<lambda>x. x \<noteq> c) s = s"
  by (induction s) auto

lemma request_path_base:
  assumes "base_url u" "CHR ''#'' \<notin> set p" "CHR ''%'' \<notin> set p"
  shows "request_path (u @ CHR ''/'' # p) = Some (segments (takeWhile (\<lambda>c. c \<noteq> CHR ''?'') p))"
proof -
  obtain host where u: "u = ''http://'' @ host \<or> u = ''https://'' @ host"
    and host: "set host \<inter> {CHR ''/'', CHR ''?'', CHR ''#'', CHR ''%''} = {}"
    using assms(1) by (auto simp: base_url_def)
  let ?q = "takeWhile (\<lambda>c. c \<noteq> CHR ''?'') p"
  have frag: "takeWhile (\<lambda>c. c \<noteq> CHR ''#'') (host @ CHR ''/'' # p) = host @ CHR ''/'' # p"
    using host assms(2) by (simp add: takeWhile_before)
  have query: "takeWhile (\<lambda>c. c \<noteq> CHR ''?'') (host @ CHR ''/'' # p) = host @ CHR ''/'' # ?q"
    using host by (simp add: takeWhile_before)
  have path: "dropWhile (\<lambda>c. c \<noteq> CHR ''/'') (host @ CHR ''/'' # ?q) = CHR ''/'' # ?q"
    using host by (induction host) auto
  have "CHR ''%'' \<notin> set ?q" using assms(3) by (metis set_takeWhileD)
  then have "request_path (scheme @ ''://'' @ host @ CHR ''/'' # p) = Some (segments ?q)" if "scheme = ''http'' \<or> scheme = ''https''" for scheme
    using that by (elim disjE) (simp_all add: request_path_def Let_def frag query path del: takeWhile_eq_all_conv)
  from this [of "''http''"] this [of "''https''"] u show ?thesis by auto
qed

definition flags_ok :: "string list \<Rightarrow> string list \<Rightarrow> bool" where
  "flags_ok names args \<longleftrightarrow> (\<exists>kvs. parse_flags names [] args = Parsed kvs)"

text \<open>The handler that each command asks for.\<close>

definition intended :: "string list \<Rightarrow> route option" where
  "intended argv = (case argv of
       _ # cmd # rest \<Rightarrow>
         if cmd = ''submit'' then (if flags_ok submit_flags rest then Some RSubmitJob else None)
         else if cmd = ''ls'' then Some RListJobs
         else if cmd = ''dlq'' then
           (case rest of sub # i # _ \<Rightarrow> if sub = ''requeue'' then Some (RRequeueDLQ i) else Some RListDLQ | _ \<Rightarrow> Some RListDLQ)
         else if cmd = ''schedules'' then Some RListSchedules
         else if cmd = ''schedule'' then
           (case rest of
              [] \<Rightarrow> None
            | sub # tail \<Rightarrow>
                if sub = ''create'' then (if flags_ok create_flags tail then Some RCreateSchedule else None)
                else (case tail of
                    [i] \<Rightarrow> if sub = ''pause'' then Some (RPauseSchedule i)
                           else if sub = ''resume'' then Some (RResumeSchedule i)
                           else if sub = ''delete'' then Some (RDeleteSchedule i) else None
                  | _ \<Rightarrow> None))
         else None
     | _ \<Rightarrow> None)"

text \<open>The request goes to the path \<open>q\<close> behind the base URL, which the router gives to the intended handler.\<close>

definition sent :: "string \<Rightarrow> string list \<Rightarrow> http_request \<Rightarrow> bool" where
  "sent apiURL argv r \<longleftrightarrow> (\<exists>q. url r = apiURL @ CHR ''/'' # q \<and> CHR ''#'' \<notin> set q \<and> CHR ''%'' \<notin> set q \<and>
     intended argv \<noteq> None \<and> Router (http_method r) (segments (takeWhile (\<lambda>c. c \<noteq> CHR ''?'') q)) = intended argv)"

lemma flag_commands:
  "case main apiURL (x # ''submit'' # rest) of Do r \<Rightarrow> sent apiURL (x # ''submit'' # rest) r | _ \<Rightarrow> intended (x # ''submit'' # rest) = None"
  "case main apiURL (x # ''schedule'' # ''create'' # rest) of
     Do r \<Rightarrow> sent apiURL (x # ''schedule'' # ''create'' # rest) r | _ \<Rightarrow> intended (x # ''schedule'' # ''create'' # rest) = None"
proof -
  note unf = main_def sent_def intended_def request_def Router_def Let_def
  show "case main apiURL (x # ''submit'' # rest) of Do r \<Rightarrow> sent apiURL (x # ''submit'' # rest) r | _ \<Rightarrow> intended (x # ''submit'' # rest) = None"
    by (auto simp: unf submit_def with_flags_def flags_ok_def split: parse_result.split)
  show "case main apiURL (x # ''schedule'' # ''create'' # rest) of
     Do r \<Rightarrow> sent apiURL (x # ''schedule'' # ''create'' # rest) r | _ \<Rightarrow> intended (x # ''schedule'' # ''create'' # rest) = None"
    by (auto simp: unf schedule_def with_flags_def flags_ok_def split: parse_result.split)
qed

text \<open>The ids of a command line stand where a route has an id.\<close>

definition ids_plain :: "string list \<Rightarrow> bool" where
  "ids_plain argv \<longleftrightarrow> (\<forall>i. intended argv \<in> {Some (RRequeueDLQ i), Some (RPauseSchedule i), Some (RResumeSchedule i), Some (RDeleteSchedule i)} \<longrightarrow>
     plain_id i)"

lemma main_sent:
  assumes "ids_plain argv"
  shows "case main apiURL argv of Do r \<Rightarrow> sent apiURL argv r | _ \<Rightarrow> intended argv = None"
proof (cases "\<exists>x cmd rest. argv = x # cmd # rest")
  case False
  then have "length argv < 2" by (cases argv; cases "tl argv") auto
  moreover have "intended argv = None" using False by (auto simp: intended_def split: list.splits)
  ultimately show ?thesis by (simp add: main_def)
next
  case True
  then obtain x cmd rest where argv: "argv = x # cmd # rest" by blast
  note unf = main_def sent_def intended_def request_def Router_def Let_def
  note ids = plain_idD segments_append segments_one takeWhile_before
  consider "cmd = ''submit''" | "cmd = ''ls''" | "cmd = ''schedules''" | "cmd = ''dlq''"
    | "cmd = ''schedule''" "\<exists>tail. rest = ''create'' # tail" | "cmd = ''schedule''" "\<nexists>tail. rest = ''create'' # tail"
    | "cmd \<notin> set [''submit'', ''ls'', ''schedules'', ''dlq'', ''schedule'']" by fastforce
  then show ?thesis
  proof cases
    case 4
    then show ?thesis using assms unfolding argv ids_plain_def
      by (cases rest; cases "tl rest") (auto simp: unf dlq_def ids)
  next
    case 6
    then show ?thesis using assms unfolding argv ids_plain_def
      by (cases rest; cases "tl rest"; cases "tl (tl rest)") (auto simp: unf schedule_def ids)
  qed (use flag_commands argv in \<open>auto simp: unf ls_def schedules_cmd_def\<close>)
qed

lemma sent_path:
  assumes "sent apiURL argv r" "base_url apiURL"
  shows "\<exists>p. request_path (url r) = Some p \<and> intended argv \<noteq> None \<and> Router (http_method r) p = intended argv"
  using assms request_path_base [OF assms(2)] by (auto simp: sent_def)

text \<open>The slash at the end of a base URL makes the first segment of the path empty, which no route has.\<close>

lemma slash_path:
  assumes "sent (apiURL @ ''/'') argv r" "base_url apiURL"
  shows "\<exists>p. request_path (url r) = Some p \<and> Router (http_method r) p = None"
proof -
  obtain q where q: "url r = (apiURL @ ''/'') @ CHR ''/'' # q" "CHR ''#'' \<notin> set q" "CHR ''%'' \<notin> set q"
    using assms(1) by (auto simp: sent_def)
  have "request_path (url r) = Some ('''' # segments (takeWhile (\<lambda>c. c \<noteq> CHR ''?'') q))"
    using request_path_base [OF assms(2), of "CHR ''/'' # q"] q by simp
  moreover have "Router m ('''' # ps) = None" for m ps by (auto simp: Router_def split: list.splits)
  ultimately show ?thesis by simp
qed

text \<open>
  C33: the client and the server agree, for a base URL of scheme and host and for ids of letters,
  digits and minus signs, such as the UUIDs that the server gives out. Every command line either
  asks for nothing that exists and sends nothing (usage or an error of the flags with exit status 2,
  help with 0), or is sent as a request whose path the router gives to the handler that the command
  means, with the id in its place; the exit status is then 0 for an answer below 300, 1 for any other,
  and 2 when there is none. Flags given as pairs arrive as they were given, whatever characters
  their values have. But a base URL that ends with a slash is not understood: then no command
  reaches any handler.
\<close>

theorem Cli_reaches_handler:
  assumes "ids_plain argv" "base_url apiURL"
    and "apiURL = getenv Getenv ''FORGE_API_URL'' ''http://localhost:8080''"
    and "\<forall>(k, v) \<in> set kvs. k \<in> set submit_flags"
  shows "(case main apiURL argv of
      Do r \<Rightarrow> (\<exists>p. request_path (url r) = Some p \<and> intended argv \<noteq> None \<and> Router (http_method r) p = intended argv) \<and>
        cli_exit (run_cli H Getenv argv) =
          (case NewRequest H (http_method r) (url r) of Some _ \<Rightarrow> 2
           | None \<Rightarrow> (case client_Do H (http_method r) (url r) (body_of H (json r)) of
               Inl _ \<Rightarrow> 2 | Inr (status, _) \<Rightarrow> if status \<ge> 300 then 1 else 0))
    | FlagHelp \<Rightarrow> intended argv = None \<and> cli_exit (run_cli H Getenv argv) = 0
    | _ \<Rightarrow> intended argv = None \<and> cli_exit (run_cli H Getenv argv) = 2) \<and>
    (case main (apiURL @ ''/'') argv of
      Do r \<Rightarrow> (\<exists>p. request_path (url r) = Some p \<and> Router (http_method r) p = None)
    | _ \<Rightarrow> intended argv = None) \<and>
    main apiURL (x # ''submit'' # flag_args kvs) = Do \<lparr>http_method = ''POST'', url = apiURL @ ''/v1/jobs'',
      json = SubmitJson (flag kvs ''payload'' ''{}'') (flag kvs ''queue'' ''default'') (flag kvs ''handler'' ''echo'')\<rparr>"
proof (intro conjI)
  show "case main apiURL argv of
      Do r \<Rightarrow> (\<exists>p. request_path (url r) = Some p \<and> intended argv \<noteq> None \<and> Router (http_method r) p = intended argv) \<and>
        cli_exit (run_cli H Getenv argv) =
          (case NewRequest H (http_method r) (url r) of Some _ \<Rightarrow> 2
           | None \<Rightarrow> (case client_Do H (http_method r) (url r) (body_of H (json r)) of
               Inl _ \<Rightarrow> 2 | Inr (status, _) \<Rightarrow> if status \<ge> 300 then 1 else 0))
    | FlagHelp \<Rightarrow> intended argv = None \<and> cli_exit (run_cli H Getenv argv) = 0
    | _ \<Rightarrow> intended argv = None \<and> cli_exit (run_cli H Getenv argv) = 2"
    using main_sent [OF assms(1), of apiURL] sent_path [OF _ assms(2), of argv]
    unfolding run_cli_def assms(3) [symmetric]
    by (cases "main apiURL argv") (simp_all add: do_request_def Let_def split: option.split sum.split prod.split)
  show "case main (apiURL @ ''/'') argv of
      Do r \<Rightarrow> (\<exists>p. request_path (url r) = Some p \<and> Router (http_method r) p = None) | _ \<Rightarrow> intended argv = None"
    using main_sent [OF assms(1), of "apiURL @ ''/''"] slash_path [OF _ assms(2), of argv]
    by (cases "main (apiURL @ ''/'') argv") simp_all
  have "\<forall>k \<in> set submit_flags. valid_name k" by (simp add: submit_flags_def valid_name_def)
  then show "main apiURL (x # ''submit'' # flag_args kvs) = Do \<lparr>http_method = ''POST'', url = apiURL @ ''/v1/jobs'',
      json = SubmitJson (flag kvs ''payload'' ''{}'') (flag kvs ''queue'' ''default'') (flag kvs ''handler'' ''echo'')\<rparr>"
    using parse_flag_args [OF assms(4), of "[]" "[]"] by (simp add: main_def submit_def with_flags_def request_def)
qed

definition sample_client :: http_client where
  "sample_client = \<lparr>json_Marshal = (\<lambda>_. Inr ''{}''), NewRequest = (\<lambda>_ _. None), client_Do = (\<lambda>_ _ _. Inr (404, ''no''))\<rparr>"

lemma Cli_reaches_handler_witness:
  "cli_exit (run_cli sample_client (\<lambda>_. '''') [''forge'', ''schedule'', ''pause'', ''a1-c'']) = 1 \<and>
   main ''http://localhost:8080'' [''forge'', ''submit'', ''-payload'', ''-x'', ''-queue'', ''q''] =
     Do \<lparr>http_method = ''POST'', url = ''http://localhost:8080/v1/jobs'', json = SubmitJson ''-x'' ''q'' ''echo''\<rparr>"
proof -
  have "ids_plain [''forge'', ''schedule'', ''pause'', ''a1-c'']" by (simp add: ids_plain_def intended_def plain_id_def id_chars_def)
  moreover have "base_url ''http://localhost:8080''"
    unfolding base_url_def by (rule exI [of _ "''localhost:8080''"]) simp
  ultimately show ?thesis
    using Cli_reaches_handler [of "[''forge'', ''schedule'', ''pause'', ''a1-c'']" "''http://localhost:8080''" "\<lambda>_. ''''"
        "[(''payload'', ''-x''), (''queue'', ''q'')]" sample_client "''forge''"]
    by (simp add: getenv_def submit_flags_def sample_client_def main_def schedule_def request_def flag_args_def flag_def)
qed

end
