(* ===== verification/Grpc.thy ===== *)
theory Grpc
  imports Api
begin

text \<open>
  \<open>src/internal/grpcsvc/server.go\<close>: the gRPC service over the same queue. A request is the
  map that \<open>structpb\<close> decodes to, with its numbers as floats; converting a float that does
  not fit to an \<open>int\<close> is up to the architecture (\<open>oob\<close>). Encoding to JSON and the
  conversion back to a \<open>structpb\<close> message are parameters; a message is a map again.
\<close>

datatype jvalue =
    JNull
  | JBool bool
  | JNum float64
  | JInt int
  | JStr string
  | JTime time
  | JArr "jvalue list"
  | JObj "(string \<times> jvalue) list"

type_synonym fields = "string \<rightharpoonup> jvalue"

datatype grpc_code = InvalidArgument | NotFoundCode | FailedPrecondition | Internal

type_synonym 'm grpc_result = "(grpc_code \<times> string) + 'm"

datatype grpc_value = JobValue job | SnapshotValue Snapshot | DeadJobsValue "DeadJob list"

record 'm codec =
  marshal_value :: "jvalue \<Rightarrow> error + string"
  marshal_reply :: "grpc_value \<Rightarrow> error + string"
  unmarshal_map :: "string \<Rightarrow> error + (string \<times> jvalue) list"
  NewStruct :: "(string \<times> jvalue) list \<Rightarrow> error + 'm"
  RFC3339Nano :: "time \<Rightarrow> string"
  convert_oob :: "float64 \<Rightarrow> int"

section \<open>Fields\<close>

definition stringField :: "fields \<Rightarrow> string \<Rightarrow> string" where
  "stringField fs key = (case fs key of Some (JStr s) \<Rightarrow> s | _ \<Rightarrow> '''')"

definition numberField :: "(float64 \<Rightarrow> int) \<Rightarrow> fields \<Rightarrow> string \<Rightarrow> int" where
  "numberField oob fs key =
     (case fs key of
        None \<Rightarrow> 0
      | Some (JNum x) \<Rightarrow> int64_of_float oob x
      | Some (JInt n) \<Rightarrow> n
      | Some _ \<Rightarrow> 0)"

text \<open>The text of the error of \<open>uuid.Parse\<close> is not modelled.\<close>

definition idField :: "ext \<Rightarrow> fields \<Rightarrow> string + uuid" where
  "idField X fs =
     (let raw = stringField fs ''id''; raw = (if raw = '''' then stringField fs ''job_id'' else raw) in
      if raw = '''' then Inl ''missing id''
      else (case uuid_Parse X raw of None \<Rightarrow> Inl ''invalid UUID'' | Some i \<Rightarrow> Inr i))"

section \<open>Replies\<close>

fun normalizeTimes :: "(time \<Rightarrow> string) \<Rightarrow> jvalue \<Rightarrow> jvalue" where
  "normalizeTimes fmt (JObj kvs) = JObj (map (\<lambda>(k, v).
     (k, case v of JTime t \<Rightarrow> JStr (fmt t) | _ \<Rightarrow> normalizeTimes fmt v)) kvs)"
| "normalizeTimes fmt (JArr vs) = JArr (map (normalizeTimes fmt) vs)"
| "normalizeTimes fmt v = v"

definition toStruct :: "'m codec \<Rightarrow> grpc_value \<Rightarrow> 'm grpc_result" where
  "toStruct K v =
     (case marshal_reply K v of
        Inl e \<Rightarrow> Inl (Internal, Error_text e)
      | Inr encoded \<Rightarrow>
          (case unmarshal_map K encoded of
             Inl e \<Rightarrow> Inl (Internal, Error_text e)
           | Inr decoded \<Rightarrow>
               (case normalizeTimes (RFC3339Nano K) (JObj decoded) of
                  JObj kvs \<Rightarrow> (case NewStruct K kvs of Inl e \<Rightarrow> Inl (Internal, Error_text e) | Inr out \<Rightarrow> Inr out)
                | _ \<Rightarrow> Inl (Internal, ''''))))"

section \<open>Methods\<close>

definition submit_tenant :: "ext \<Rightarrow> fields \<Rightarrow> uuid option" where
  "submit_tenant X fs = (case fs ''tenant_id'' of
       Some (JStr raw) \<Rightarrow> if raw \<noteq> '''' then uuid_Parse X raw else Some DefaultTenantID
     | _ \<Rightarrow> Some DefaultTenantID)"

definition submit_payload :: "'m codec \<Rightarrow> fields \<Rightarrow> error + string" where
  "submit_payload K fs = (case fs ''payload'' of None \<Rightarrow> Inr ''{}'' | Some raw \<Rightarrow> marshal_value K raw)"

definition grpc_params :: "'m codec \<Rightarrow> fields \<Rightarrow> uuid \<Rightarrow> string \<Rightarrow> EnqueueParams" where
  "grpc_params K fs tenantID payload =
     \<lparr>p_TenantID = tenantID, p_Queue = stringField fs ''queue'', p_Handler = stringField fs ''handler'',
      p_Payload = payload, p_Priority = int16 (numberField (convert_oob K) fs ''priority''),
      p_MaxAttempts = numberField (convert_oob K) fs ''max_attempts'', p_RunAt = zero_time,
      p_IdempotencyKey = stringField fs ''idempotency_key''\<rparr>"

definition SubmitJob ::
  "ext \<Rightarrow> 'm codec \<Rightarrow> Server \<Rightarrow> call \<Rightarrow> fields \<Rightarrow> api_state \<Rightarrow> 'm grpc_result \<times> api_state" where
  "SubmitJob X K srv c fs a =
     (case submit_tenant X fs of
        None \<Rightarrow> (Inl (InvalidArgument, ''invalid tenant_id''), a)
      | Some tenantID \<Rightarrow>
          (case submit_payload K fs of
             Inl _ \<Rightarrow> (Inl (InvalidArgument, ''invalid payload''), a)
           | Inr payload \<Rightarrow>
               (case on_pg (queue_enqueue X (cl_env c) (grpc_params K fs tenantID payload)) a of
                  (Inl err, a) \<Rightarrow> (Inl (Internal, Error_text err), a)
                | (Inr (job, _, latency), a) \<Rightarrow>
                    (let (I, R) = RecordEnqueue (srv_stats srv) (cl_reached c) (cl_rnow c) (Queue job)
                           (uuid_String X tenantID) latency (a_inst a, a_redis a);
                         a = publish_event srv c (JobEnqueued job) (a\<lparr>a_inst := I, a_redis := R\<rparr>)
                     in (toStruct K (JobValue job), a)))))"

text \<open>\<open>id, err := idField(req); if err != nil { return nil, InvalidArgument }\<close>\<close>

definition with_field_id ::
  "ext \<Rightarrow> fields \<Rightarrow> (uuid \<Rightarrow> api_state \<Rightarrow> 'm grpc_result \<times> api_state) \<Rightarrow> api_state \<Rightarrow> 'm grpc_result \<times> api_state" where
  "with_field_id X fs k a = (case idField X fs of Inl m \<Rightarrow> (Inl (InvalidArgument, m), a) | Inr i \<Rightarrow> k i a)"

definition GrpcGetJob :: "ext \<Rightarrow> 'm codec \<Rightarrow> fields \<Rightarrow> api_state \<Rightarrow> 'm grpc_result \<times> api_state" where
  "GrpcGetJob X K fs = with_field_id X fs (\<lambda>i a.
     case on_pg (GetJob i) a of
       (Inl err, a) \<Rightarrow> (Inl (NotFoundCode, ''job not found''), a)
     | (Inr job, a) \<Rightarrow> (toStruct K (JobValue job), a))"

definition transition_error :: "string \<Rightarrow> error \<Rightarrow> grpc_code \<times> string" where
  "transition_error message err =
     (if err = ErrInvalidTransition then (FailedPrecondition, message) else (Internal, Error_text err))"

definition GrpcCancelJob :: "ext \<Rightarrow> 'm codec \<Rightarrow> call \<Rightarrow> fields \<Rightarrow> api_state \<Rightarrow> 'm grpc_result \<times> api_state" where
  "GrpcCancelJob X K c fs = with_field_id X fs (\<lambda>i a.
     case on_pg (Cancel (e_now (cl_env c)) i) a of
       (Inl err, a) \<Rightarrow> (Inl (transition_error ''job is not cancellable'' err), a)
     | (Inr job, a) \<Rightarrow> (toStruct K (JobValue job), a))"

text \<open>\<open>None\<close> is a panic while the snapshot is taken.\<close>

definition GetQueueStats ::
  "'m codec \<Rightarrow> Server \<Rightarrow> call \<Rightarrow> fields \<Rightarrow> api_state \<Rightarrow> 'm grpc_result option \<times> api_state" where
  "GetQueueStats K srv c fs a =
     (let queueName = stringField fs ''queue''; queueName = (if queueName = '''' then ''default'' else queueName) in
      case on_pg (Depth queueName) a of
        (Inl err, a) \<Rightarrow> (Some (Inl (Internal, Error_text err)), a)
      | (Inr depth, a) \<Rightarrow>
          (case snapshot_of srv c queueName depth a of
             (None, a) \<Rightarrow> (None, a)
           | (Some snap, a) \<Rightarrow> (Some (toStruct K (SnapshotValue snap)), a)))"

definition GrpcListDLQ :: "'m codec \<Rightarrow> fields \<Rightarrow> api_state \<Rightarrow> 'm grpc_result \<times> api_state" where
  "GrpcListDLQ K fs a =
     (case on_pg (ListDLQ (numberField (convert_oob K) fs ''limit'')) a of
        (Inl err, a) \<Rightarrow> (Inl (Internal, Error_text err), a)
      | (Inr js, a) \<Rightarrow> (toStruct K (DeadJobsValue js), a))"

definition GrpcRequeueDLQ :: "ext \<Rightarrow> 'm codec \<Rightarrow> call \<Rightarrow> fields \<Rightarrow> api_state \<Rightarrow> 'm grpc_result \<times> api_state" where
  "GrpcRequeueDLQ X K c fs = with_field_id X fs (\<lambda>i a.
     case on_pg (RequeueDLQ (e_now (cl_env c)) i) a of
       (Inl err, a) \<Rightarrow> (Inl (transition_error ''job is not requeueable'' err), a)
     | (Inr job, a) \<Rightarrow> (toStruct K (JobValue job), a))"

section \<open>Priorities wrap around\<close>




definition sample_codec :: "(string \<times> jvalue) list codec" where
  "sample_codec = \<lparr>marshal_value = (\<lambda>_. Inr ''{}''), marshal_reply = (\<lambda>_. Inr ''{}''),
     unmarshal_map = (\<lambda>_. Inr []), NewStruct = (\<lambda>kvs. Inr kvs), RFC3339Nano = (\<lambda>_. ''''), convert_oob = (\<lambda>_. 0)\<rparr>"


section \<open>Agreement with the REST interface\<close>

text \<open>The two requests describe the same submission.\<close>

definition same_request :: "'m codec \<Rightarrow> fields \<Rightarrow> submitJobRequest \<Rightarrow> bool" where
  "same_request K fs req \<longleftrightarrow>
     stringField fs ''tenant_id'' = req_TenantID req \<and> stringField fs ''queue'' = req_Queue req \<and>
     stringField fs ''handler'' = req_Handler req \<and> stringField fs ''idempotency_key'' = req_IdempotencyKey req \<and>
     numberField (convert_oob K) fs ''priority'' = req_Priority req \<and>
     numberField (convert_oob K) fs ''max_attempts'' = req_MaxAttempts req \<and>
     submit_payload K fs = Inr (if req_Payload req = '''' then ''{}'' else req_Payload req)"

lemma same_tenant: "stringField fs ''tenant_id'' = raw \<Longrightarrow> submit_tenant X fs = parse_tenant X raw"
  by (auto simp: stringField_def submit_tenant_def parse_tenant_def split: option.split jvalue.split)

lemma same_params:
  assumes "same_request K fs req" "submit_payload K fs = Inr payload"
  shows "grpc_params K fs t payload = submit_params t req"
  using assms by (simp add: same_request_def grpc_params_def submit_params_def)

text \<open>What the two interfaces answer to the same outcome.\<close>

definition same_reply :: "'m codec \<Rightarrow> response \<Rightarrow> 'm grpc_result \<Rightarrow> bool" where
  "same_reply K resp reply \<longleftrightarrow>
     (status_code resp = 400 \<and> (\<exists>m. reply = Inl (InvalidArgument, m))) \<or>
     (status_code resp = 404 \<and> (\<exists>m. reply = Inl (NotFoundCode, m))) \<or>
     (status_code resp = 409 \<and> (\<exists>m. reply = Inl (FailedPrecondition, m))) \<or>
     (status_code resp = 500 \<and> (\<exists>m. reply = Inl (Internal, m))) \<or>
     (\<exists>st job. st \<in> {200, 201} \<and> resp = writeJSON st (JobBody job) \<and> reply = toStruct K (JobValue job))"

lemma same_reply_simps [simp]:
  "same_reply K (writeError 400 e) (Inl (InvalidArgument, m))" "same_reply K (writeError 404 e) (Inl (NotFoundCode, m))"
  "same_reply K (writeError 500 e) (Inl (Internal, m))"
  "same_reply K (writeError (conflict_or_500 err) e) (Inl (transition_error m' err))"
  "same_reply K (writeJSON 200 (JobBody job)) (toStruct K (JobValue job))"
  "same_reply K (writeJSON 201 (JobBody job)) (toStruct K (JobValue job))"
  by (auto simp: same_reply_def writeError_def writeJSON_def conflict_or_500_def transition_error_def)

lemma grpc_submit_agrees:
  assumes "same_request K fs req" "\<not> invalid_job req" "submitJob X srv c (Some req) a = (resp, b)"
    and "status_code resp \<noteq> 429" "SubmitJob X K srv c fs a = (reply, b')"
  shows "same_reply K resp reply \<and> a_pg b = a_pg b' \<and> (srv_limiter srv = None \<longrightarrow> b = b')"
proof -
  have tenant: "submit_tenant X fs = parse_tenant X (req_TenantID req)"
    using assms(1) by (intro same_tenant) (simp add: same_request_def)
  obtain payload where payload: "submit_payload K fs = Inr payload" using assms(1) by (auto simp: same_request_def)
  show ?thesis
  proof (cases "parse_tenant X (req_TenantID req)")
    case None
    then show ?thesis using assms(2,3,5) tenant by (auto simp: submitJob_def SubmitJob_def)
  next
    case (Some t)
    obtain admit w e R where al: "Allow (cl_limit_fault c) (cl_rnow c) (cl_unix_ms c) (srv_limiter srv)
      (uuid_String X t) (a_redis a) = ((admit, w, e), R)" by (metis surj_pair)
    have rest: "enqueue_and_answer X srv c t req (a\<lparr>a_redis := R\<rparr>) = (resp, b)"
      using assms(2-4) Some al by (auto simp: submitJob_def writeError_def writeJSON_def Let_def split: if_splits)
    have alone: "R = a_redis a" if "srv_limiter srv = None" using al that by (auto simp: Allow_def)
    obtain r s where run: "run_state (queue_enqueue X (cl_env c) (submit_params t req)) (a_pg a) = (r, s)" by force
    note defs = SubmitJob_def tenant Some payload enqueue_and_answer_def same_params [OF assms(1) payload] on_pg_def run a_pg_publish_event
    show ?thesis
    proof (cases r)
      case (Inl err)
      with rest assms(5) alone show ?thesis
        by (auto simp: defs)
    next
      case (Inr v)
      obtain job created latency where v: "v = (job, created, latency)" by (cases v)
      have "resp = writeJSON (if created then 201 else 200) (JobBody job)" "reply = toStruct K (JobValue job)"
        using rest assms(5) Inr v
        by (auto simp: defs split: prod.splits)
      moreover have "a_pg b = s" "a_pg b' = s"
        using rest assms(5) Inr v
        by (auto simp: defs split: prod.splits)
      moreover have "b = b'" if "srv_limiter srv = None"
        using rest assms(5) Inr v alone [OF that]
        by (auto simp: defs split: prod.splits)
      ultimately show ?thesis by simp
    qed
  qed
qed

text \<open>
  C30: the two interfaces are the same queue. A gRPC request and a REST request that describe the
  same job, with parameters that REST accepts and unless the limiter refuses it, give corresponding
  answers and the same tables, and without a limiter also the same events and statistics. Reading,
  cancelling and requeueing a job through either give corresponding answers and the same tables;
  only REST tells the subscribers about it.
\<close>

theorem Grpc_agrees_with_rest:
  assumes "same_request K fs req" "\<not> invalid_job req" "submitJob X srv c (Some req) a = (resp, b)"
    and "status_code resp \<noteq> 429" "SubmitJob X K srv c fs a = (reply, b')"
    and "stringField ids ''id'' = raw" "raw \<noteq> ''''"
  shows "same_reply K resp reply \<and> a_pg b = a_pg b' \<and> (srv_limiter srv = None \<longrightarrow> b = b') \<and>
    same_reply K (fst (getJob X raw a)) (fst (GrpcGetJob X K ids a)) \<and>
    snd (getJob X raw a) = snd (GrpcGetJob X K ids a) \<and>
    same_reply K (fst (cancelJob X srv c raw a)) (fst (GrpcCancelJob X K c ids a)) \<and>
    snd (GrpcCancelJob X K c ids a) = a\<lparr>a_pg := a_pg (snd (cancelJob X srv c raw a))\<rparr> \<and>
    same_reply K (fst (requeueDLQ X srv c raw a)) (fst (GrpcRequeueDLQ X K c ids a)) \<and>
    snd (GrpcRequeueDLQ X K c ids a) = a\<lparr>a_pg := a_pg (snd (requeueDLQ X srv c raw a))\<rparr>"
proof -
  have id: "idField X ids = (case uuid_Parse X raw of None \<Rightarrow> Inl ''invalid UUID'' | Some i \<Rightarrow> Inr i)"
    using assms(6,7) by (simp add: idField_def)
  note defs = with_field_id_def with_id_def parseID_def id on_pg_def a_pg_publish_event
  have "same_reply K (fst (getJob X raw a)) (fst (GrpcGetJob X K ids a)) \<and> snd (getJob X raw a) = snd (GrpcGetJob X K ids a)"
    by (auto simp: getJob_def GrpcGetJob_def defs split: option.split prod.split sum.split)
  moreover have "same_reply K (fst (cancelJob X srv c raw a)) (fst (GrpcCancelJob X K c ids a)) \<and>
      snd (GrpcCancelJob X K c ids a) = a\<lparr>a_pg := a_pg (snd (cancelJob X srv c raw a))\<rparr>"
    by (auto simp: cancelJob_def GrpcCancelJob_def defs split: option.split prod.split sum.split)
  moreover have "same_reply K (fst (requeueDLQ X srv c raw a)) (fst (GrpcRequeueDLQ X K c ids a)) \<and>
      snd (GrpcRequeueDLQ X K c ids a) = a\<lparr>a_pg := a_pg (snd (requeueDLQ X srv c raw a))\<rparr>"
    by (auto simp: requeueDLQ_def GrpcRequeueDLQ_def defs split: option.split prod.split sum.split)
  ultimately show ?thesis using grpc_submit_agrees [OF assms(1-5)] by blast
qed

lemma Grpc_agrees_with_rest_witness:
  "\<exists>resp b reply b'. submitJob sample_ext sample_server sample_call (Some (sample_request\<lparr>req_Priority := 0\<rparr>)) (sample_state empty_db) = (resp, b) \<and>
     SubmitJob sample_ext sample_codec sample_server sample_call (Map.empty(''handler'' \<mapsto> JStr ''echo'')) (sample_state empty_db) = (reply, b') \<and>
     same_reply sample_codec resp reply \<and> b = b'"
proof -
  let ?req = "sample_request\<lparr>req_Priority := 0\<rparr>" and ?fs = "Map.empty(''handler'' \<mapsto> JStr ''echo'')"
  obtain resp b where rest: "submitJob sample_ext sample_server sample_call (Some ?req) (sample_state empty_db) = (resp, b)" by force
  obtain reply b' where grpc: "SubmitJob sample_ext sample_codec sample_server sample_call ?fs (sample_state empty_db) = (reply, b')" by force
  have "same_request sample_codec ?fs ?req" "\<not> invalid_job ?req" "srv_limiter sample_server = None"
    by (simp_all add: same_request_def stringField_def numberField_def submit_payload_def sample_request_def invalid_job_def
        sample_server_def NewServer_def)
  moreover from this rest have "status_code resp \<noteq> 429"
    by (auto simp: submitJob_def Allow_def enqueue_and_answer_def writeError_def writeJSON_def on_pg_def
        split: option.splits prod.splits sum.splits if_splits)
  ultimately show ?thesis
    using Grpc_agrees_with_rest [OF _ _ rest _ grpc, of "Map.empty(''id'' \<mapsto> JStr ''u'')" "''u''"] rest grpc
    by (simp add: stringField_def)
qed

end
