(* ===== verification/Spec2Isabelle.thy ===== *)
theory Spec2Isabelle
  imports Interleaving_Props Processes Row_Scan Event_Stream Cli Grpc
begin

text \<open>
  Verification of \<^bold>\<open>forge-queue\<close>, a job queue on PostgreSQL with workers, cron schedules, a REST
  and a gRPC interface, and Redis for events, rate limiting and statistics.

  \<^bold>\<open>The program and its parts.\<close> Clients submit jobs through \<open>internal/api\<close> or
  \<open>internal/grpcsvc\<close> (the CLI \<open>cmd/forge-cli\<close> is a client of the former); both call
  \<open>internal/queue\<close>, which keeps jobs, runs, leases and dead letters in the tables of
  \<open>internal/store/migrations\<close>. Worker processes (\<open>internal/worker\<close>) claim jobs with a lease,
  run a handler with a heartbeat beside it, and report the outcome. Scheduler processes
  (\<open>internal/scheduler\<close>) elect a leader with an advisory lock and turn due occurrences of
  schedules into jobs. \<open>internal/api/events.go\<close>, \<open>internal/ratelimit\<close> and \<open>internal/metrics\<close>
  use Redis.

  \<^bold>\<open>Theories.\<close>

  \<^item> \<open>Prelude\<close>: values, errors, row operations of SQL; \<open>Step_Systems\<close>: the locales for step
    relations with invariants and histories; \<open>Samples\<close>: small concrete tables.
  \<^item> \<open>Schema\<close>: the tables as a record of row lists, the constraints (\<open>schema_ok\<close>) and what the
    queue keeps true on top (\<open>queue_ok\<close>): leases belong to running jobs, one open run per
    running job, dead letters exactly for dead jobs. The schedule columns that SQL leaves
    nullable but every statement fills are plain.
  \<^item> \<open>Transactions\<close>: programs over the connection. A script of failures decides for every round
    trip whether it is refused or its reply is lost; \<open>sim\<close>, \<open>csim\<close> and \<open>atomic\<close> relate a program
    to a function on the tables, and the locale \<open>atomic_op\<close> is the interface through which
    everything else uses a method of the queue.
  \<^item> \<open>Go_Float\<close>, \<open>Go_Time\<close>, \<open>Go_Text\<close>, \<open>Go_Number\<close>: what the code uses of Go's library, on bytes
    and bits: IEEE doubles with round-to-nearest-even, dates and RFC 3339, \<open>TrimSpace\<close>,
    \<open>json.Valid\<close>, \<open>Atoi\<close> and \<open>ParseDuration\<close>.
  \<^item> \<open>Backoff\<close> and \<open>Queue_Ops\<close>: every method of \<open>queue/postgres.go\<close>, statement by statement;
    \<open>Queue_Invariant\<close>, \<open>Queue_Props\<close>, \<open>Job_Lifecycle\<close>: that every method keeps the invariant,
    what \<open>Dequeue\<close> hands out, exclusiveness and recovery of leases, idempotency, the outcome
    of \<open>Ack\<close>, \<open>Nack\<close>, \<open>ExtendLease\<close>, \<open>Cancel\<close> and \<open>RequeueDLQ\<close> on every branch; and where the code
    departs from the documents: expired leases beyond the retry budget, the attempts of a requeued job.
  \<^item> \<open>Scheduler\<close>, \<open>Scheduler_Props\<close>, \<open>Schedule_Store\<close>: \<open>scheduler.go\<close> and \<open>store.go\<close>; the locales
    \<open>enqueuer\<close> and \<open>live_enqueuer\<close> say what the scheduler relies on, and are interpreted by
    \<open>Queue.Enqueue\<close>. At most one job per occurrence, every due schedule fires, leadership.
  \<^item> \<open>Forge_System\<close>: any number of processes around one database. \<open>forge_step\<close> is one call of any
    operation with any arguments and failures; the interpretation of \<open>history_system\<close> gives the
    invariant, the state machine of a job and the append-only history for all runs.
  \<^item> \<open>Interleaving\<close>, \<open>Interleaving_Props\<close>: the statements of concurrent transactions one by one under
    READ COMMITTED, with row locks, waiting, \<open>SKIP LOCKED\<close> and aborts (\<open>cstep\<close>). \<open>program\<close> is a method
    as a sequence of statements; run alone it is the method of \<open>Queue_Ops\<close>; run with others its
    commit is serial on the rows of \<open>jobs\<close> (the interpretation \<open>server\<close>: between its statements a
    transaction has a \<open>pending_effect\<close>, at its commit the \<open>row_effect\<close> of its method); two concrete
    schedules show what is not serial, a run closed under a renewed lease and a deadlock.
  \<^item> \<open>Row_Scan\<close>: select lists, \<open>scanJobFields\<close> and the loops over result sets, which justify that the
    other theories let a query return jobs.
  \<^item> \<open>Redis\<close>: the commands the program sends; \<open>RateLimit\<close>: the Lua token bucket on floats, with
    the bound on admitted requests while the keys live and what happens when they expire; \<open>Metrics\<close>: counters, snapshots, percentiles; \<open>Events\<close>: the hub
    as a step system over channels, with the interpretation \<open>hub\<close>; \<open>Event_Stream\<close>: what a
    subscriber receives, which is exactly what found room in its buffer, and the text of the stream as
    a browser reads it.
  \<^item> \<open>Worker\<close>: \<open>pool.go\<close> and \<open>registry.go\<close>; the outcome of an execution, heartbeats that keep a lease when
    they follow their ticker with bounded delay. \<open>Select_Loop\<close>: a
    \<open>for\<close> around a \<open>select\<close> as a partial function, with the locales \<open>endless_loop\<close> and
    \<open>loop_invariant\<close>; \<open>Pool_Run\<close>: the loop of a slot and the pool of concurrent slots as a step
    relation, in which every call may fail, with its shutdown and what a failed call leaves
    leased; \<open>Background\<close>: the loops of the scheduler, the depth sampler, the
    statistics ticker, the event bridge and the heartbeat.
  \<^item> \<open>Api\<close>, \<open>Grpc\<close>, \<open>Cli\<close>: handlers, routes, methods, flags and commands, and the agreement of the
    two interfaces; \<open>Config\<close> and \<open>Commands\<close>: what a process gets from its environment; \<open>Processes\<close>:
    \<open>store.go\<close>, \<open>tracing.go\<close> and the \<open>main\<close> functions, from start to exit status.

  \<^bold>\<open>State and effects.\<close> A database program is a value of the state monad over \<open>pg\<close> (committed
  tables, the open transaction, the holder of the advisory lock, the script of failures); an
  error is a value of \<open>error\<close>. Handlers take and return the database, Redis, the hub and the
  instruments. Clocks, generated ids, the order of Go maps, rows locked by others and the
  choices of \<open>select\<close> are arguments, so the theorems hold for all of them. Durations and counts
  are integers with \<open>int64\<close> and \<open>int16\<close> written where the code converts.

  \<^bold>\<open>Termination and fuel.\<close> The endless loops (worker slots, tickers, the scheduler's \<open>Run\<close>, the
  event bridge) are \<open>select_loop\<close>, a \<open>partial_function\<close> on what their \<open>select\<close> receives, whose value is
  \<open>None\<close> when it never returns; it is proved that they return if and only if their context is done,
  and after which rounds. Every other definition is total. \<open>TrimSpace\<close> recurses with the length of
  its input as fuel, which is enough because every round removes a byte; \<open>ParseDuration\<close> and
  \<open>parse_flags\<close> terminate by the length.

  \<^bold>\<open>Parameters.\<close> \<open>ext\<close> holds the text form and the parser of UUIDs, PostgreSQL's \<open>jsonb\<close> input
  and the cron parser; \<open>payload_decoder\<close>, \<open>codec\<close> and \<open>cl_marshal\<close> the conversions between JSON or
  protobuf and Go values; \<open>scanner\<close> the conversions of \<open>pgx\<close> between columns and variables; \<open>lib\<close> the
  outcomes of opening pools, migrations, exporters and listeners; \<open>http_client\<close> the exchange of the
  command line client; \<open>oob\<close> the conversion of a float that does not fit an integer.
  Theorems that need something of them say so in a hypothesis.

  \<^bold>\<open>Not modelled.\<close> Outside \<open>Interleaving\<close> a transaction works on the tables as they were when it
  began, with the rows that others have locked as an argument. \<open>Interleaving\<close> leaves out \<open>dead_letter\<close>,
  which is only written by a session that holds the lock of the job, lets a statement miss any of
  the rows that were committed after it began, and evaluates a sub-select when the statement does its
  step. In \<open>Forge_System\<close> a call of \<open>Enqueue\<close> or \<open>Tick\<close>, which is several statements that commit on
  their own, is one step. The pool of \<open>Pool_Run\<close> assumes that nobody else leases jobs under its
  worker id. The lists of \<open>Metrics\<close> hold numbers, so that an entry which \<open>ParseFloat\<close> rejects does
  not occur (the recorder writes none). What percent signs in a URL are decoded to. Decoding of JSON bodies and payloads; logging; the
  generated protobuf code; the helpers of the integration tests (\<open>internal/testutil\<close>, which start a
  container); the routing inside the chi library beyond the segments of a path.
\<close>

end
